(* ===== verification/Prelude.thy ===== *)
theory Prelude
  imports Main "HOL-Library.List_Lexorder" "HOL-Library.Char_ord"
begin

text \<open>
  The part of the Go language and of its standard library that every component of the proxy
  uses: byte strings with \<open>strings.TrimSpace\<close>, \<open>strings.Split\<close>, \<open>strings.Join\<close> and
  \<open>strconv.Atoi\<close>, the 64-bit integers behind \<open>int\<close>, \<open>int64\<close> and \<open>time.Duration\<close>,
  points in time, and facts on finite maps that the stateful components share.

  A Go string is a sequence of bytes, as an Isabelle \<open>string\<close> is a list of 8-bit characters,
  so \<open>len(s)\<close> is \<open>length s\<close> and \<open><\<close> on strings is the lexicographic order of the bytes.
\<close>

named_theorems go_string "facts on Go strings"
named_theorems go_map "facts on Go maps"

subsection \<open>Integers and time\<close>

text \<open>Two's complement wrap-around of \<open>int64\<close> (Go's \<open>int\<close> on the 64-bit server, too).\<close>

definition wrap64 :: "int \<Rightarrow> int" where
  "wrap64 x = (x + 2 ^ 63) mod 2 ^ 64 - 2 ^ 63"

definition in_int64 :: "int \<Rightarrow> bool" where
  "in_int64 x \<longleftrightarrow> - (2 ^ 63) \<le> x \<and> x < 2 ^ 63"

lemma wrap64_id [simp]: "in_int64 x \<Longrightarrow> wrap64 x = x"
  by (simp add: in_int64_def wrap64_def)

lemma in_int64_wrap64 [simp, intro]: "in_int64 (wrap64 x)"
proof -
  have "0 \<le> (x + 2 ^ 63) mod (2 ^ 64 :: int)" and "(x + 2 ^ 63) mod (2 ^ 64 :: int) < 2 ^ 64"
    by simp_all
  then show ?thesis by (simp add: in_int64_def wrap64_def)
qed

lemma wrap64_mod: "wrap64 x mod 2 ^ 64 = x mod 2 ^ 64"
proof -
  have "wrap64 x mod 2 ^ 64 = ((x + 2 ^ 63) mod 2 ^ 64 - 2 ^ 63) mod 2 ^ 64"
    by (simp only: wrap64_def)
  also have "\<dots> = (x + 2 ^ 63 - 2 ^ 63) mod 2 ^ 64"
    by (rule mod_diff_left_eq)
  finally show ?thesis by simp
qed

text \<open>
  A \<open>time.Duration\<close> counts nanoseconds in an \<open>int64\<close>. A \<open>time.Time\<close> is the number of
  nanoseconds since its zero value (January 1 of year 1, UTC); its range of 292 billion years is
  never left, so \<open>Add\<close> is exact, whereas \<open>Sub\<close> saturates at the bounds of a duration.
\<close>

type_synonym duration = int
type_synonym gotime = int

abbreviation Millisecond :: duration where "Millisecond \<equiv> 1000000"
abbreviation Second :: duration where "Second \<equiv> 1000000000"
abbreviation Minute :: duration where "Minute \<equiv> 60000000000"

definition IsZero :: "gotime \<Rightarrow> bool" where
  "IsZero t \<longleftrightarrow> t = 0"

definition Before :: "gotime \<Rightarrow> gotime \<Rightarrow> bool" where
  "Before t u \<longleftrightarrow> t < u"

definition time_Add :: "gotime \<Rightarrow> duration \<Rightarrow> gotime" where
  "time_Add t d = t + d"

definition time_Sub :: "gotime \<Rightarrow> gotime \<Rightarrow> duration" where
  "time_Sub t u = max (- (2 ^ 63)) (min (2 ^ 63 - 1) (t - u))"

text \<open>\<open>time.UnixMilli\<close>: the Unix epoch is 62135596800 seconds after the zero time.\<close>

definition UnixMilli :: "int \<Rightarrow> gotime" where
  "UnixMilli ms = 62135596800 * Second + ms * Millisecond"

subsection \<open>Bytes\<close>

definition is_digit :: "char \<Rightarrow> bool" where
  "is_digit c \<longleftrightarrow> CHR ''0'' \<le> c \<and> c \<le> CHR ''9''"

definition is_lower :: "char \<Rightarrow> bool" where
  "is_lower c \<longleftrightarrow> CHR ''a'' \<le> c \<and> c \<le> CHR ''z''"

definition is_upper :: "char \<Rightarrow> bool" where
  "is_upper c \<longleftrightarrow> CHR ''A'' \<le> c \<and> c \<le> CHR ''Z''"

abbreviation is_letter :: "char \<Rightarrow> bool" where
  "is_letter c \<equiv> is_lower c \<or> is_upper c"

definition char_val :: "char \<Rightarrow> nat" where
  "char_val c = of_char c"

lemma char_le_val: "c \<le> d \<longleftrightarrow> char_val c \<le> char_val d"
  by (simp add: char_val_def less_eq_char_def)

lemma char_val_inject [simp]: "char_val c = char_val d \<longleftrightarrow> c = d"
  by (simp add: char_val_def)

lemma char_val_less [simp]: "char_val c < 256"
  by (simp add: char_val_def)

definition to_upper :: "char \<Rightarrow> char" where
  "to_upper c = (if is_lower c then char_of (char_val c - 32) else c)"

definition to_lower :: "char \<Rightarrow> char" where
  "to_lower c = (if is_upper c then char_of (char_val c + 32) else c)"

lemma char_val_char_of [simp]: "n < 256 \<Longrightarrow> char_val (char_of n) = n"
  by (simp add: char_val_def)

lemma to_upper_letter: "is_letter c \<Longrightarrow> is_upper (to_upper c)"
  by (auto simp: to_upper_def is_lower_def is_upper_def char_le_val) (simp_all add: char_val_def)

lemma to_upper_upper: "is_upper c \<Longrightarrow> to_upper c = c"
  by (auto simp: to_upper_def is_lower_def is_upper_def char_le_val) (simp_all add: char_val_def)

subsection \<open>strings.TrimSpace\<close>

text \<open>
  The UTF-8 encodings of the code points that \<open>unicode.IsSpace\<close> accepts. Trimming decodes runes
  from the ends of the string; a rune is white space exactly when the string starts (ends) with
  one of these byte sequences.
\<close>

definition go_spaces :: "string list" where
  "go_spaces =
     [[CHR 0x09], [CHR 0x0A], [CHR 0x0B], [CHR 0x0C], [CHR 0x0D], [CHR 0x20],
      [CHR 0xC2, CHR 0x85], [CHR 0xC2, CHR 0xA0], [CHR 0xE1, CHR 0x9A, CHR 0x80],
      [CHR 0xE2, CHR 0x80, CHR 0x80], [CHR 0xE2, CHR 0x80, CHR 0x81],
      [CHR 0xE2, CHR 0x80, CHR 0x82], [CHR 0xE2, CHR 0x80, CHR 0x83],
      [CHR 0xE2, CHR 0x80, CHR 0x84], [CHR 0xE2, CHR 0x80, CHR 0x85],
      [CHR 0xE2, CHR 0x80, CHR 0x86], [CHR 0xE2, CHR 0x80, CHR 0x87],
      [CHR 0xE2, CHR 0x80, CHR 0x88], [CHR 0xE2, CHR 0x80, CHR 0x89],
      [CHR 0xE2, CHR 0x80, CHR 0x8A], [CHR 0xE2, CHR 0x80, CHR 0xA8],
      [CHR 0xE2, CHR 0x80, CHR 0xA9], [CHR 0xE2, CHR 0x80, CHR 0xAF],
      [CHR 0xE2, CHR 0x81, CHR 0x9F], [CHR 0xE3, CHR 0x80, CHR 0x80]]"

fun strip_prefix :: "string \<Rightarrow> string \<Rightarrow> string option" where
  "strip_prefix [] s = Some s"
| "strip_prefix (p # ps) [] = None"
| "strip_prefix (p # ps) (c # cs) = (if p = c then strip_prefix ps cs else None)"

lemma strip_prefix_Some: "strip_prefix p s = Some t \<longleftrightarrow> s = p @ t"
  by (induction p s rule: strip_prefix.induct) auto

lemma strip_prefix_None: "strip_prefix p s = None \<longleftrightarrow> (\<forall>t. s \<noteq> p @ t)"
  using strip_prefix_Some by (metis not_None_eq)

fun strip_any :: "string list \<Rightarrow> string \<Rightarrow> string option" where
  "strip_any [] s = None"
| "strip_any (e # es) s =
     (if e = [] then strip_any es s
      else case strip_prefix e s of Some t \<Rightarrow> Some t | None \<Rightarrow> strip_any es s)"

lemma strip_any_SomeD: "strip_any es s = Some t \<Longrightarrow> \<exists>e \<in> set es. e \<noteq> [] \<and> s = e @ t"
  by (induction es) (auto split: if_splits option.splits simp: strip_prefix_Some)

lemma strip_any_None: "strip_any es s = None \<longleftrightarrow> (\<forall>e \<in> set es. e \<noteq> [] \<longrightarrow> (\<forall>t. s \<noteq> e @ t))"
  by (induction es) (auto split: option.splits simp: strip_prefix_Some strip_prefix_None)

function trim_with :: "string list \<Rightarrow> string \<Rightarrow> string" where
  "trim_with es s = (case strip_any es s of None \<Rightarrow> s | Some t \<Rightarrow> trim_with es t)"
  by pat_completeness auto
termination
  by (relation "measure (\<lambda>(es, s). length s)") (auto dest!: strip_any_SomeD)

declare trim_with.simps [simp del]

lemma trim_with_id: "strip_any es s = None \<Longrightarrow> trim_with es s = s"
  by (subst trim_with.simps) simp

lemma trim_with_step: "strip_any es s = Some t \<Longrightarrow> trim_with es s = trim_with es t"
  by (subst trim_with.simps) simp

lemma trim_with_stops: "strip_any es (trim_with es s) = None"
proof (induction es s rule: trim_with.induct)
  case (1 es s)
  then show ?case
    by (cases "strip_any es s") (auto simp: trim_with_id trim_with_step)
qed

lemma trim_with_suffix: "\<exists>p. s = p @ trim_with es s"
proof (induction es s rule: trim_with.induct)
  case (1 es s)
  show ?case
  proof (cases "strip_any es s")
    case None
    then show ?thesis by (simp add: trim_with_id)
  next
    case (Some t)
    from strip_any_SomeD[OF Some] obtain e where e: "s = e @ t" by blast
    from 1[OF Some] obtain p where p: "t = p @ trim_with es t" by blast
    from e p have "s = (e @ p) @ trim_with es t" by (metis append.assoc)
    then show ?thesis unfolding trim_with_step[OF Some] by blast
  qed
qed

definition TrimSpace :: "string \<Rightarrow> string" where
  "TrimSpace s = rev (trim_with (map rev go_spaces) (rev (trim_with go_spaces s)))"

text \<open>A string is trimmed when it neither starts nor ends with white space.\<close>

definition trimmed :: "string \<Rightarrow> bool" where
  "trimmed s \<longleftrightarrow> strip_any go_spaces s = None \<and> strip_any (map rev go_spaces) (rev s) = None"

lemma TrimSpace_trimmed [simp]: "trimmed s \<Longrightarrow> TrimSpace s = s"
  by (simp add: TrimSpace_def trimmed_def trim_with_id)

lemma trimmed_TrimSpace [simp]: "trimmed (TrimSpace s)"
proof -
  let ?t = "trim_with go_spaces s" and ?rs = "map rev go_spaces"
  obtain p where p: "rev ?t = p @ trim_with ?rs (rev ?t)"
    using trim_with_suffix by blast
  have "?t = rev (rev ?t)" by simp
  also have "\<dots> = TrimSpace s @ rev p"
    by (subst p) (simp add: TrimSpace_def)
  finally have t: "?t = TrimSpace s @ rev p" .
  have "strip_any go_spaces ?t = None"
    by (rule trim_with_stops)
  then have "strip_any go_spaces (TrimSpace s) = None"
    unfolding strip_any_None t by auto
  moreover have "strip_any ?rs (rev (TrimSpace s)) = None"
    by (simp add: TrimSpace_def trim_with_stops)
  ultimately show ?thesis by (simp add: trimmed_def)
qed

lemma TrimSpace_idem [simp]: "TrimSpace (TrimSpace s) = TrimSpace s"
  by simp

lemma trimmed_Nil [simp]: "trimmed []"
  by (simp add: trimmed_def go_spaces_def)

lemma TrimSpace_Nil [simp]: "TrimSpace [] = []"
  by simp

subsection \<open>strings.Split and strings.Join\<close>

text \<open>Both for a separator of one byte, the only ones the code uses.\<close>

fun Split :: "char \<Rightarrow> string \<Rightarrow> string list" where
  "Split c [] = [[]]"
| "Split c (x # xs) =
     (if x = c then [] # Split c xs
      else case Split c xs of [] \<Rightarrow> [[x]] | p # ps \<Rightarrow> (x # p) # ps)"

fun Join :: "char \<Rightarrow> string list \<Rightarrow> string" where
  "Join c [] = []"
| "Join c [p] = p"
| "Join c (p # q # ps) = p @ c # Join c (q # ps)"

lemma Split_nonempty [simp]: "Split c s \<noteq> []"
  by (induction s) (auto split: list.splits)

lemma Split_no_sep: "p \<in> set (Split c s) \<Longrightarrow> c \<notin> set p"
proof (induction s arbitrary: p)
  case Nil
  then show ?case by simp
next
  case (Cons x xs)
  then show ?case by (cases "Split c xs") (auto split: if_splits)
qed

lemma Join_Split [go_string]: "Join c (Split c s) = s"
proof (induction s)
  case Nil
  then show ?case by simp
next
  case (Cons x xs)
  obtain p ps where ps: "Split c xs = p # ps"
    using Split_nonempty[of c xs] by (cases "Split c xs") blast+
  with Cons show ?case by (cases ps) auto
qed

lemma Split_no_sep_single: "c \<notin> set s \<Longrightarrow> Split c s = [s]"
  by (induction s) auto

lemma Split_append_sep: "c \<notin> set p \<Longrightarrow> Split c (p @ c # s) = p # Split c s"
  by (induction p) auto

lemma Split_Join [go_string]:
  "ps \<noteq> [] \<Longrightarrow> \<forall>p \<in> set ps. c \<notin> set p \<Longrightarrow> Split c (Join c ps) = ps"
  by (induction c ps rule: Join.induct) (auto simp: Split_no_sep_single Split_append_sep)

lemma Join_snoc: "ps \<noteq> [] \<Longrightarrow> Join c (ps @ [q]) = Join c ps @ c # q"
  by (induction c ps rule: Join.induct) auto

lemma Split_snoc_sep: "c \<notin> set q \<Longrightarrow> Split c (s @ c # q) = Split c s @ [q]"
proof (induction s)
  case Nil
  then show ?case by (simp add: Split_no_sep_single)
next
  case (Cons x xs)
  then show ?case by (cases "Split c xs") auto
qed

subsection \<open>strconv.Atoi\<close>

fun dec_val :: "nat \<Rightarrow> string \<Rightarrow> nat" where
  "dec_val acc [] = acc"
| "dec_val acc (c # cs) = dec_val (10 * acc + (char_val c - 48)) cs"

text \<open>
  \<open>Atoi\<close> of a decimal number with an optional sign; a syntax error and a value outside
  \<open>int64\<close> are both an error (\<open>None\<close>).
\<close>

definition Atoi :: "string \<Rightarrow> int option" where
  "Atoi s =
     (let neg = (s \<noteq> [] \<and> hd s = CHR ''-'');
          ds = (if s \<noteq> [] \<and> (hd s = CHR ''-'' \<or> hd s = CHR ''+'') then tl s else s)
      in if ds = [] \<or> \<not> list_all is_digit ds then None
         else let n = int (dec_val 0 ds); v = (if neg then - n else n)
              in if in_int64 v then Some v else None)"

lemma Atoi_in_int64: "Atoi s = Some v \<Longrightarrow> in_int64 v"
  by (auto simp: Atoi_def Let_def split: if_splits)

text \<open>The decimal rendering of a natural number (\<open>strconv.Itoa\<close> on non-negative values).\<close>

fun Itoa :: "nat \<Rightarrow> string" where
  "Itoa n = (if n < 10 then [char_of (48 + n)] else Itoa (n div 10) @ [char_of (48 + n mod 10)])"

declare Itoa.simps [simp del]

lemma dec_val_snoc: "dec_val acc (cs @ [c]) = 10 * dec_val acc cs + (char_val c - 48)"
  by (induction cs arbitrary: acc) auto

lemma is_digit_char_of: "n < 10 \<Longrightarrow> is_digit (char_of (48 + n :: nat))"
  by (simp add: is_digit_def char_le_val) (simp add: char_val_def)

lemma Itoa_digits: "Itoa n \<noteq> [] \<and> list_all is_digit (Itoa n) \<and> dec_val 0 (Itoa n) = n"
proof (induction n rule: Itoa.induct)
  case (1 n)
  show ?case
  proof (cases "n < 10")
    case True
    then show ?thesis by (simp add: Itoa.simps[of n] is_digit_char_of)
  next
    case False
    with 1 show ?thesis by (simp add: Itoa.simps[of n] is_digit_char_of dec_val_snoc)
  qed
qed

lemma digit_not_sign: "is_digit c \<Longrightarrow> c \<noteq> CHR ''-'' \<and> c \<noteq> CHR ''+''"
  by (auto simp: is_digit_def less_eq_char_def)

lemma Atoi_Itoa [go_string]: "n < 2 ^ 63 \<Longrightarrow> Atoi (Itoa n) = Some (int n)"
proof -
  assume n: "n < 2 ^ 63"
  obtain c cs where cs: "Itoa n = c # cs" using Itoa_digits[of n] by (cases "Itoa n") auto
  then have c: "c \<noteq> CHR ''-'' \<and> c \<noteq> CHR ''+''"
    using Itoa_digits[of n] digit_not_sign by auto
  from n have "in_int64 (int n)" by (simp add: in_int64_def)
  with c cs Itoa_digits[of n] show ?thesis by (simp add: Atoi_def Let_def)
qed

subsection \<open>Lists\<close>

lemma length_3_obtain:
  assumes "length xs = 3"
  obtains a b c where "xs = [a, b, c]"
  using assms by (auto simp: numeral_3_eq_3 length_Suc_conv)

subsection \<open>Maps\<close>

text \<open>
  A Go map is a finite partial function. \<open>len(m)\<close> is the number of keys. A \<open>range\<close> loop
  visits the keys in an unspecified order: a loop is modelled over a list of keys that the
  caller chooses, and the theorems quantify over every list that enumerates the keys.
\<close>

definition map_len :: "('k \<rightharpoonup> 'v) \<Rightarrow> nat" where
  "map_len m = card (dom m)"

definition enumerates :: "'k list \<Rightarrow> ('k \<rightharpoonup> 'v) \<Rightarrow> bool" where
  "enumerates ks m \<longleftrightarrow> distinct ks \<and> set ks = dom m"

lemma enumerates_finite [go_map]: "enumerates ks m \<Longrightarrow> finite (dom m)"
  unfolding enumerates_def using List.finite_set by metis

lemma enumerates_len: "enumerates ks m \<Longrightarrow> length ks = map_len m"
  unfolding enumerates_def map_len_def using distinct_card by metis

lemma map_len_zero [go_map]: "finite (dom m) \<Longrightarrow> map_len m = 0 \<longleftrightarrow> m = Map.empty"
  by (simp add: map_len_def dom_eq_empty_conv)

end
