(* ===== verification/Step_System.thy ===== *)
theory Step_System
  imports Prelude
begin

text \<open>
  Sequences of operations on a shared component. Every stateful component of the proxy is a value
  behind a mutex that many goroutines call, so its history is some sequence of atomic operations.
  \<open>run step\<close> is the closure of a labelled step relation; the two locales are the interfaces under
  which an invariant holds after every history (\<open>step_system\<close>) and a fact survives a history
  of restricted operations (\<open>keeping_system\<close>). Each component interprets them on its own steps.
\<close>

inductive run :: "('s \<Rightarrow> 'o \<Rightarrow> 's \<Rightarrow> bool) \<Rightarrow> 's \<Rightarrow> 'o list \<Rightarrow> 's \<Rightarrow> bool"
  for step :: "'s \<Rightarrow> 'o \<Rightarrow> 's \<Rightarrow> bool" where
  run_Nil [intro!]: "run step s [] s"
| run_Cons: "step s oper s' \<Longrightarrow> run step s' opers s'' \<Longrightarrow> run step s (oper # opers) s''"

inductive_simps run_Nil_iff [simp]: "run step s [] t"
inductive_simps run_Cons_iff [simp]: "run step s (oper # opers) t"

lemma run_append: "run step s (xs @ ys) t \<longleftrightarrow> (\<exists>m. run step s xs m \<and> run step m ys t)"
  by (induction xs arbitrary: s) auto

locale step_system =
  fixes initial :: "'s \<Rightarrow> bool"
    and step :: "'s \<Rightarrow> 'o \<Rightarrow> 's \<Rightarrow> bool"
    and inv :: "'s \<Rightarrow> bool"
  assumes initial_inv: "initial s \<Longrightarrow> inv s"
    and step_inv: "inv s \<Longrightarrow> step s oper s' \<Longrightarrow> inv s'"
begin

lemma run_inv: "run step s opers t \<Longrightarrow> inv s \<Longrightarrow> inv t"
  by (induction rule: run.induct) (auto intro: step_inv)

lemma history_inv: "initial s \<Longrightarrow> run step s opers t \<Longrightarrow> inv t"
  using run_inv initial_inv by blast

end

locale keeping_system = step_system +
  fixes harmless :: "'b \<Rightarrow> bool"
    and fact :: "'a \<Rightarrow> bool"
  assumes step_keeps: "inv s \<Longrightarrow> fact s \<Longrightarrow> harmless oper \<Longrightarrow> step s oper s' \<Longrightarrow> fact s'"
begin

lemma run_keeps:
  "run step s opers t \<Longrightarrow> inv s \<Longrightarrow> fact s \<Longrightarrow> (\<And>oper. oper \<in> set opers \<Longrightarrow> harmless oper) \<Longrightarrow> fact t"
  by (induction rule: run.induct) (auto intro: step_inv step_keeps)

end

end
