(* ===== verification/Lease.thy ===== *)
theory Lease
  imports Step_System
begin

text \<open>
  \<open>server/scheduler/lease.go\<close>: the sticky-lease table. Leases are shared mutable objects that
  two maps and every open handle point to, so the model has an explicit store: \<open>sl_heap\<close> maps
  pointers to \<open>Lease\<close> values, \<open>sl_handles\<close> holds the handles given to callers, and the two
  indexes hold pointers. Each public method takes the clock readings it makes as arguments
  (\<open>Acquire\<close> reads the clock twice) and runs under the table's mutex, so it is one atomic step.

  The lemmas show that the indexes stay mutual inverses and the reference counts exact, that
  every method refines an operation on the abstract map from users to bindings, and that a
  binding survives everything other users do until it expires.
\<close>

type_synonym lease_ptr = nat

record Lease =
  l_UserKey :: string
  l_DeviceID :: string
  l_Country :: string
  l_Expires :: gotime
  l_refcount :: int

record leaseHandle =
  h_lease :: lease_ptr
  h_closed :: bool

text \<open>The \<open>Handle\<close> interface: a \<open>leaseHandle\<close> or a \<open>noopHandle\<close>.\<close>

datatype Handle = LeaseHandle nat | NoopHandle

datatype lease_error = ErrDeviceTaken

record StickyLeases =
  sl_heap :: "lease_ptr \<rightharpoonup> Lease"
  sl_next :: lease_ptr
  sl_handles :: "nat \<rightharpoonup> leaseHandle"
  sl_hnext :: nat
  sl_byUser :: "string \<rightharpoonup> lease_ptr"
  sl_byDev :: "string \<rightharpoonup> lease_ptr"

definition NewLeases :: StickyLeases where
  "NewLeases = \<lparr>sl_heap = Map.empty, sl_next = 0, sl_handles = Map.empty, sl_hnext = 0,
                sl_byUser = Map.empty, sl_byDev = Map.empty\<rparr>"

definition zero_lease :: Lease where
  "zero_lease = \<lparr>l_UserKey = '''', l_DeviceID = '''', l_Country = '''', l_Expires = 0, l_refcount = 0\<rparr>"

definition lease_at :: "StickyLeases \<Rightarrow> lease_ptr \<Rightarrow> Lease" where
  "lease_at sl a = (case sl_heap sl a of Some l \<Rightarrow> l | None \<Rightarrow> zero_lease)"

subsection \<open>Operations\<close>

definition evictLocked :: "StickyLeases \<Rightarrow> lease_ptr \<Rightarrow> StickyLeases" where
  "evictLocked sl a =
     (let l = lease_at sl a;
          sl = (if sl_byUser sl (l_UserKey l) = Some a
                then sl\<lparr>sl_byUser := (sl_byUser sl)(l_UserKey l := None)\<rparr> else sl);
          sl = (if sl_byDev sl (l_DeviceID l) = Some a
                then sl\<lparr>sl_byDev := (sl_byDev sl)(l_DeviceID l := None)\<rparr> else sl)
      in sl)"

definition GetActive :: "gotime \<Rightarrow> string \<Rightarrow> StickyLeases \<Rightarrow> lease_ptr option \<times> StickyLeases" where
  "GetActive now userKey sl =
     (case sl_byUser sl userKey of
        None \<Rightarrow> (None, sl)
      | Some a \<Rightarrow>
         if \<not> Before now (l_Expires (lease_at sl a)) then (None, evictLocked sl a)
         else (Some a, sl))"

text \<open>A handle for lease \<open>a\<close>, allocated at the next free slot.\<close>

definition new_handle :: "lease_ptr \<Rightarrow> StickyLeases \<Rightarrow> Handle \<times> StickyLeases" where
  "new_handle a sl =
     (LeaseHandle (sl_hnext sl),
      sl\<lparr>sl_handles := (sl_handles sl)(sl_hnext sl \<mapsto> \<lparr>h_lease = a, h_closed = False\<rparr>),
         sl_hnext := Suc (sl_hnext sl)\<rparr>)"

definition AcquireRef :: "lease_ptr \<Rightarrow> StickyLeases \<Rightarrow> Handle \<times> StickyLeases" where
  "AcquireRef a sl =
     (let l = lease_at sl a in
      if sl_byUser sl (l_UserKey l) \<noteq> Some a then (NoopHandle, sl)
      else new_handle a (sl\<lparr>sl_heap := (sl_heap sl)(a \<mapsto> l\<lparr>l_refcount := l_refcount l + 1\<rparr>)\<rparr>))"

text \<open>The lookup by device that starts \<open>Acquire\<close>: evict it, refuse, or go on.\<close>

definition claim_device :: "gotime \<Rightarrow> string \<Rightarrow> string \<Rightarrow> StickyLeases \<Rightarrow> lease_error + StickyLeases" where
  "claim_device now userKey deviceID sl =
     (case sl_byDev sl deviceID of
        None \<Rightarrow> Inr sl
      | Some a \<Rightarrow>
         if \<not> Before now (l_Expires (lease_at sl a)) then Inr (evictLocked sl a)
         else if l_UserKey (lease_at sl a) \<noteq> userKey then Inl ErrDeviceTaken
         else Inr sl)"

definition drop_old :: "string \<Rightarrow> StickyLeases \<Rightarrow> StickyLeases" where
  "drop_old userKey sl =
     (case sl_byUser sl userKey of None \<Rightarrow> sl | Some old \<Rightarrow> evictLocked sl old)"

definition insert_lease :: "Lease \<Rightarrow> StickyLeases \<Rightarrow> lease_ptr \<times> StickyLeases" where
  "insert_lease l sl =
     (sl_next sl,
      sl\<lparr>sl_heap := (sl_heap sl)(sl_next sl \<mapsto> l), sl_next := Suc (sl_next sl),
         sl_byUser := (sl_byUser sl)(l_UserKey l \<mapsto> sl_next sl),
         sl_byDev := (sl_byDev sl)(l_DeviceID l \<mapsto> sl_next sl)\<rparr>)"

definition Acquire ::
    "gotime \<Rightarrow> gotime \<Rightarrow> string \<Rightarrow> string \<Rightarrow> string \<Rightarrow> duration \<Rightarrow> StickyLeases \<Rightarrow>
     (lease_error + lease_ptr \<times> Handle) \<times> StickyLeases" where
  "Acquire now1 now2 userKey deviceID country ttl sl =
     (case claim_device now1 userKey deviceID sl of
        Inl e \<Rightarrow> (Inl e, sl)
      | Inr sl \<Rightarrow>
         let sl = drop_old userKey sl;
             l = \<lparr>l_UserKey = userKey, l_DeviceID = deviceID, l_Country = country,
                  l_Expires = time_Add now2 ttl, l_refcount = 1\<rparr>;
             (a, sl) = insert_lease l sl;
             (h, sl) = new_handle a sl
         in (Inr (a, h), sl))"

text \<open>
  The two loops over the maps: entries deleted during the walk are not visited any more. The
  last argument is the order of the walk.
\<close>

fun held_loop :: "gotime \<Rightarrow> string \<Rightarrow> StickyLeases \<Rightarrow> string set \<Rightarrow> string list \<Rightarrow> string set \<times> StickyLeases" where
  "held_loop now ex sl out [] = (out, sl)"
| "held_loop now ex sl out (dev # devs) =
     (case sl_byDev sl dev of
        None \<Rightarrow> held_loop now ex sl out devs
      | Some a \<Rightarrow>
         if \<not> Before now (l_Expires (lease_at sl a)) then held_loop now ex (evictLocked sl a) out devs
         else if l_UserKey (lease_at sl a) = ex then held_loop now ex sl out devs
         else held_loop now ex sl (insert dev out) devs)"

definition HeldDeviceIDs :: "gotime \<Rightarrow> string \<Rightarrow> string list \<Rightarrow> StickyLeases \<Rightarrow> string set \<times> StickyLeases" where
  "HeldDeviceIDs now ex devs sl = held_loop now ex sl {} devs"

fun sweep_loop :: "gotime \<Rightarrow> StickyLeases \<Rightarrow> nat \<Rightarrow> string list \<Rightarrow> nat \<times> StickyLeases" where
  "sweep_loop now sl n [] = (n, sl)"
| "sweep_loop now sl n (u # us) =
     (case sl_byUser sl u of
        None \<Rightarrow> sweep_loop now sl n us
      | Some a \<Rightarrow>
         if \<not> Before now (l_Expires (lease_at sl a)) then sweep_loop now (evictLocked sl a) (Suc n) us
         else sweep_loop now sl n us)"

definition Sweep :: "gotime \<Rightarrow> string list \<Rightarrow> StickyLeases \<Rightarrow> nat \<times> StickyLeases" where
  "Sweep now us sl = sweep_loop now sl 0 us"

definition Leases_Size :: "StickyLeases \<Rightarrow> nat" where
  "Leases_Size sl = map_len (sl_byUser sl)"

fun Handle_Close :: "Handle \<Rightarrow> StickyLeases \<Rightarrow> StickyLeases" where
  "Handle_Close NoopHandle sl = sl"
| "Handle_Close (LeaseHandle h) sl =
     (case sl_handles sl h of
        None \<Rightarrow> sl
      | Some lh \<Rightarrow>
         if h_closed lh then sl
         else let sl = sl\<lparr>sl_handles := (sl_handles sl)(h \<mapsto> lh\<lparr>h_closed := True\<rparr>)\<rparr>;
                  l = lease_at sl (h_lease lh)
              in if l_refcount l > 0
                 then sl\<lparr>sl_heap := (sl_heap sl)(h_lease lh \<mapsto> l\<lparr>l_refcount := l_refcount l - 1\<rparr>)\<rparr>
                 else sl)"

subsection \<open>The invariant\<close>

text \<open>The open handles on a lease.\<close>

definition open_handles :: "StickyLeases \<Rightarrow> lease_ptr \<Rightarrow> nat set" where
  "open_handles sl a = {h. \<exists>lh. sl_handles sl h = Some lh \<and> h_lease lh = a \<and> \<not> h_closed lh}"

definition indexes_agree :: "StickyLeases \<Rightarrow> bool" where
  "indexes_agree sl \<longleftrightarrow>
     (\<forall>u a. sl_byUser sl u = Some a \<longrightarrow>
        (\<exists>l. sl_heap sl a = Some l \<and> l_UserKey l = u \<and> sl_byDev sl (l_DeviceID l) = Some a)) \<and>
     (\<forall>d a. sl_byDev sl d = Some a \<longrightarrow>
        (\<exists>l. sl_heap sl a = Some l \<and> l_DeviceID l = d \<and> sl_byUser sl (l_UserKey l) = Some a))"

definition store_fresh :: "StickyLeases \<Rightarrow> bool" where
  "store_fresh sl \<longleftrightarrow>
     (\<forall>a \<ge> sl_next sl. sl_heap sl a = None) \<and> (\<forall>h \<ge> sl_hnext sl. sl_handles sl h = None) \<and>
     (\<forall>h lh. sl_handles sl h = Some lh \<longrightarrow> sl_heap sl (h_lease lh) \<noteq> None)"

definition refcounts_exact :: "StickyLeases \<Rightarrow> bool" where
  "refcounts_exact sl \<longleftrightarrow>
     (\<forall>a l. sl_heap sl a = Some l \<longrightarrow> l_refcount l = int (card (open_handles sl a)))"

definition leases_inv :: "StickyLeases \<Rightarrow> bool" where
  "leases_inv sl \<longleftrightarrow> indexes_agree sl \<and> store_fresh sl \<and> refcounts_exact sl"

lemma leases_inv_New: "leases_inv NewLeases"
  by (simp add: leases_inv_def indexes_agree_def store_fresh_def refcounts_exact_def NewLeases_def)

lemma byUserD:
  assumes "indexes_agree sl" "sl_byUser sl u = Some a"
  shows "sl_heap sl a = Some (lease_at sl a)" "l_UserKey (lease_at sl a) = u"
    "sl_byDev sl (l_DeviceID (lease_at sl a)) = Some a"
  using assms by (fastforce simp: indexes_agree_def lease_at_def)+

lemma byDevD:
  assumes "indexes_agree sl" "sl_byDev sl d = Some a"
  shows "sl_heap sl a = Some (lease_at sl a)" "l_DeviceID (lease_at sl a) = d"
    "sl_byUser sl (l_UserKey (lease_at sl a)) = Some a"
  using assms by (fastforce simp: indexes_agree_def lease_at_def)+

subsection \<open>Eviction\<close>

lemma evictLocked_store [simp]:
  "sl_heap (evictLocked sl a) = sl_heap sl" "sl_next (evictLocked sl a) = sl_next sl"
  "sl_handles (evictLocked sl a) = sl_handles sl" "sl_hnext (evictLocked sl a) = sl_hnext sl"
  by (simp_all add: evictLocked_def Let_def)

lemma lease_at_evict [simp]: "lease_at (evictLocked sl a) b = lease_at sl b"
  by (simp add: lease_at_def)

lemma open_handles_evict [simp]: "open_handles (evictLocked sl a) = open_handles sl"
  by (simp add: open_handles_def fun_eq_iff)

lemma evictLocked_byUser:
  "sl_byUser (evictLocked sl a) u =
     (if u = l_UserKey (lease_at sl a) \<and> sl_byUser sl u = Some a then None else sl_byUser sl u)"
  by (auto simp: evictLocked_def Let_def)

lemma evictLocked_byDev:
  "sl_byDev (evictLocked sl a) d =
     (if d = l_DeviceID (lease_at sl a) \<and> sl_byDev sl d = Some a then None else sl_byDev sl d)"
  by (auto simp: evictLocked_def Let_def)

lemma leases_inv_evict: "leases_inv sl \<Longrightarrow> leases_inv (evictLocked sl a)"
  unfolding leases_inv_def
proof (intro conjI; elim conjE)
  assume *: "indexes_agree sl"
  show "indexes_agree (evictLocked sl a)"
    unfolding indexes_agree_def
  proof (intro conjI allI impI)
    fix u b assume "sl_byUser (evictLocked sl a) u = Some b"
    then have u: "sl_byUser sl u = Some b" and "b \<noteq> a"
      using byUserD(2)[OF *] by (auto simp: evictLocked_byUser split: if_splits)
    then show "\<exists>l. sl_heap (evictLocked sl a) b = Some l \<and> l_UserKey l = u \<and>
        sl_byDev (evictLocked sl a) (l_DeviceID l) = Some b"
      using byUserD[OF * u] by (auto simp: evictLocked_byDev)
  next
    fix d b assume "sl_byDev (evictLocked sl a) d = Some b"
    then have d: "sl_byDev sl d = Some b" and "b \<noteq> a"
      using byDevD(2)[OF *] by (auto simp: evictLocked_byDev split: if_splits)
    then show "\<exists>l. sl_heap (evictLocked sl a) b = Some l \<and> l_DeviceID l = d \<and>
        sl_byUser (evictLocked sl a) (l_UserKey l) = Some b"
      using byDevD[OF * d] by (auto simp: evictLocked_byUser)
  qed
qed (simp_all add: store_fresh_def refcounts_exact_def)

subsection \<open>Handles\<close>

lemma new_handle_proj [simp]:
  "sl_heap (snd (new_handle a sl)) = sl_heap sl" "sl_next (snd (new_handle a sl)) = sl_next sl"
  "sl_byUser (snd (new_handle a sl)) = sl_byUser sl" "sl_byDev (snd (new_handle a sl)) = sl_byDev sl"
  "fst (new_handle a sl) = LeaseHandle (sl_hnext sl)"
  by (simp_all add: new_handle_def)

lemma open_handles_new:
  "store_fresh sl \<Longrightarrow> open_handles (snd (new_handle a sl)) b =
     (if b = a then insert (sl_hnext sl) (open_handles sl b) else open_handles sl b)"
  by (auto simp: open_handles_def new_handle_def store_fresh_def)

lemma finite_open_handles: "store_fresh sl \<Longrightarrow> finite (open_handles sl a)"
proof -
  assume "store_fresh sl"
  then have "open_handles sl a \<subseteq> {..< sl_hnext sl}"
    by (auto simp: open_handles_def store_fresh_def not_less[symmetric])
  then show ?thesis by (rule finite_subset) simp
qed

lemma hnext_not_open: "store_fresh sl \<Longrightarrow> sl_hnext sl \<notin> open_handles sl a"
  by (auto simp: open_handles_def store_fresh_def)

lemma store_fresh_new_handle:
  "store_fresh sl \<Longrightarrow> sl_heap sl a \<noteq> None \<Longrightarrow> store_fresh (snd (new_handle a sl))"
  by (auto simp: store_fresh_def new_handle_def)

lemma card_open_new:
  "store_fresh sl \<Longrightarrow> card (open_handles (snd (new_handle a sl)) b) =
     card (open_handles sl b) + (if b = a then 1 else 0)"
  by (simp add: open_handles_new finite_open_handles hnext_not_open)

text \<open>A change of a lease's reference count.\<close>

definition set_refcount :: "lease_ptr \<Rightarrow> int \<Rightarrow> StickyLeases \<Rightarrow> StickyLeases" where
  "set_refcount a n sl = sl\<lparr>sl_heap := (sl_heap sl)(a \<mapsto> (lease_at sl a)\<lparr>l_refcount := n\<rparr>)\<rparr>"

lemma set_refcount_proj [simp]:
  "sl_next (set_refcount a n sl) = sl_next sl" "sl_handles (set_refcount a n sl) = sl_handles sl"
  "sl_hnext (set_refcount a n sl) = sl_hnext sl" "sl_byUser (set_refcount a n sl) = sl_byUser sl"
  "sl_byDev (set_refcount a n sl) = sl_byDev sl"
  "open_handles (set_refcount a n sl) = open_handles sl"
  by (simp_all add: set_refcount_def open_handles_def fun_eq_iff)

lemma set_refcount_heap:
  "sl_heap (set_refcount a n sl) b =
     (if b = a then Some ((lease_at sl a)\<lparr>l_refcount := n\<rparr>) else sl_heap sl b)"
  by (simp add: set_refcount_def)

lemma lease_at_set_refcount [simp]:
  "l_UserKey (lease_at (set_refcount a n sl) b) = l_UserKey (lease_at sl b)"
  "l_DeviceID (lease_at (set_refcount a n sl) b) = l_DeviceID (lease_at sl b)"
  "l_Country (lease_at (set_refcount a n sl) b) = l_Country (lease_at sl b)"
  "l_Expires (lease_at (set_refcount a n sl) b) = l_Expires (lease_at sl b)"
  by (simp_all add: set_refcount_def lease_at_def)

lemma store_fresh_set_refcount:
  "store_fresh sl \<Longrightarrow> sl_heap sl a \<noteq> None \<Longrightarrow> store_fresh (set_refcount a n sl)"
  by (auto simp: store_fresh_def set_refcount_def)

lemma indexes_agree_set_refcount:
  assumes "indexes_agree sl" "sl_heap sl a \<noteq> None"
  shows "indexes_agree (set_refcount a n sl)"
  using assms unfolding indexes_agree_def set_refcount_def lease_at_def by fastforce

lemma AcquireRef_cases:
  "AcquireRef a sl =
     (if sl_byUser sl (l_UserKey (lease_at sl a)) = Some a
      then new_handle a (set_refcount a (l_refcount (lease_at sl a) + 1) sl) else (NoopHandle, sl))"
  by (simp add: AcquireRef_def Let_def set_refcount_def)

lemma indexes_agree_cong:
  "sl_heap sl' = sl_heap sl \<Longrightarrow> sl_byUser sl' = sl_byUser sl \<Longrightarrow> sl_byDev sl' = sl_byDev sl \<Longrightarrow>
   indexes_agree sl' = indexes_agree sl"
  by (simp add: indexes_agree_def)

lemma indexes_agree_new_handle [simp]: "indexes_agree (snd (new_handle a sl)) = indexes_agree sl"
  by (rule indexes_agree_cong) simp_all

lemma leases_inv_AcquireRef:
  assumes "leases_inv sl"
  shows "leases_inv (snd (AcquireRef a sl))"
proof (cases "sl_byUser sl (l_UserKey (lease_at sl a)) = Some a")
  case True
  have ix: "indexes_agree sl" and fr: "store_fresh sl" and rc: "refcounts_exact sl"
    using assms by (simp_all add: leases_inv_def)
  have a: "sl_heap sl a = Some (lease_at sl a)" using byUserD[OF ix True] by simp
  let ?s = "set_refcount a (l_refcount (lease_at sl a) + 1) sl"
  have f: "store_fresh ?s" using store_fresh_set_refcount[OF fr] a by simp
  have "indexes_agree ?s" using indexes_agree_set_refcount[OF ix] a by simp
  then have "indexes_agree (snd (new_handle a ?s))" by (simp cong: indexes_agree_cong)
  moreover have "store_fresh (snd (new_handle a ?s))"
    by (rule store_fresh_new_handle[OF f]) (simp add: set_refcount_def)
  moreover have "refcounts_exact (snd (new_handle a ?s))"
    using rc a unfolding refcounts_exact_def card_open_new[OF f]
    by (auto simp: set_refcount_heap split: if_splits)
  ultimately show ?thesis using True by (simp add: AcquireRef_cases leases_inv_def)
qed (simp add: AcquireRef_cases assms)

lemma leases_inv_Close:
  assumes "leases_inv sl"
  shows "leases_inv (Handle_Close h sl)"
proof (cases h)
  case (LeaseHandle n)
  have ix: "indexes_agree sl" and fr: "store_fresh sl" and rc: "refcounts_exact sl"
    using assms by (simp_all add: leases_inv_def)
  show ?thesis
  proof (cases "\<exists>lh. sl_handles sl n = Some lh \<and> \<not> h_closed lh")
    case True
    then obtain lh where lh: "sl_handles sl n = Some lh" "\<not> h_closed lh" by blast
    define a where "a = h_lease lh"
    let ?c = "sl\<lparr>sl_handles := (sl_handles sl)(n \<mapsto> lh\<lparr>h_closed := True\<rparr>)\<rparr>"
    have a: "sl_heap sl a = Some (lease_at sl a)"
      using fr lh by (fastforce simp: store_fresh_def a_def lease_at_def)
    have n: "n \<in> open_handles sl a" using lh by (simp add: open_handles_def a_def)
    then have pos: "card (open_handles sl a) > 0"
      using finite_open_handles[OF fr] card_gt_0_iff by blast
    then have "l_refcount (lease_at sl a) > 0" using rc a by (simp add: refcounts_exact_def)
    then have eq: "Handle_Close h sl = set_refcount a (l_refcount (lease_at sl a) - 1) ?c"
      using LeaseHandle lh by (simp add: Let_def set_refcount_def lease_at_def a_def)
    have open_c: "open_handles ?c b = open_handles sl b - (if b = a then {n} else {})" for b
      using lh by (auto simp: open_handles_def a_def)
    have card_c: "card (open_handles ?c b) = card (open_handles sl b) - (if b = a then 1 else 0)" for b
      using n finite_open_handles[OF fr] by (simp add: open_c)
    have "store_fresh ?c" using fr lh by (auto simp: store_fresh_def)
    then have "store_fresh (Handle_Close h sl)"
      unfolding eq by (rule store_fresh_set_refcount) (simp add: a)
    moreover have "indexes_agree ?c" using ix by (simp cong: indexes_agree_cong)
    then have "indexes_agree (Handle_Close h sl)"
      unfolding eq by (rule indexes_agree_set_refcount) (simp add: a)
    moreover have "refcounts_exact (Handle_Close h sl)"
      using rc a pos unfolding eq refcounts_exact_def set_refcount_proj card_c
      by (auto simp: set_refcount_heap lease_at_def split: if_splits)
    ultimately show ?thesis by (simp add: leases_inv_def)
  next
    case False
    then have "Handle_Close h sl = sl"
      using LeaseHandle by (auto split: option.splits)
    with assms show ?thesis by simp
  qed
qed (simp add: assms)

subsection \<open>The abstract view: bindings of users to devices\<close>

text \<open>
  What the table promises is stated on the map from users to bindings. \<open>unexpired\<close> is what remains
  of it when every lease past its expiry is dropped.
\<close>

record Binding =
  b_DeviceID :: string
  b_Country :: string
  b_Expires :: gotime

definition binding_of :: "Lease \<Rightarrow> Binding" where
  "binding_of l = \<lparr>b_DeviceID = l_DeviceID l, b_Country = l_Country l, b_Expires = l_Expires l\<rparr>"

definition bindings :: "StickyLeases \<Rightarrow> string \<Rightarrow> Binding option" where
  "bindings sl u = map_option (\<lambda>a. binding_of (lease_at sl a)) (sl_byUser sl u)"

definition unexpired :: "gotime \<Rightarrow> (string \<Rightarrow> Binding option) \<Rightarrow> string \<Rightarrow> Binding option" where
  "unexpired now B u =
     (case B u of None \<Rightarrow> None | Some b \<Rightarrow> if Before now (b_Expires b) then Some b else None)"

definition abs_Acquire ::
    "string \<Rightarrow> Binding \<Rightarrow> (string \<Rightarrow> Binding option) \<Rightarrow> string \<Rightarrow> Binding option" where
  "abs_Acquire u b B v =
     (if v = u then Some b
      else case B v of None \<Rightarrow> None
           | Some c \<Rightarrow> if b_DeviceID c = b_DeviceID b then None else Some c)"

lemma binding_of_sel [simp]:
  "b_DeviceID (binding_of l) = l_DeviceID l" "b_Country (binding_of l) = l_Country l"
  "b_Expires (binding_of l) = l_Expires l"
  by (simp_all add: binding_of_def)

lemma bindings_Some:
  "bindings sl u = Some b \<longleftrightarrow> (\<exists>a. sl_byUser sl u = Some a \<and> b = binding_of (lease_at sl a))"
  by (auto simp: bindings_def)

lemma bindings_New: "bindings NewLeases = Map.empty"
  by (simp add: bindings_def NewLeases_def fun_eq_iff)

lemma bindings_by_device:
  assumes "indexes_agree sl" "bindings sl u = Some b"
  shows "\<exists>a. sl_byDev sl (b_DeviceID b) = Some a \<and> l_UserKey (lease_at sl a) = u \<and>
             binding_of (lease_at sl a) = b"
  using assms byUserD[OF assms(1)] by (fastforce simp: bindings_Some)

lemma device_binding:
  assumes "indexes_agree sl" "sl_byDev sl d = Some a"
  shows "bindings sl (l_UserKey (lease_at sl a)) = Some (binding_of (lease_at sl a))"
  using byDevD[OF assms] by (auto simp: bindings_Some)

text \<open>No two users are bound to the same device.\<close>

lemma bindings_exclusive:
  assumes "indexes_agree sl" "bindings sl u = Some b" "bindings sl v = Some c"
    "b_DeviceID b = b_DeviceID c"
  shows "u = v"
  using bindings_by_device[OF assms(1,2)] bindings_by_device[OF assms(1,3)] assms(4) by auto

lemma bindings_evict:
  assumes "indexes_agree sl" "sl_byUser sl u = Some a"
  shows "bindings (evictLocked sl a) = (bindings sl)(u := None)"
  using byUserD[OF assms] assms by (auto simp: bindings_def evictLocked_byUser fun_eq_iff)

lemma bindings_new_handle [simp]: "bindings (snd (new_handle a sl)) = bindings sl"
  by (simp add: bindings_def lease_at_def fun_eq_iff)

lemma bindings_set_refcount [simp]: "bindings (set_refcount a n sl) = bindings sl"
  by (auto simp: bindings_def fun_eq_iff binding_of_def intro!: map_option_cong)

lemma bindings_AcquireRef [simp]: "bindings (snd (AcquireRef a sl)) = bindings sl"
  by (simp add: AcquireRef_cases)

lemma Handle_Close_set:
  "Handle_Close (LeaseHandle n) sl =
     (case sl_handles sl n of
        None \<Rightarrow> sl
      | Some lh \<Rightarrow>
         if h_closed lh then sl
         else if l_refcount (lease_at sl (h_lease lh)) > 0
         then set_refcount (h_lease lh) (l_refcount (lease_at sl (h_lease lh)) - 1)
                (sl\<lparr>sl_handles := (sl_handles sl)(n \<mapsto> lh\<lparr>h_closed := True\<rparr>)\<rparr>)
         else sl\<lparr>sl_handles := (sl_handles sl)(n \<mapsto> lh\<lparr>h_closed := True\<rparr>)\<rparr>)"
  by (simp add: Let_def set_refcount_def lease_at_def split: option.split)

lemma bindings_handles [simp]: "bindings (sl\<lparr>sl_handles := hs\<rparr>) = bindings sl"
  by (simp add: bindings_def lease_at_def fun_eq_iff)

lemma bindings_Close [simp]: "bindings (Handle_Close h sl) = bindings sl"
proof (cases h)
  case (LeaseHandle n)
  then show ?thesis
    by (simp add: Handle_Close_set del: Handle_Close.simps split: option.split)
qed simp

subsection \<open>The operations on bindings\<close>

lemma unexpired_Some:
  "unexpired now B u = Some b \<longleftrightarrow> B u = Some b \<and> Before now (b_Expires b)"
  by (auto simp: unexpired_def split: option.splits)

lemma leases_invD: "leases_inv sl \<Longrightarrow> indexes_agree sl"
  by (simp add: leases_inv_def)

lemma leases_inv_GetActive: "leases_inv sl \<Longrightarrow> leases_inv (snd (GetActive now u sl))"
  by (simp add: GetActive_def leases_inv_evict split: option.split)

lemma fst_GetActive:
  "fst (GetActive now u sl) = Some a \<longleftrightarrow>
     sl_byUser sl u = Some a \<and> Before now (l_Expires (lease_at sl a))"
  by (auto simp: GetActive_def split: option.splits)

lemma GetActive_hit: "fst (GetActive now u sl) = Some a \<Longrightarrow> snd (GetActive now u sl) = sl"
  by (auto simp: GetActive_def split: option.splits if_splits)

lemma bindings_GetActive:
  assumes "leases_inv sl"
  shows "bindings (snd (GetActive now u sl)) = (bindings sl)(u := unexpired now (bindings sl) u)"
proof (cases "sl_byUser sl u")
  case None
  then show ?thesis by (simp add: GetActive_def unexpired_def bindings_def fun_eq_iff)
next
  case (Some a)
  then have "bindings sl u = Some (binding_of (lease_at sl a))" by (simp add: bindings_def)
  with Some show ?thesis
    by (simp add: GetActive_def unexpired_def bindings_evict[OF leases_invD[OF assms]] fun_upd_idem)
qed

lemma GetActive_unexpired:
  "map_option (\<lambda>a. binding_of (lease_at sl a)) (fst (GetActive now u sl)) = unexpired now (bindings sl) u"
  by (auto simp: GetActive_def unexpired_def bindings_def split: option.splits)

lemma claim_device_Inl:
  assumes "leases_inv sl"
  shows "(\<exists>e. claim_device now u d sl = Inl e) \<longleftrightarrow>
     (\<exists>v b. v \<noteq> u \<and> unexpired now (bindings sl) v = Some b \<and> b_DeviceID b = d)"
    (is "?L \<longleftrightarrow> ?R")
proof
  note ix = leases_invD[OF assms]
  assume ?L
  then obtain a where a: "sl_byDev sl d = Some a" "Before now (l_Expires (lease_at sl a))"
      "l_UserKey (lease_at sl a) \<noteq> u"
    by (auto simp: claim_device_def split: option.splits if_splits)
  show ?R using a device_binding[OF ix a(1)] byDevD(2)[OF ix a(1)]
    by (intro exI[of _ "l_UserKey (lease_at sl a)"] exI[of _ "binding_of (lease_at sl a)"])
      (simp add: unexpired_Some)
next
  note ix = leases_invD[OF assms]
  assume ?R
  then obtain v b where b: "v \<noteq> u" "bindings sl v = Some b" "Before now (b_Expires b)" "b_DeviceID b = d"
    by (auto simp: unexpired_Some)
  then show ?L using bindings_by_device[OF ix b(2)] by (auto simp: claim_device_def)
qed

definition device_free_for :: "string \<Rightarrow> string \<Rightarrow> StickyLeases \<Rightarrow> bool" where
  "device_free_for u d sl \<longleftrightarrow> (\<forall>a. sl_byDev sl d = Some a \<longrightarrow> l_UserKey (lease_at sl a) = u)"

lemma claim_device_Inr:
  assumes "leases_inv sl" "claim_device now u d sl = Inr sl1"
  shows "leases_inv sl1 \<and> device_free_for u d sl1 \<and>
    (\<forall>v. bindings sl1 v = bindings sl v \<or>
         bindings sl1 v = None \<and> (\<exists>b. bindings sl v = Some b \<and> b_DeviceID b = d))"
proof (cases "\<exists>a. sl_byDev sl d = Some a \<and> \<not> Before now (l_Expires (lease_at sl a))")
  note ix = leases_invD[OF assms(1)]
  case True
  then obtain a where a: "sl_byDev sl d = Some a" "\<not> Before now (l_Expires (lease_at sl a))" by blast
  then have sl1: "sl1 = evictLocked sl a" using assms(2) by (simp add: claim_device_def)
  note dev = byDevD[OF ix a(1)]
  have "device_free_for u d sl1"
    using a dev by (simp add: sl1 device_free_for_def evictLocked_byDev)
  moreover have "bindings sl (l_UserKey (lease_at sl a)) = Some (binding_of (lease_at sl a))"
    by (rule device_binding[OF ix a(1)])
  ultimately show ?thesis
    using dev(2) leases_inv_evict[OF assms(1)] by (simp add: sl1 bindings_evict[OF ix dev(3)])
next
  case False
  then have "sl1 = sl" "device_free_for u d sl"
    using assms(2) by (auto simp: claim_device_def device_free_for_def split: option.splits if_splits)
  with assms(1) show ?thesis by simp
qed

lemma leases_inv_drop_old: "leases_inv sl \<Longrightarrow> leases_inv (drop_old u sl)"
  by (simp add: drop_old_def leases_inv_evict split: option.split)

lemma bindings_drop_old: "leases_inv sl \<Longrightarrow> bindings (drop_old u sl) = (bindings sl)(u := None)"
proof (cases "sl_byUser sl u")
  case None
  then show ?thesis by (simp add: drop_old_def bindings_def fun_eq_iff)
next
  case (Some a)
  moreover assume "leases_inv sl"
  ultimately show ?thesis by (simp add: drop_old_def bindings_evict[OF leases_invD])
qed

lemma drop_old_byUser: "leases_inv sl \<Longrightarrow> sl_byUser (drop_old u sl) u = None"
  using byUserD(2)[OF leases_invD]
  by (auto simp: drop_old_def evictLocked_byUser split: option.split)

lemma drop_old_byDev:
  assumes "leases_inv sl" "device_free_for u d sl"
  shows "sl_byDev (drop_old u sl) d = None"
proof (cases "sl_byDev sl d")
  case None
  then show ?thesis by (simp add: drop_old_def evictLocked_byDev split: option.split)
next
  case (Some a)
  note dev = byDevD[OF leases_invD[OF assms(1)] Some]
  have "sl_byUser sl u = Some a" using dev(3) assms(2) Some by (simp add: device_free_for_def)
  then show ?thesis using Some dev by (simp add: drop_old_def evictLocked_byDev)
qed

lemma insert_lease_proj [simp]:
  "fst (insert_lease l sl) = sl_next sl"
  "sl_handles (snd (insert_lease l sl)) = sl_handles sl"
  "sl_heap (snd (insert_lease l sl)) = (sl_heap sl)(sl_next sl \<mapsto> l)"
  "sl_byUser (snd (insert_lease l sl)) = (sl_byUser sl)(l_UserKey l \<mapsto> sl_next sl)"
  "sl_byDev (snd (insert_lease l sl)) = (sl_byDev sl)(l_DeviceID l \<mapsto> sl_next sl)"
  "sl_hnext (snd (insert_lease l sl)) = sl_hnext sl"
  "open_handles (snd (insert_lease l sl)) = open_handles sl"
  by (simp_all add: insert_lease_def open_handles_def fun_eq_iff)

lemma insert_lease_inv:
  assumes inv: "leases_inv sl" and l: "l_refcount l = 1"
    and u: "sl_byUser sl (l_UserKey l) = None" and d: "sl_byDev sl (l_DeviceID l) = None"
  defines "sl' \<equiv> snd (new_handle (sl_next sl) (snd (insert_lease l sl)))"
  shows "leases_inv sl'" and "bindings sl' = (bindings sl)(l_UserKey l \<mapsto> binding_of l)"
proof -
  have ix: "indexes_agree sl" and fr: "store_fresh sl" and rc: "refcounts_exact sl"
    using inv by (simp_all add: leases_inv_def)
  let ?i = "snd (insert_lease l sl)"
  have new: "sl_heap sl (sl_next sl) = None" using fr by (simp add: store_fresh_def)
  have old: "sl_byUser sl v \<noteq> Some (sl_next sl)" "sl_byDev sl e \<noteq> Some (sl_next sl)" for v e
    using byUserD(1)[OF ix] byDevD(1)[OF ix] new by fastforce+
  have "indexes_agree ?i"
    unfolding indexes_agree_def
  proof (intro conjI allI impI)
    fix v a assume "sl_byUser ?i v = Some a"
    then show "\<exists>k. sl_heap ?i a = Some k \<and> l_UserKey k = v \<and> sl_byDev ?i (l_DeviceID k) = Some a"
      using byUserD[OF ix, of v a] old d
      by (cases "v = l_UserKey l") (auto intro!: exI[of _ "lease_at sl a"])
  next
    fix e a assume "sl_byDev ?i e = Some a"
    then show "\<exists>k. sl_heap ?i a = Some k \<and> l_DeviceID k = e \<and> sl_byUser ?i (l_UserKey k) = Some a"
      using byDevD[OF ix, of e a] old u
      by (cases "e = l_DeviceID l") (auto intro!: exI[of _ "lease_at sl a"])
  qed
  moreover have f: "store_fresh ?i" using fr by (auto simp: store_fresh_def insert_lease_def)
  moreover have "open_handles sl (sl_next sl) = {}"
    using fr new unfolding open_handles_def store_fresh_def by fastforce
  moreover have "sl_heap ?i (sl_next sl) \<noteq> None" by simp
  ultimately show "leases_inv sl'"
    using rc l unfolding sl'_def leases_inv_def refcounts_exact_def card_open_new[OF f]
    by (auto simp: store_fresh_new_handle cong: indexes_agree_cong)
  show "bindings sl' = (bindings sl)(l_UserKey l \<mapsto> binding_of l)"
    using old by (auto simp: sl'_def bindings_def fun_eq_iff lease_at_def intro!: map_option_cong)
qed

lemma Acquire_Inl:
  assumes "leases_inv sl"
  shows "(\<exists>e. fst (Acquire now1 now2 u d c ttl sl) = Inl e) \<longleftrightarrow>
     (\<exists>v b. v \<noteq> u \<and> unexpired now1 (bindings sl) v = Some b \<and> b_DeviceID b = d)"
  unfolding claim_device_Inl[OF assms, symmetric]
  by (auto simp: Acquire_def Let_def insert_lease_def new_handle_def split: sum.splits)

lemma Acquire_Inl_unchanged:
  "fst (Acquire now1 now2 u d c ttl sl) = Inl e \<Longrightarrow> snd (Acquire now1 now2 u d c ttl sl) = sl"
  by (auto simp: Acquire_def Let_def insert_lease_def new_handle_def split: sum.splits)

lemma Acquire_Inr:
  assumes inv: "leases_inv sl" and acq: "fst (Acquire now1 now2 u d c ttl sl) = Inr (a, h)"
  defines "sl' \<equiv> snd (Acquire now1 now2 u d c ttl sl)"
    and "b \<equiv> \<lparr>b_DeviceID = d, b_Country = c, b_Expires = time_Add now2 ttl\<rparr>"
  shows "leases_inv sl'" "bindings sl' = abs_Acquire u b (bindings sl)"
    "\<exists>n. h = LeaseHandle n \<and> n \<in> open_handles sl' a" "sl_byUser sl' u = Some a"
proof -
  obtain sl1 where sl1: "claim_device now1 u d sl = Inr sl1"
    using acq by (auto simp: Acquire_def split: sum.splits)
  define l where "l = \<lparr>l_UserKey = u, l_DeviceID = d, l_Country = c,
                  l_Expires = time_Add now2 ttl, l_refcount = 1\<rparr>"
  let ?d = "drop_old u sl1"
  have one: "leases_inv sl1" "device_free_for u d sl1"
    using claim_device_Inr[OF inv sl1] by blast+
  have sl': "sl' = snd (new_handle (sl_next ?d) (snd (insert_lease l ?d)))"
    and a: "a = sl_next ?d" and h: "h = LeaseHandle (sl_hnext ?d)"
    using acq unfolding sl'_def Acquire_def sl1
    by (auto simp: Let_def l_def split_def)
  have d: "leases_inv ?d" "sl_byUser ?d (l_UserKey l) = None" "sl_byDev ?d (l_DeviceID l) = None"
    using leases_inv_drop_old[OF one(1)] drop_old_byUser[OF one(1)] drop_old_byDev[OF one]
    by (simp_all add: l_def)
  note ins = insert_lease_inv[OF d(1) _ d(2,3), folded sl']
  show inv': "leases_inv sl'" using ins by (simp add: l_def)
  have "bindings sl' = ((bindings sl1)(u := None))(u \<mapsto> b)"
    using ins bindings_drop_old[OF one(1)] by (simp add: l_def b_def binding_of_def)
  then have u: "bindings sl' = (bindings sl1)(u \<mapsto> b)" by simp
  show "bindings sl' = abs_Acquire u b (bindings sl)"
  proof (rule ext)
    fix v
    have "v \<noteq> u \<Longrightarrow> bindings sl1 v = Some x \<Longrightarrow> b_DeviceID x \<noteq> d" for x
      using bindings_by_device[OF leases_invD[OF one(1)]] one(2)
      by (fastforce simp: device_free_for_def)
    moreover have "bindings sl1 v = bindings sl v \<or>
        bindings sl1 v = None \<and> (\<exists>b. bindings sl v = Some b \<and> b_DeviceID b = d)"
      using claim_device_Inr[OF inv sl1] by blast
    ultimately show "bindings sl' v = abs_Acquire u b (bindings sl) v"
      unfolding u by (auto simp: abs_Acquire_def b_def split: option.split)
  qed
  show "\<exists>n. h = LeaseHandle n \<and> n \<in> open_handles sl' a"
    by (simp add: h sl' a open_handles_def new_handle_def)
  show "sl_byUser sl' u = Some a" by (simp add: sl' a l_def)
qed

lemma leases_inv_Acquire:
  assumes "leases_inv sl"
  shows "leases_inv (snd (Acquire now1 now2 u d c ttl sl))"
proof (cases "fst (Acquire now1 now2 u d c ttl sl)")
  case (Inl e)
  with assms show ?thesis by (simp add: Acquire_Inl_unchanged)
next
  case (Inr r)
  then show ?thesis using Acquire_Inr(1)[OF assms] by (cases r) simp
qed

subsection \<open>The walks over the maps\<close>

text \<open>
  One step of a walk drops the lease of user \<open>u\<close> if it has expired; the walk over all users
  therefore leaves exactly the unexpired bindings, in whatever order the map is enumerated.
\<close>

definition expire :: "gotime \<Rightarrow> string \<Rightarrow> (string \<Rightarrow> Binding option) \<Rightarrow> string \<Rightarrow> Binding option" where
  "expire now u B = B(u := unexpired now B u)"

lemma expire_evict:
  assumes "leases_inv sl" "sl_byUser sl u = Some a"
  shows "bindings (if Before now (l_Expires (lease_at sl a)) then sl else evictLocked sl a) =
         expire now u (bindings sl)"
  using bindings_evict[OF leases_invD[OF assms(1)] assms(2)] assms(2)
  by (auto simp: expire_def unexpired_def bindings_def fun_eq_iff)

definition stale :: "gotime \<Rightarrow> (string \<Rightarrow> Binding option) \<Rightarrow> string \<Rightarrow> bool" where
  "stale now B u \<longleftrightarrow> B u \<noteq> None \<and> unexpired now B u = None"

lemma sweep_loop_correct:
  assumes "leases_inv sl" "distinct us"
  shows "leases_inv (snd (sweep_loop now sl n us)) \<and>
    bindings (snd (sweep_loop now sl n us)) =
      (\<lambda>u. if u \<in> set us then unexpired now (bindings sl) u else bindings sl u) \<and>
    fst (sweep_loop now sl n us) = n + length (filter (stale now (bindings sl)) us)"
  using assms
proof (induction us arbitrary: sl n)
  case Nil
  then show ?case by simp
next
  case (Cons u us)
  show ?case
  proof (cases "\<exists>a. sl_byUser sl u = Some a \<and> \<not> Before now (l_Expires (lease_at sl a))")
    case True
    then obtain a where a: "sl_byUser sl u = Some a" "\<not> Before now (l_Expires (lease_at sl a))" by blast
    have B: "bindings (evictLocked sl a) = (bindings sl)(u := None)"
      by (rule bindings_evict[OF leases_invD[OF Cons.prems(1)] a(1)])
    have u: "bindings sl u = Some (binding_of (lease_at sl a))" using a by (simp add: bindings_def)
    have B': "bindings (evictLocked sl a) x = (if x = u then None else bindings sl x)" for x
      by (simp add: B)
    have rest: "filter (stale now (bindings (evictLocked sl a))) us = filter (stale now (bindings sl)) us"
      using Cons.prems(2) by (intro filter_cong) (auto simp: B' stale_def unexpired_def)
    have "stale now (bindings sl) u" "unexpired now (bindings sl) u = None"
      using a u by (simp_all add: stale_def unexpired_def)
    moreover have "sweep_loop now sl n (u # us) = sweep_loop now (evictLocked sl a) (Suc n) us"
      using a by simp
    moreover note IH = Cons.IH[of "evictLocked sl a" "Suc n", OF leases_inv_evict[OF Cons.prems(1)]]
    ultimately show ?thesis
      using Cons.prems(2) IH by (simp add: rest) (simp add: fun_eq_iff B unexpired_def)
  next
    case False
    then have step: "sweep_loop now sl n (u # us) = sweep_loop now sl n us"
      by (auto split: option.split)
    have "\<not> stale now (bindings sl) u" "unexpired now (bindings sl) u = bindings sl u"
      using False by (auto simp: stale_def unexpired_def bindings_def split: option.split)
    then show ?thesis
      using Cons.IH[of sl n] Cons.prems unfolding step by (auto simp: fun_eq_iff)
  qed
qed

definition held_by_other :: "gotime \<Rightarrow> (string \<Rightarrow> Binding option) \<Rightarrow> string \<Rightarrow> string \<Rightarrow> bool" where
  "held_by_other now B ex d \<longleftrightarrow>
     (\<exists>u b. u \<noteq> ex \<and> unexpired now B u = Some b \<and> b_DeviceID b = d)"

definition expire_devices ::
    "gotime \<Rightarrow> string set \<Rightarrow> (string \<Rightarrow> Binding option) \<Rightarrow> string \<Rightarrow> Binding option" where
  "expire_devices now D B u =
     (case B u of None \<Rightarrow> None
      | Some b \<Rightarrow> if b_DeviceID b \<in> D \<and> \<not> Before now (b_Expires b) then None else Some b)"

lemma held_loop_correct:
  assumes "leases_inv sl" "distinct devs"
  shows "leases_inv (snd (held_loop now ex sl out devs)) \<and>
    bindings (snd (held_loop now ex sl out devs)) = expire_devices now (set devs) (bindings sl) \<and>
    fst (held_loop now ex sl out devs) = out \<union> {d \<in> set devs. held_by_other now (bindings sl) ex d}"
  using assms
proof (induction devs arbitrary: sl out)
  case Nil
  then show ?case by (simp add: expire_devices_def fun_eq_iff split: option.split)
next
  case (Cons d devs)
  note ix = leases_invD[OF Cons.prems(1)]
  have nd: "d \<notin> set devs" "distinct devs" using Cons.prems(2) by simp_all
  show ?case
  proof (cases "sl_byDev sl d")
    case None
    have no: "bindings sl u = Some b \<Longrightarrow> b_DeviceID b \<noteq> d" for u b
      using bindings_by_device[OF ix] None by fastforce
    then have "expire_devices now (set (d # devs)) (bindings sl) = expire_devices now (set devs) (bindings sl)"
      by (auto simp: expire_devices_def fun_eq_iff split: option.split)
    moreover have "\<not> held_by_other now (bindings sl) ex d"
      using no by (auto simp: held_by_other_def unexpired_Some)
    then have "{e \<in> set (d # devs). held_by_other now (bindings sl) ex e} =
               {e \<in> set devs. held_by_other now (bindings sl) ex e}" by auto
    ultimately show ?thesis
      using Cons.IH[OF Cons.prems(1) nd(2), of out] None by simp
  next
    case (Some a)
    note dev = byDevD[OF ix Some]
    define v where "v = l_UserKey (lease_at sl a)"
    have v: "bindings sl v = Some (binding_of (lease_at sl a))"
      unfolding v_def by (rule device_binding[OF ix Some])
    have only: "bindings sl u = Some b \<Longrightarrow> b_DeviceID b = d \<Longrightarrow> u = v" for u b
      using bindings_exclusive[OF ix _ v] dev(2) by simp
    show ?thesis
    proof (cases "Before now (l_Expires (lease_at sl a))")
      case False
      have B: "bindings (evictLocked sl a) = (bindings sl)(v := None)"
        unfolding v_def by (rule bindings_evict[OF ix dev(3)])
      have E: "expire_devices now (set devs) (bindings (evictLocked sl a)) =
            expire_devices now (set (d # devs)) (bindings sl)"
      proof (rule ext)
        fix u
        show "expire_devices now (set devs) (bindings (evictLocked sl a)) u =
              expire_devices now (set (d # devs)) (bindings sl) u"
          using v False only[of u] dev(2) unfolding B
          by (cases "u = v") (auto simp: expire_devices_def split: option.split)
      qed
      have H: "held_by_other now (bindings (evictLocked sl a)) ex e \<longleftrightarrow>
            held_by_other now (bindings sl) ex e" for e
        using v False unfolding B held_by_other_def unexpired_Some
        by (metis binding_of_sel(3) fun_upd_apply option.distinct(1) option.inject)
      have "\<not> held_by_other now (bindings sl) ex d"
        using v only False by (auto simp: held_by_other_def unexpired_Some)
      then have S: "{e \<in> set (d # devs). held_by_other now (bindings sl) ex e} =
                 {e \<in> set devs. held_by_other now (bindings sl) ex e}" by auto
      have L: "held_loop now ex sl out (d # devs) = held_loop now ex (evictLocked sl a) out devs"
        using Some False by simp
      show ?thesis
        using Cons.IH[OF leases_inv_evict[OF Cons.prems(1), of a] nd(2), of out]
        unfolding L E[symmetric] S H .
    next
      case True
      define out' where "out' = (if v = ex then out else insert d out)"
      have L: "held_loop now ex sl out (d # devs) = held_loop now ex sl out' devs"
        using Some True by (simp add: out'_def v_def)
      have E: "expire_devices now (set (d # devs)) (bindings sl) =
            expire_devices now (set devs) (bindings sl)"
      proof (rule ext)
        fix u
        show "expire_devices now (set (d # devs)) (bindings sl) u =
              expire_devices now (set devs) (bindings sl) u"
          using v True only[of u] dev(2)
          by (cases "u = v") (auto simp: expire_devices_def split: option.split)
      qed
      have "held_by_other now (bindings sl) ex d \<longleftrightarrow> v \<noteq> ex"
        unfolding held_by_other_def unexpired_Some
      proof
        assume "\<exists>u b. u \<noteq> ex \<and> (bindings sl u = Some b \<and> Before now (b_Expires b)) \<and> b_DeviceID b = d"
        then show "v \<noteq> ex" using only by blast
      next
        assume "v \<noteq> ex"
        then show "\<exists>u b. u \<noteq> ex \<and> (bindings sl u = Some b \<and> Before now (b_Expires b)) \<and> b_DeviceID b = d"
          using v True dev(2) by (intro exI[of _ v] exI[of _ "binding_of (lease_at sl a)"]) simp
      qed
      then have S: "out' \<union> {e \<in> set devs. held_by_other now (bindings sl) ex e} =
          out \<union> {e \<in> set (d # devs). held_by_other now (bindings sl) ex e}"
        by (auto simp: out'_def)
      show ?thesis
        using Cons.IH[OF Cons.prems(1) nd(2), of out'] unfolding L E S .
    qed
  qed
qed

subsection \<open>Histories\<close>

text \<open>
  A call of one of the table's methods, with the clock readings it makes and the order in which it
  meets the entries of a map. The order enumerates the keys that are in the map.
\<close>

datatype lease_call =
    CallGetActive gotime string
  | CallAcquireRef lease_ptr
  | CallAcquire gotime gotime string string string duration
  | CallHeldDeviceIDs gotime string "string list"
  | CallSweep gotime "string list"
  | CallClose Handle

fun lease_step :: "StickyLeases \<Rightarrow> lease_call \<Rightarrow> StickyLeases \<Rightarrow> bool" where
  "lease_step sl (CallGetActive now u) sl' \<longleftrightarrow> sl' = snd (GetActive now u sl)"
| "lease_step sl (CallAcquireRef a) sl' \<longleftrightarrow> sl' = snd (AcquireRef a sl)"
| "lease_step sl (CallAcquire now1 now2 u d c ttl) sl' \<longleftrightarrow> sl' = snd (Acquire now1 now2 u d c ttl sl)"
| "lease_step sl (CallHeldDeviceIDs now ex devs) sl' \<longleftrightarrow>
     enumerates devs (sl_byDev sl) \<and> sl' = snd (HeldDeviceIDs now ex devs sl)"
| "lease_step sl (CallSweep now us) sl' \<longleftrightarrow>
     enumerates us (sl_byUser sl) \<and> sl' = snd (Sweep now us sl)"
| "lease_step sl (CallClose h) sl' \<longleftrightarrow> sl' = Handle_Close h sl"

lemma leases_inv_Held:
  "leases_inv sl \<Longrightarrow> enumerates devs m \<Longrightarrow> leases_inv (snd (HeldDeviceIDs now ex devs sl))"
  by (simp add: HeldDeviceIDs_def held_loop_correct enumerates_def)

lemma leases_inv_Sweep:
  "leases_inv sl \<Longrightarrow> enumerates us m \<Longrightarrow> leases_inv (snd (Sweep now us sl))"
  by (simp add: Sweep_def sweep_loop_correct enumerates_def)

lemma lease_step_inv: "leases_inv sl \<Longrightarrow> lease_step sl oper sl' \<Longrightarrow> leases_inv sl'"
  by (cases oper) (auto simp: leases_inv_GetActive leases_inv_AcquireRef leases_inv_Acquire
      leases_inv_Close intro: leases_inv_Held leases_inv_Sweep)

interpretation leases: step_system "\<lambda>sl. sl = NewLeases" lease_step leases_inv
  by unfold_locales (auto simp: leases_inv_New intro: lease_step_inv)

lemma bindings_Sweep:
  assumes "leases_inv sl" "enumerates us (sl_byUser sl)"
  shows "bindings (snd (Sweep now us sl)) = unexpired now (bindings sl)"
proof
  fix u
  have "u \<notin> set us \<Longrightarrow> unexpired now (bindings sl) u = bindings sl u"
    using assms(2) by (auto simp: enumerates_def unexpired_def bindings_def dom_def)
  then show "bindings (snd (Sweep now us sl)) u = unexpired now (bindings sl) u"
    using sweep_loop_correct[OF assms(1), of us now 0] assms(2)
    by (simp add: Sweep_def enumerates_def)
qed

lemma bindings_Held:
  assumes "leases_inv sl" "enumerates devs (sl_byDev sl)"
  shows "bindings (snd (HeldDeviceIDs now ex devs sl)) = unexpired now (bindings sl)"
proof
  fix u
  have "bindings sl u = Some b \<Longrightarrow> b_DeviceID b \<in> set devs" for b
    using bindings_by_device[OF leases_invD[OF assms(1)]] assms(2)
    by (fastforce simp: enumerates_def dom_def)
  then have "expire_devices now (set devs) (bindings sl) u = unexpired now (bindings sl) u"
    by (simp add: expire_devices_def unexpired_def split: option.split)
  then show "bindings (snd (HeldDeviceIDs now ex devs sl)) u = unexpired now (bindings sl) u"
    using held_loop_correct[OF assms(1), of devs now ex "{}"] assms(2)
    by (simp add: HeldDeviceIDs_def enumerates_def)
qed

lemma Held_result:
  assumes "leases_inv sl" "enumerates devs (sl_byDev sl)"
  shows "fst (HeldDeviceIDs now ex devs sl) = {d. held_by_other now (bindings sl) ex d}"
proof -
  have "held_by_other now (bindings sl) ex d \<Longrightarrow> d \<in> set devs" for d
    using bindings_by_device[OF leases_invD[OF assms(1)]] assms(2)
    by (fastforce simp: enumerates_def dom_def held_by_other_def unexpired_Some)
  then show ?thesis
    using held_loop_correct[OF assms(1), of devs now ex "{}"] assms(2)
    by (auto simp: HeldDeviceIDs_def enumerates_def)
qed

text \<open>
  A call leaves the binding of user \<open>u\<close> that expires at \<open>t\<close> alone when its clock readings are
  before \<open>t\<close> and it does not acquire a device for \<open>u\<close>.
\<close>

fun leaves_binding :: "string \<Rightarrow> gotime \<Rightarrow> lease_call \<Rightarrow> bool" where
  "leaves_binding u t (CallGetActive now v) \<longleftrightarrow> Before now t"
| "leaves_binding u t (CallAcquireRef a) \<longleftrightarrow> True"
| "leaves_binding u t (CallAcquire now1 now2 v d c ttl) \<longleftrightarrow> v \<noteq> u \<and> Before now1 t"
| "leaves_binding u t (CallHeldDeviceIDs now ex devs) \<longleftrightarrow> Before now t"
| "leaves_binding u t (CallSweep now us) \<longleftrightarrow> Before now t"
| "leaves_binding u t (CallClose h) \<longleftrightarrow> True"

lemma Acquire_leaves_binding:
  assumes "leases_inv sl" "bindings sl u = Some b" "v \<noteq> u" "Before now1 (b_Expires b)"
  shows "bindings (snd (Acquire now1 now2 v d c ttl sl)) u = Some b"
proof (cases "fst (Acquire now1 now2 v d c ttl sl)")
  case (Inl e)
  then show ?thesis using assms(2) by (simp add: Acquire_Inl_unchanged)
next
  case (Inr r)
  then obtain a h where r: "fst (Acquire now1 now2 v d c ttl sl) = Inr (a, h)" by (cases r) auto
  have "\<not> (\<exists>e. fst (Acquire now1 now2 v d c ttl sl) = Inl e)" using r by simp
  then have "b_DeviceID b \<noteq> d"
    unfolding Acquire_Inl[OF assms(1)] using assms by (auto simp: unexpired_Some)
  then show ?thesis
    using Acquire_Inr(2)[OF assms(1) r] assms(2,3) by (simp add: abs_Acquire_def)
qed

lemma lease_step_leaves:
  assumes "leases_inv sl" "bindings sl u = Some b" "leaves_binding u (b_Expires b) oper"
    "lease_step sl oper sl'"
  shows "bindings sl' u = Some b"
proof (cases oper)
  case (CallAcquire now1 now2 v d c ttl)
  then show ?thesis using assms Acquire_leaves_binding[OF assms(1,2)] by simp
qed (use assms in \<open>auto simp: bindings_GetActive bindings_Sweep bindings_Held unexpired_Some\<close>)

interpretation sticky: keeping_system "\<lambda>sl. sl = NewLeases" lease_step leases_inv
    "leaves_binding u (b_Expires b)" "\<lambda>sl. bindings sl u = Some b" for u b
  by unfold_locales (rule lease_step_leaves)

text \<open>Apart from its reference count, a lease object never changes.\<close>

definition same_lease :: "lease_ptr \<Rightarrow> StickyLeases \<Rightarrow> StickyLeases \<Rightarrow> bool" where
  "same_lease a sl sl' \<longleftrightarrow>
     (sl_heap sl a \<noteq> None \<longrightarrow> sl_heap sl' a \<noteq> None \<and> l_UserKey (lease_at sl' a) = l_UserKey (lease_at sl a) \<and>
        binding_of (lease_at sl' a) = binding_of (lease_at sl a))"

lemma same_lease_refl [simp]: "same_lease a sl sl"
  by (simp add: same_lease_def)

lemma same_lease_trans: "same_lease a sl1 sl2 \<Longrightarrow> same_lease a sl2 sl3 \<Longrightarrow> same_lease a sl1 sl3"
  by (simp add: same_lease_def)

lemma same_lease_heap: "sl_heap sl' = sl_heap sl \<Longrightarrow> same_lease a sl sl'"
  by (simp add: same_lease_def lease_at_def)

lemma same_lease_set_refcount: "same_lease a sl (set_refcount b n sl)"
  by (simp add: same_lease_def binding_of_def set_refcount_heap)

lemma held_loop_heap: "sl_heap (snd (held_loop now ex sl out devs)) = sl_heap sl"
  by (induction now ex sl out devs rule: held_loop.induct) (simp_all split: option.split)

lemma held_loop_handles [simp]: "sl_handles (snd (held_loop now ex sl out devs)) = sl_handles sl"
  by (induction now ex sl out devs rule: held_loop.induct) (simp_all split: option.split)

lemma Held_handles [simp]: "sl_handles (snd (HeldDeviceIDs now ex devs sl)) = sl_handles sl"
  by (simp add: HeldDeviceIDs_def)

lemma GetActive_handles [simp]: "sl_handles (snd (GetActive now u sl)) = sl_handles sl"
  by (simp add: GetActive_def split: option.split)

lemma sweep_loop_heap: "sl_heap (snd (sweep_loop now sl n us)) = sl_heap sl"
  by (induction now sl n us rule: sweep_loop.induct) (simp_all split: option.split)

lemma Acquire_state:
  "snd (Acquire now1 now2 u d c ttl sl) = sl \<or>
   (\<exists>sl1 l. sl_heap sl1 = sl_heap sl \<and> sl_next sl1 = sl_next sl \<and>
      snd (Acquire now1 now2 u d c ttl sl) = snd (new_handle (sl_next sl1) (snd (insert_lease l sl1))))"
proof (cases "claim_device now1 u d sl")
  case (Inl e)
  then show ?thesis by (simp add: Acquire_def)
next
  case (Inr sl1)
  have "sl_heap (drop_old u sl1) = sl_heap sl" "sl_next (drop_old u sl1) = sl_next sl"
    using Inr by (auto simp: claim_device_def drop_old_def split: option.splits if_splits)
  moreover have "\<exists>l. snd (Acquire now1 now2 u d c ttl sl) =
      snd (new_handle (sl_next (drop_old u sl1)) (snd (insert_lease l (drop_old u sl1))))"
    using Inr by (auto simp: Acquire_def Let_def split_def)
  ultimately show ?thesis by blast
qed

lemma same_lease_Acquire:
  assumes "leases_inv sl"
  shows "same_lease a sl (snd (Acquire now1 now2 u d c ttl sl))"
proof -
  have "sl_heap sl (sl_next sl) = None" using assms by (simp add: leases_inv_def store_fresh_def)
  then show ?thesis
    using Acquire_state[of now1 now2 u d c ttl sl]
    by (auto simp: same_lease_def lease_at_def)
qed

lemma same_lease_AcquireRef: "same_lease a sl (snd (AcquireRef b sl))"
  unfolding AcquireRef_cases
  by (auto intro: same_lease_trans[OF same_lease_set_refcount same_lease_heap])

lemma same_lease_Close: "same_lease a sl (Handle_Close h sl)"
proof (cases h)
  case (LeaseHandle n)
  then show ?thesis
    using same_lease_trans[OF same_lease_heap same_lease_set_refcount]
    by (auto simp: Handle_Close_set same_lease_heap simp del: Handle_Close.simps split: option.split)
qed simp

lemma same_lease_step:
  assumes "leases_inv sl" "lease_step sl oper sl'"
  shows "same_lease a sl sl'"
  using assms
  by (cases oper)
     (auto simp: same_lease_Acquire same_lease_AcquireRef same_lease_Close HeldDeviceIDs_def Sweep_def
       held_loop_heap sweep_loop_heap GetActive_def split: option.split intro: same_lease_heap)

lemma same_lease_run: "run lease_step sl calls sl' \<Longrightarrow> leases_inv sl \<Longrightarrow> same_lease a sl sl'"
  by (induction rule: run.induct) (auto intro: same_lease_trans same_lease_step lease_step_inv)

lemma finite_byDev:
  assumes "leases_inv sl"
  shows "finite (dom (sl_byDev sl))"
proof -
  have fr: "store_fresh sl" using assms by (simp add: leases_inv_def)
  have "dom (sl_byDev sl) \<subseteq> (\<lambda>a. l_DeviceID (lease_at sl a)) ` {..< sl_next sl}"
  proof
    fix d assume "d \<in> dom (sl_byDev sl)"
    then obtain a where "sl_byDev sl d = Some a" by auto
    note dev = byDevD[OF leases_invD[OF assms] this]
    have "a < sl_next sl" using dev(1) fr by (auto simp: store_fresh_def not_less[symmetric])
    then show "d \<in> (\<lambda>a. l_DeviceID (lease_at sl a)) ` {..< sl_next sl}" using dev(2) by auto
  qed
  then show ?thesis by (rule finite_subset) simp
qed

subsection \<open>What the table promises\<close>

lemma history_leases_inv: "run lease_step NewLeases calls sl \<Longrightarrow> leases_inv sl"
  by (rule leases.history_inv) simp

text \<open>
  C4. After any sequence of calls of the table's methods, in any order, with any clock readings:
  no device is bound to two users, the two indexes point to the same leases, and the reference
  count of every lease equals the number of its handles that have not been closed.
\<close>

theorem leases_consistent:
  assumes "run lease_step NewLeases calls sl"
  shows "(\<forall>u v a b. sl_byUser sl u = Some a \<and> sl_byUser sl v = Some b \<and>
            l_DeviceID (lease_at sl a) = l_DeviceID (lease_at sl b) \<longrightarrow> u = v) \<and>
         (\<forall>u a. sl_byUser sl u = Some a \<longleftrightarrow>
            l_UserKey (lease_at sl a) = u \<and> sl_byDev sl (l_DeviceID (lease_at sl a)) = Some a) \<and>
         (\<forall>a l. sl_heap sl a = Some l \<longrightarrow> l_refcount l = int (card (open_handles sl a)))"
proof (intro conjI)
  have inv: "leases_inv sl" by (rule history_leases_inv[OF assms])
  note ix = leases_invD[OF inv]
  show "\<forall>u v a b. sl_byUser sl u = Some a \<and> sl_byUser sl v = Some b \<and>
            l_DeviceID (lease_at sl a) = l_DeviceID (lease_at sl b) \<longrightarrow> u = v"
  proof (intro allI impI)
    fix u v a b
    assume "sl_byUser sl u = Some a \<and> sl_byUser sl v = Some b \<and>
            l_DeviceID (lease_at sl a) = l_DeviceID (lease_at sl b)"
    then show "u = v" using bindings_exclusive[OF ix] by (auto simp: bindings_def)
  qed
  show "\<forall>u a. sl_byUser sl u = Some a \<longleftrightarrow>
            l_UserKey (lease_at sl a) = u \<and> sl_byDev sl (l_DeviceID (lease_at sl a)) = Some a"
    using byUserD[OF ix] byDevD[OF ix] by blast
  show "\<forall>a l. sl_heap sl a = Some l \<longrightarrow> l_refcount l = int (card (open_handles sl a))"
    using inv by (simp add: leases_inv_def refcounts_exact_def)
qed

text \<open>Two users compete for a device; the handle of the first is closed twice.\<close>

definition demo_calls :: "lease_call list" where
  "demo_calls =
     [CallAcquire 0 0 ''alice'' ''d1'' ''JP'' 100, CallAcquire 10 10 ''bob'' ''d1'' '''' 100,
      CallClose (LeaseHandle 0), CallClose (LeaseHandle 0)]"

fun exec_calls :: "lease_call list \<Rightarrow> StickyLeases \<Rightarrow> StickyLeases" where
  "exec_calls [] sl = sl"
| "exec_calls (CallGetActive now u # cs) sl = exec_calls cs (snd (GetActive now u sl))"
| "exec_calls (CallAcquireRef a # cs) sl = exec_calls cs (snd (AcquireRef a sl))"
| "exec_calls (CallAcquire now1 now2 u d c ttl # cs) sl =
     exec_calls cs (snd (Acquire now1 now2 u d c ttl sl))"
| "exec_calls (CallHeldDeviceIDs now ex devs # cs) sl = exec_calls cs (snd (HeldDeviceIDs now ex devs sl))"
| "exec_calls (CallSweep now us # cs) sl = exec_calls cs (snd (Sweep now us sl))"
| "exec_calls (CallClose h # cs) sl = exec_calls cs (Handle_Close h sl)"

definition demo_leases :: StickyLeases where
  "demo_leases = exec_calls demo_calls NewLeases"

lemma demo_run: "run lease_step NewLeases demo_calls demo_leases"
  by (simp add: demo_leases_def demo_calls_def)

lemma demo_leases_val:
  "demo_leases = \<lparr>sl_heap = [0 \<mapsto> \<lparr>l_UserKey = ''alice'', l_DeviceID = ''d1'', l_Country = ''JP'',
                                  l_Expires = 100, l_refcount = 0\<rparr>],
     sl_next = 1, sl_handles = [0 \<mapsto> \<lparr>h_lease = 0, h_closed = True\<rparr>], sl_hnext = 1,
     sl_byUser = [''alice'' \<mapsto> 0], sl_byDev = [''d1'' \<mapsto> 0]\<rparr>"
  by (simp add: demo_leases_def demo_calls_def Acquire_def claim_device_def drop_old_def insert_lease_def
      new_handle_def NewLeases_def Let_def Before_def time_Add_def lease_at_def)

theorem leases_consistent_witness:
  "sl_byUser demo_leases ''alice'' = Some 0 \<and> sl_byDev demo_leases ''d1'' = Some 0 \<and>
   int (card (open_handles demo_leases 0)) = 0"
proof -
  have h: "sl_heap demo_leases 0 = Some (lease_at demo_leases 0)"
    and u: "sl_byUser demo_leases ''alice'' = Some 0" "sl_byDev demo_leases ''d1'' = Some 0"
    and r: "l_refcount (lease_at demo_leases 0) = 0"
    by (simp_all add: demo_leases_val lease_at_def)
  then have "l_refcount (lease_at demo_leases 0) = int (card (open_handles demo_leases 0))"
    using leases_consistent[OF demo_run] by blast
  with u r show ?thesis by simp
qed

text \<open>
  C18. \<open>Acquire\<close> in any reachable table: it fails exactly when another user holds an unexpired
  lease on the device, and then changes nothing; otherwise the user is bound to the device until
  the second clock reading plus the TTL, every other user's binding to another device is kept,
  and the caller gets an open handle on the new lease.
\<close>

theorem Acquire_contract:
  assumes "run lease_step NewLeases calls sl"
  shows "case fst (Acquire now1 now2 u d c ttl sl) of
       Inl e \<Rightarrow> (\<exists>v b. v \<noteq> u \<and> bindings sl v = Some b \<and> b_DeviceID b = d \<and> Before now1 (b_Expires b)) \<and>
              snd (Acquire now1 now2 u d c ttl sl) = sl
     | Inr (a, h) \<Rightarrow>
         (\<forall>v b. v \<noteq> u \<and> bindings sl v = Some b \<and> b_DeviceID b = d \<longrightarrow> \<not> Before now1 (b_Expires b)) \<and>
         bindings (snd (Acquire now1 now2 u d c ttl sl)) =
           abs_Acquire u \<lparr>b_DeviceID = d, b_Country = c, b_Expires = time_Add now2 ttl\<rparr> (bindings sl) \<and>
         (\<exists>n. h = LeaseHandle n \<and> n \<in> open_handles (snd (Acquire now1 now2 u d c ttl sl)) a)"
proof (cases "fst (Acquire now1 now2 u d c ttl sl)")
  have inv: "leases_inv sl" by (rule history_leases_inv[OF assms])
  case (Inl e)
  then show ?thesis
    using Acquire_Inl[OF inv, of now1 now2 u d c ttl] Acquire_Inl_unchanged[OF Inl]
    by (auto simp: unexpired_Some)
next
  have inv: "leases_inv sl" by (rule history_leases_inv[OF assms])
  case (Inr r)
  then obtain a h where r: "fst (Acquire now1 now2 u d c ttl sl) = Inr (a, h)" by (cases r) auto
  then show ?thesis
    using Acquire_Inl[OF inv, of now1 now2 u d c ttl] Acquire_Inr(2,3)[OF inv r]
    by (auto simp: unexpired_Some)
qed

theorem Acquire_contract_witness:
  "bindings (snd (Acquire 200 200 ''bob'' ''d1'' '''' 50 demo_leases)) =
     abs_Acquire ''bob'' \<lparr>b_DeviceID = ''d1'', b_Country = '''', b_Expires = time_Add 200 50\<rparr>
       (bindings demo_leases)"
proof -
  have "fst (Acquire 200 200 ''bob'' ''d1'' '''' 50 demo_leases) = Inr (1, LeaseHandle 1)"
    by (simp add: demo_leases_val Acquire_def claim_device_def drop_old_def insert_lease_def
        evictLocked_def new_handle_def Let_def Before_def lease_at_def)
  then show ?thesis
    using Acquire_contract[OF demo_run, where ?now1.0 = 200 and ?now2.0 = 200 and u = "''bob''" and
        d = "''d1''" and c = "''''" and ttl = 50] by simp
qed

text \<open>
  C39. \<open>HeldDeviceIDs\<close>, in whatever order the map is walked, returns exactly the devices on
  which a user other than the given one holds an unexpired lease, and drops exactly the expired
  bindings; so the result does not depend on the walk.
\<close>

theorem HeldDeviceIDs_contract:
  assumes "run lease_step NewLeases calls sl" "enumerates devs (sl_byDev sl)"
  shows "fst (HeldDeviceIDs now ex devs sl) =
           {d. \<exists>u b. u \<noteq> ex \<and> bindings sl u = Some b \<and> b_DeviceID b = d \<and> Before now (b_Expires b)} \<and>
         bindings (snd (HeldDeviceIDs now ex devs sl)) = unexpired now (bindings sl)"
  using Held_result[OF history_leases_inv[OF assms(1)] assms(2)]
    bindings_Held[OF history_leases_inv[OF assms(1)] assms(2)]
  by (auto simp: held_by_other_def unexpired_Some)

theorem HeldDeviceIDs_contract_witness:
  "bindings (snd (HeldDeviceIDs 100 ''bob'' [''d1''] demo_leases)) = unexpired 100 (bindings demo_leases) \<and>
   fst (HeldDeviceIDs 99 ''bob'' [''d1''] demo_leases) = {''d1''}"
proof -
  have e: "enumerates [''d1''] (sl_byDev demo_leases)"
    by (auto simp: demo_leases_val enumerates_def)
  have "fst (HeldDeviceIDs 99 ''bob'' [''d1''] demo_leases) = {''d1''}"
    by (simp add: HeldDeviceIDs_def demo_leases_val Before_def lease_at_def)
  then show ?thesis using HeldDeviceIDs_contract[OF demo_run e, of 100 "''bob''"] by simp
qed

text \<open>
  \<open>Sweep\<close> leaves exactly the unexpired bindings and returns the number of bindings it
  dropped, in whatever order the map is walked.
\<close>

theorem Sweep_contract:
  assumes "run lease_step NewLeases calls sl" "enumerates us (sl_byUser sl)"
  shows "bindings (snd (Sweep now us sl)) = unexpired now (bindings sl) \<and>
         fst (Sweep now us sl) = card {u. \<exists>b. bindings sl u = Some b \<and> \<not> Before now (b_Expires b)}"
proof
  note inv = history_leases_inv[OF assms(1)]
  show "bindings (snd (Sweep now us sl)) = unexpired now (bindings sl)"
    by (rule bindings_Sweep[OF inv assms(2)])
  have "{u. \<exists>b. bindings sl u = Some b \<and> \<not> Before now (b_Expires b)} =
        set (filter (stale now (bindings sl)) us)"
    using assms(2) by (auto simp: stale_def unexpired_def enumerates_def bindings_def split: if_splits)
  moreover have "distinct (filter (stale now (bindings sl)) us)"
    using assms(2) by (simp add: enumerates_def)
  ultimately show "fst (Sweep now us sl) =
      card {u. \<exists>b. bindings sl u = Some b \<and> \<not> Before now (b_Expires b)}"
    using sweep_loop_correct[OF inv, of us now 0] assms(2) distinct_card
    by (metis Sweep_def add_0 enumerates_def)
qed

theorem Sweep_contract_witness:
  "bindings (snd (Sweep 100 [''alice''] demo_leases)) = unexpired 100 (bindings demo_leases) \<and>
   fst (Sweep 100 [''alice''] demo_leases) = 1"
proof -
  have e: "enumerates [''alice''] (sl_byUser demo_leases)"
    by (auto simp: demo_leases_val enumerates_def)
  have "fst (Sweep 100 [''alice''] demo_leases) = 1"
    by (simp add: Sweep_def demo_leases_val Before_def lease_at_def)
  then show ?thesis using Sweep_contract[OF demo_run e, of 100] by simp
qed

text \<open>
  C31. Stickiness: once a user is bound to a device, no sequence of calls of any users, whose
  clock readings are before the expiry and which acquire nothing for that user, changes the
  binding; and during all that time the device is refused to every other user.
\<close>

theorem lease_is_sticky:
  assumes "run lease_step NewLeases calls sl" "bindings sl u = Some b"
    and "run lease_step sl later sl'"
    and "\<And>oper. oper \<in> set later \<Longrightarrow> leaves_binding u (b_Expires b) oper"
  shows "bindings sl' u = Some b \<and>
    (\<forall>v now1 now2 c ttl. v \<noteq> u \<and> Before now1 (b_Expires b) \<longrightarrow>
       fst (Acquire now1 now2 v (b_DeviceID b) c ttl sl') = Inl ErrDeviceTaken)"
proof
  note inv = history_leases_inv[OF assms(1)]
  have inv': "leases_inv sl'" by (rule leases.run_inv[OF assms(3) inv])
  show kept: "bindings sl' u = Some b" by (rule sticky.run_keeps[OF assms(3) inv assms(2,4)])
  show "\<forall>v now1 now2 c ttl. v \<noteq> u \<and> Before now1 (b_Expires b) \<longrightarrow>
       fst (Acquire now1 now2 v (b_DeviceID b) c ttl sl') = Inl ErrDeviceTaken"
  proof (intro allI impI)
    fix v now1 now2 c ttl assume v: "v \<noteq> u \<and> Before now1 (b_Expires b)"
    then have "\<exists>e. fst (Acquire now1 now2 v (b_DeviceID b) c ttl sl') = Inl e"
      unfolding Acquire_Inl[OF inv'] using kept by (auto simp: unexpired_Some)
    then show "fst (Acquire now1 now2 v (b_DeviceID b) c ttl sl') = Inl ErrDeviceTaken"
      by (metis (full_types) lease_error.exhaust)
  qed
qed

theorem lease_is_sticky_witness:
  "bindings (snd (GetActive 50 ''bob'' demo_leases)) ''alice'' =
     Some \<lparr>b_DeviceID = ''d1'', b_Country = ''JP'', b_Expires = 100\<rparr>"
proof -
  have b: "bindings demo_leases ''alice'' =
      Some \<lparr>b_DeviceID = ''d1'', b_Country = ''JP'', b_Expires = 100\<rparr>"
    by (simp add: demo_leases_val bindings_def lease_at_def binding_of_def)
  have r: "run lease_step demo_leases [CallGetActive 50 ''bob''] (snd (GetActive 50 ''bob'' demo_leases))"
    by simp
  show ?thesis using lease_is_sticky[OF demo_run b r] by (simp add: Before_def)
qed

end
