(* ===== verification/Go_Sort.thy ===== *)
theory Go_Sort
  imports Prelude "HOL-Library.Multiset"
begin

text \<open>
  Go's \<open>sort.Slice\<close> and \<open>sort.Strings\<close>. The library runs insertion sort on short slices and
  promises only a sorted permutation in general, so the interface is stated as a locale over the
  comparison function: under the laws of a strict weak order the result of \<open>sort_slice\<close> is a
  sorted permutation whose head is a minimum, and where the order separates all elements it is
  the only sorted permutation, whatever algorithm computes it.
\<close>

fun insert_by :: "('a \<Rightarrow> 'a \<Rightarrow> bool) \<Rightarrow> 'a \<Rightarrow> 'a list \<Rightarrow> 'a list" where
  "insert_by lt x [] = [x]"
| "insert_by lt x (y # ys) = (if lt x y then x # y # ys else y # insert_by lt x ys)"

fun sort_slice :: "('a \<Rightarrow> 'a \<Rightarrow> bool) \<Rightarrow> 'a list \<Rightarrow> 'a list" where
  "sort_slice lt [] = []"
| "sort_slice lt (x # xs) = insert_by lt x (sort_slice lt xs)"

lemma mset_insert_by [simp]: "mset (insert_by lt x xs) = add_mset x (mset xs)"
  by (induction xs) auto

lemma set_insert_by [simp]: "set (insert_by lt x xs) = insert x (set xs)"
  by (induction xs) auto

lemma mset_sort_slice [simp]: "mset (sort_slice lt xs) = mset xs"
  by (induction xs) auto

lemma set_sort_slice [simp]: "set (sort_slice lt xs) = set xs"
  by (induction xs) auto

lemma length_sort_slice [simp]: "length (sort_slice lt xs) = length xs"
  by (metis mset_sort_slice size_mset)

lemma sort_slice_Nil_iff [simp]: "sort_slice lt xs = [] \<longleftrightarrow> xs = []"
  by (metis length_0_conv length_sort_slice)

definition in_order :: "('a \<Rightarrow> 'a \<Rightarrow> bool) \<Rightarrow> 'a list \<Rightarrow> bool" where
  "in_order lt xs \<longleftrightarrow> sorted_wrt (\<lambda>x y. \<not> lt y x) xs"

locale weak_order =
  fixes A :: "'a \<Rightarrow> bool" and lt :: "'a \<Rightarrow> 'a \<Rightarrow> bool"
  assumes irrefl: "A x \<Longrightarrow> \<not> lt x x"
    and trans: "A x \<Longrightarrow> A y \<Longrightarrow> A z \<Longrightarrow> lt x y \<Longrightarrow> lt y z \<Longrightarrow> lt x z"
    and separates: "A x \<Longrightarrow> A y \<Longrightarrow> A z \<Longrightarrow> lt x z \<Longrightarrow> lt x y \<or> lt y z"
begin

lemma asym: "A x \<Longrightarrow> A y \<Longrightarrow> lt x y \<Longrightarrow> \<not> lt y x"
  using irrefl trans by blast

lemma in_order_insert_by:
  assumes "in_order lt xs" "\<forall>y \<in> set xs. A y" "A x"
  shows "in_order lt (insert_by lt x xs)"
  using assms
proof (induction xs)
  case Nil
  then show ?case by (simp add: in_order_def)
next
  case (Cons y ys)
  show ?case
  proof (cases "lt x y")
    case True
    have "\<not> lt z x" if "z \<in> set (y # ys)" for z
    proof
      assume zx: "lt z x"
      have "z = y \<or> \<not> lt z y" using that Cons.prems(1) by (auto simp: in_order_def)
      then show False
        using zx True trans[of z x y] irrefl[of y] Cons.prems that by auto
    qed
    with True Cons.prems show ?thesis by (auto simp: in_order_def)
  next
    case False
    with Cons show ?thesis by (auto simp: in_order_def)
  qed
qed

lemma in_order_sort_slice: "\<forall>x \<in> set xs. A x \<Longrightarrow> in_order lt (sort_slice lt xs)"
  by (induction xs) (auto simp: in_order_insert_by, simp add: in_order_def)

lemma hd_sort_slice_least:
  assumes "\<forall>x \<in> set xs. A x" "x \<in> set xs"
  shows "\<not> lt x (hd (sort_slice lt xs))"
proof -
  obtain y ys where ys: "sort_slice lt xs = y # ys"
    using assms(2) by (cases "sort_slice lt xs") auto
  have "x \<in> set (y # ys)" using assms(2) ys by (metis set_sort_slice)
  moreover have "in_order lt (y # ys)" using in_order_sort_slice[OF assms(1)] ys by simp
  moreover have "A y" using assms(1) ys by (metis list.set_intros(1) set_sort_slice)
  ultimately show ?thesis using irrefl ys by (auto simp: in_order_def)
qed

lemma in_order_unique:
  assumes "mset xs = mset ys" "in_order lt xs" "in_order lt ys" "\<forall>x \<in> set xs. A x"
    and "\<And>x y. x \<in> set xs \<Longrightarrow> y \<in> set xs \<Longrightarrow> x \<noteq> y \<Longrightarrow> lt x y \<or> lt y x"
  shows "xs = ys"
  using assms
proof (induction xs arbitrary: ys)
  case Nil
  then show ?case by simp
next
  case (Cons x xs)
  then obtain y zs where ys: "ys = y # zs" by (cases ys) auto
  have sets: "set (x # xs) = set (y # zs)"
    using Cons.prems(1) unfolding ys by (metis set_mset_mset)
  have "x = y"
  proof (rule ccontr)
    assume "x \<noteq> y"
    then have "y \<in> set xs" "x \<in> set zs" using sets by auto
    then have "\<not> lt y x" "\<not> lt x y"
      using Cons.prems(2,3) unfolding ys in_order_def by auto
    with \<open>x \<noteq> y\<close> \<open>y \<in> set xs\<close> show False using Cons.prems(5)[of x y] by simp
  qed
  with Cons show ?case unfolding ys by (auto simp: in_order_def)
qed

lemma sort_slice_unique:
  assumes "\<forall>x \<in> set xs. A x" "mset ys = mset xs" "in_order lt ys"
    and "\<And>x y. x \<in> set xs \<Longrightarrow> y \<in> set xs \<Longrightarrow> x \<noteq> y \<Longrightarrow> lt x y \<or> lt y x"
  shows "ys = sort_slice lt xs"
proof -
  have s: "set ys = set xs" using assms(2) by (metis set_mset_mset)
  have "in_order lt (sort_slice lt xs)" using assms(1) by (rule in_order_sort_slice)
  then show ?thesis using in_order_unique[of ys "sort_slice lt xs"] assms s by simp
qed

lemma sort_slice_perm:
  assumes "\<forall>x \<in> set xs. A x" "mset ys = mset xs"
    and "\<And>x y. x \<in> set xs \<Longrightarrow> y \<in> set xs \<Longrightarrow> x \<noteq> y \<Longrightarrow> lt x y \<or> lt y x"
  shows "sort_slice lt ys = sort_slice lt xs"
proof (rule sort_slice_unique[OF assms(1)])
  have "set ys = set xs" using assms(2) by (metis set_mset_mset)
  then show "in_order lt (sort_slice lt ys)" using assms(1) by (simp add: in_order_sort_slice)
qed (use assms in auto)

end

locale total_order = weak_order +
  assumes total: "A x \<Longrightarrow> A y \<Longrightarrow> x \<noteq> y \<Longrightarrow> lt x y \<or> lt y x"
begin

lemma sort_slice_order_free:
  "\<forall>x \<in> set xs. A x \<Longrightarrow> mset ys = mset xs \<Longrightarrow> sort_slice lt ys = sort_slice lt xs"
  using sort_slice_perm total by metis

end

text \<open>\<open>sort.Strings\<close> and \<open>sort.Slice\<close> with a string key.\<close>

interpretation go_strings: total_order "\<lambda>_. True" "(<) :: string \<Rightarrow> string \<Rightarrow> bool"
  by unfold_locales auto

definition SortStrings :: "string list \<Rightarrow> string list" where
  "SortStrings xs = sort_slice (<) xs"

lemma SortStrings_sorted: "sorted (SortStrings xs)"
  using go_strings.in_order_sort_slice[of xs]
  by (simp add: SortStrings_def in_order_def sorted_wrt_iff_nth_less not_less)

lemma SortStrings_set [simp]: "set (SortStrings xs) = set xs"
  by (simp add: SortStrings_def)

lemma SortStrings_keys:
  assumes "enumerates ks m"
  shows "SortStrings ks = sorted_list_of_set (dom m)"
proof -
  have "mset (SortStrings ks) = mset ks" by (simp add: SortStrings_def)
  then have "distinct (SortStrings ks)"
    using assms mset_eq_imp_distinct_iff unfolding enumerates_def by blast
  moreover have "sorted (SortStrings ks)" by (rule SortStrings_sorted)
  ultimately have "sorted_list_of_set (set (SortStrings ks)) = SortStrings ks"
    by (rule sorted_list_of_set.idem_if_sorted_distinct[rotated])
  then show ?thesis using assms by (simp add: enumerates_def)
qed

end
