(* ===== verification/Go_Float.thy ===== *)
theory Go_Float
  imports Complex_Main Prelude Go_Sort
begin

text \<open>
  Go's \<open>float64\<close>: IEEE 754 binary64 with rounding to nearest, ties to even. A finite value is
  the rational number it stands for, so the two zeros are one value; no operation the proxy
  performs on floats (comparison, addition, multiplication, division by a positive count,
  truncation) tells them apart.
\<close>

datatype f64 = NaN | PInf | NInf | Fin rat

subsection \<open>Rounding\<close>

text \<open>The number of binary digits of an integer.\<close>

function bits :: "int \<Rightarrow> nat" where
  "bits n = (if n \<le> 0 then 0 else Suc (bits (n div 2)))"
  by pat_completeness auto
termination
  by (relation "measure nat") auto

declare bits.simps [simp del]

lemma bits_bounds: "0 < n \<Longrightarrow> 0 < bits n \<and> 2 ^ (bits n - 1) \<le> n \<and> n < 2 ^ bits n"
proof (induction n rule: bits.induct)
  case (1 n)
  show ?case
  proof (cases "n = 1")
    case True
    then show ?thesis by (simp add: bits.simps[of 1] bits.simps[of 0])
  next
    case False
    let ?k = "bits (n div 2)"
    have "0 < ?k \<and> 2 ^ (?k - 1) \<le> n div 2 \<and> n div 2 < 2 ^ ?k"
      using 1 False by auto
    moreover have "bits n = Suc ?k" using \<open>0 < n\<close> by (simp add: bits.simps[of n])
    moreover have "(2::int) * 2 ^ (?k - 1) = 2 ^ ?k" if "0 < ?k"
      using that by (metis Suc_diff_1 power_Suc)
    moreover have "2 * p \<le> n" if "p \<le> n div 2" for p :: int using that by arith
    moreover have "n < 2 * p" if "n div 2 < p" for p :: int using that by arith
    ultimately show ?thesis by fastforce
  qed
qed

text \<open>\<open>ilog2 q\<close> is the exponent of the largest power of two that is at most \<open>q > 0\<close>.\<close>

definition ilog2 :: "rat \<Rightarrow> int" where
  "ilog2 q =
     (let (a, b) = quotient_of q;
          k = int (bits a) - int (bits b)
      in if 2 powi k \<le> q then k else k - 1)"

definition round_half_even :: "rat \<Rightarrow> int" where
  "round_half_even q =
     (let f = \<lfloor>q\<rfloor>; r = q - of_int f
      in if r < 1 / 2 then f else if r > 1 / 2 then f + 1 else if even f then f else f + 1)"

definition f64_round :: "rat \<Rightarrow> f64" where
  "f64_round q =
     (if q = 0 then Fin 0
      else let u = max (ilog2 \<bar>q\<bar> - 52) (-1074);
               m = round_half_even (\<bar>q\<bar> / 2 powi u)
           in if u > 971 \<or> u = 971 \<and> m \<ge> 2 ^ 53 then (if q > 0 then PInf else NInf)
              else Fin (if q > 0 then of_int m * 2 powi u else - (of_int m * 2 powi u)))"

subsection \<open>Operations\<close>

definition f64_of_int :: "int \<Rightarrow> f64" where
  "f64_of_int n = f64_round (of_int n)"

fun f64_add :: "f64 \<Rightarrow> f64 \<Rightarrow> f64" where
  "f64_add (Fin a) (Fin b) = f64_round (a + b)"
| "f64_add NaN _ = NaN"
| "f64_add _ NaN = NaN"
| "f64_add PInf NInf = NaN"
| "f64_add NInf PInf = NaN"
| "f64_add PInf _ = PInf"
| "f64_add _ PInf = PInf"
| "f64_add NInf _ = NInf"
| "f64_add _ NInf = NInf"

definition f64_inf :: "bool \<Rightarrow> f64" where
  "f64_inf positive = (if positive then PInf else NInf)"

fun f64_mul :: "f64 \<Rightarrow> f64 \<Rightarrow> f64" where
  "f64_mul (Fin a) (Fin b) = f64_round (a * b)"
| "f64_mul NaN _ = NaN"
| "f64_mul _ NaN = NaN"
| "f64_mul (Fin a) PInf = (if a = 0 then NaN else f64_inf (a > 0))"
| "f64_mul (Fin a) NInf = (if a = 0 then NaN else f64_inf (a < 0))"
| "f64_mul PInf (Fin a) = (if a = 0 then NaN else f64_inf (a > 0))"
| "f64_mul NInf (Fin a) = (if a = 0 then NaN else f64_inf (a < 0))"
| "f64_mul PInf PInf = PInf"
| "f64_mul PInf NInf = NInf"
| "f64_mul NInf PInf = NInf"
| "f64_mul NInf NInf = PInf"

text \<open>Division by a non-zero finite number, the only division of the program.\<close>

fun f64_div :: "f64 \<Rightarrow> f64 \<Rightarrow> f64" where
  "f64_div (Fin a) (Fin b) = (if b = 0 then NaN else f64_round (a / b))"
| "f64_div NaN _ = NaN"
| "f64_div _ NaN = NaN"
| "f64_div (Fin a) _ = Fin 0"
| "f64_div PInf (Fin b) = f64_inf (b \<ge> 0)"
| "f64_div NInf (Fin b) = f64_inf (b < 0)"
| "f64_div _ _ = NaN"

text \<open>Comparison: every comparison with a NaN is false.\<close>

fun f64_lt :: "f64 \<Rightarrow> f64 \<Rightarrow> bool" where
  "f64_lt NaN _ = False"
| "f64_lt _ NaN = False"
| "f64_lt (Fin a) (Fin b) = (a < b)"
| "f64_lt (Fin a) PInf = True"
| "f64_lt (Fin a) NInf = False"
| "f64_lt NInf NInf = False"
| "f64_lt NInf _ = True"
| "f64_lt PInf _ = False"

fun f64_eq :: "f64 \<Rightarrow> f64 \<Rightarrow> bool" where
  "f64_eq NaN _ = False"
| "f64_eq x y = (x = y)"

text \<open>The library's order classes: \<open><\<close> and \<open>\<le>\<close> on \<open>f64\<close> are Go's comparisons.\<close>

instantiation f64 :: ord
begin

definition less_f64 :: "f64 \<Rightarrow> f64 \<Rightarrow> bool" where
  "less_f64 x y = f64_lt x y"

definition less_eq_f64 :: "f64 \<Rightarrow> f64 \<Rightarrow> bool" where
  "less_eq_f64 x y \<longleftrightarrow> f64_lt x y \<or> f64_eq x y"

instance ..

end

text \<open>
  Conversion to \<open>int64\<close> truncates towards zero; where the value does not fit (or is a NaN) the
  result is left to the implementation, here the parameter \<open>oob\<close>.
\<close>

definition trunc_rat :: "rat \<Rightarrow> int" where
  "trunc_rat q = (if q \<ge> 0 then \<lfloor>q\<rfloor> else \<lceil>q\<rceil>)"

definition f64_to_int64 :: "(f64 \<Rightarrow> int) \<Rightarrow> f64 \<Rightarrow> int" where
  "f64_to_int64 oob x =
     (case x of Fin q \<Rightarrow> if in_int64 (trunc_rat q) then trunc_rat q else oob x | _ \<Rightarrow> oob x)"

subsection \<open>Comparison is a total order away from NaN\<close>

lemma f64_lt_irrefl [simp]: "\<not> f64_lt x x"
  by (cases x) auto

lemma f64_lt_trans: "f64_lt x y \<Longrightarrow> f64_lt y z \<Longrightarrow> f64_lt x z"
  by (cases x; cases y; cases z) auto

lemma f64_lt_asym: "f64_lt x y \<Longrightarrow> \<not> f64_lt y x"
  by (cases x; cases y) auto

lemma f64_lt_total: "x \<noteq> NaN \<Longrightarrow> y \<noteq> NaN \<Longrightarrow> x \<noteq> y \<Longrightarrow> f64_lt x y \<or> f64_lt y x"
  by (cases x; cases y) auto

lemma f64_lt_not_NaN: "f64_lt x y \<Longrightarrow> x \<noteq> NaN \<and> y \<noteq> NaN"
  by (cases x; cases y) auto

interpretation f64_order: total_order "\<lambda>x. x \<noteq> NaN" f64_lt
  by unfold_locales (auto dest: f64_lt_trans f64_lt_total)

lemma f64_round_not_NaN [simp]: "f64_round q \<noteq> NaN"
  by (simp add: f64_round_def Let_def)

lemma f64_of_int_not_NaN [simp]: "f64_of_int n \<noteq> NaN"
  by (simp add: f64_of_int_def)

lemma f64_add_not_NaN: "x = Fin a \<Longrightarrow> y \<noteq> NaN \<Longrightarrow> f64_add x y \<noteq> NaN"
  by (cases y) auto

lemma f64_mul_fin_not_NaN: "f64_mul (Fin a) (Fin b) \<noteq> NaN"
  by simp

subsection \<open>Integers up to 2 to the 53 are exact\<close>

lemma ilog2_int:
  assumes "0 < n"
  shows "ilog2 (of_int n) = int (bits n) - 1"
proof -
  let ?f = "bits n"
  have f: "?f > 0" "2 ^ (?f - 1) \<le> n" "n < 2 ^ ?f" using bits_bounds[OF assms] by simp_all
  have one: "bits 1 = 1" by (simp add: bits.simps[of 1] bits.simps[of 0])
  have "(2::rat) powi (int ?f - 1) = of_int (2 ^ (?f - 1))"
    using f(1) by (simp add: power_int_def nat_diff_distrib)
  also have "\<dots> \<le> of_int n" using f(2) of_int_le_iff by blast
  finally show ?thesis by (simp add: ilog2_def one)
qed

lemma round_half_even_int [simp]: "round_half_even (of_int n) = n"
  by (simp add: round_half_even_def)

lemma powi_nonpos: "v \<le> 0 \<Longrightarrow> 2 powi v = 1 / (2 ^ nat (- v) :: rat)"
  by (cases "v = 0") (simp_all add: power_int_def power_one_over)

lemma f64_of_int_exact:
  assumes "\<bar>n\<bar> < 2 ^ 53"
  shows "f64_of_int n = Fin (of_int n)"
proof (cases "n = 0")
  case True
  then show ?thesis by (simp add: f64_of_int_def f64_round_def)
next
  case False
  let ?u = "ilog2 (of_int \<bar>n\<bar>) - 52"
  have n: "0 < \<bar>n\<bar>" using False by simp
  have "bits \<bar>n\<bar> \<le> 53"
  proof (rule ccontr)
    assume "\<not> bits \<bar>n\<bar> \<le> 53"
    then have "(2::int) ^ 53 \<le> 2 ^ (bits \<bar>n\<bar> - 1)" by (intro power_increasing) simp_all
    with bits_bounds[OF n] assms show False by simp
  qed
  with bits_bounds[OF n] have u: "?u \<le> 0" "-52 \<le> ?u" using ilog2_int[OF n] by simp_all
  define k where "k = nat (- ?u)"
  have pk: "2 powi ?u = 1 / (2 ^ k :: rat)"
    using powi_nonpos[OF u(1)] by (simp only: k_def)
  have "of_int \<bar>n\<bar> / 2 powi ?u = (of_int (\<bar>n\<bar> * 2 ^ k) :: rat)" unfolding pk by simp
  then have "round_half_even (of_int \<bar>n\<bar> / 2 powi ?u) = \<bar>n\<bar> * 2 ^ k"
    using round_half_even_int by metis
  then have m: "round_half_even (of_int \<bar>n\<bar> / 2 powi ?u) = \<bar>n\<bar> * 2 ^ k" .
  have mx: "max ?u (-1074) = ?u" using u by simp
  have v: "of_int (\<bar>n\<bar> * 2 ^ k) * 2 powi ?u = (of_int \<bar>n\<bar> :: rat)" unfolding pk by simp
  have ab: "\<bar>of_int n :: rat\<bar> = of_int \<bar>n\<bar>" by simp
  have no: "(?u > 971 \<or> ?u = 971 \<and> x) = False" for x using u by simp
  have "f64_of_int n = Fin (if (of_int n :: rat) > 0 then of_int \<bar>n\<bar> else - of_int \<bar>n\<bar>)"
    unfolding f64_of_int_def f64_round_def Let_def ab mx m v no
    by (simp only: of_int_eq_0_iff False if_False of_int_0_less_iff)
  then show ?thesis by simp
qed

end
