(* ===== verification/Pool.thy ===== *)
theory Pool
  imports Go_Float
begin

text \<open>
  \<open>server/scheduler/pool.go\<close>: the in-memory snapshot of the devices' latest network statistics.
  \<open>DevicePool\<close> is the map from device ids to statistics; \<open>DevicePool_Update\<close> merges a
  heartbeat, \<open>Forget\<close> drops an entry and \<open>Snapshot\<close> lists one candidate per online device. The
  lemmas show that a heartbeat without metrics never clobbers known ones, and that a snapshot is
  sorted, complete and independent of the order in which Go walks its maps.
\<close>

record deviceStats =
  st_country :: string
  st_netType :: string
  st_avgRTT :: int
  st_lossRate :: f64
  st_hasStats :: bool
  st_lastSeen :: gotime

record DeviceUpdate =
  du_Country :: string
  du_NetType :: string
  du_AvgRTTms :: "int option"
  du_LossRate :: "f64 option"
  du_SeenAt :: gotime

record Candidate =
  cand_DeviceID :: string
  cand_Country :: string
  cand_NetType :: string
  cand_AvgRTT :: int
  cand_LossRate :: f64
  cand_HasStats :: bool
  cand_LastSeen :: gotime

type_synonym DevicePool = "string \<rightharpoonup> deviceStats"

definition NewPool :: DevicePool where
  "NewPool = Map.empty"

text \<open>The zero value that indexing a map with an absent key yields.\<close>

definition zero_stats :: deviceStats where
  "zero_stats = \<lparr>st_country = '''', st_netType = '''', st_avgRTT = 0, st_lossRate = Fin 0,
                 st_hasStats = False, st_lastSeen = 0\<rparr>"

definition stats_of :: "DevicePool \<Rightarrow> string \<Rightarrow> deviceStats" where
  "stats_of p did = (case p did of None \<Rightarrow> zero_stats | Some s \<Rightarrow> s)"

text \<open>The field updates of \<open>Update\<close>, in the order of the code.\<close>

definition merge_stats :: "deviceStats \<Rightarrow> gotime \<Rightarrow> DeviceUpdate \<Rightarrow> deviceStats" where
  "merge_stats cur now u =
     (let cur = (if du_Country u \<noteq> '''' then cur\<lparr>st_country := du_Country u\<rparr> else cur);
          cur = (if du_NetType u \<noteq> '''' then cur\<lparr>st_netType := du_NetType u\<rparr> else cur);
          cur = (case du_AvgRTTms u of None \<Rightarrow> cur
                 | Some v \<Rightarrow> cur\<lparr>st_avgRTT := v, st_hasStats := True\<rparr>);
          cur = (case du_LossRate u of None \<Rightarrow> cur
                 | Some v \<Rightarrow> cur\<lparr>st_lossRate := v, st_hasStats := True\<rparr>)
      in if \<not> IsZero (du_SeenAt u) then cur\<lparr>st_lastSeen := du_SeenAt u\<rparr>
         else cur\<lparr>st_lastSeen := now\<rparr>)"

definition DevicePool_Update :: "DevicePool \<Rightarrow> gotime \<Rightarrow> string \<Rightarrow> DeviceUpdate \<Rightarrow> DevicePool" where
  "DevicePool_Update p now deviceID u =
     (if deviceID = '''' then p
      else p(deviceID \<mapsto> merge_stats (stats_of p deviceID) now u))"

definition Forget :: "DevicePool \<Rightarrow> string \<Rightarrow> DevicePool" where
  "Forget p deviceID = p(deviceID := None)"

definition DevicePool_Size :: "DevicePool \<Rightarrow> nat" where
  "DevicePool_Size p = map_len p"

definition candidate_of :: "string \<Rightarrow> deviceStats \<Rightarrow> Candidate" where
  "candidate_of did s =
     \<lparr>cand_DeviceID = did, cand_Country = st_country s, cand_NetType = st_netType s,
      cand_AvgRTT = st_avgRTT s, cand_LossRate = st_lossRate s, cand_HasStats = st_hasStats s,
      cand_LastSeen = st_lastSeen s\<rparr>"

text \<open>\<open>Candidate{DeviceID: id}\<close>, every other field zero.\<close>

definition fresh_candidate :: "string \<Rightarrow> Candidate" where
  "fresh_candidate did =
     \<lparr>cand_DeviceID = did, cand_Country = '''', cand_NetType = '''', cand_AvgRTT = 0,
      cand_LossRate = Fin 0, cand_HasStats = False, cand_LastSeen = 0\<rparr>"

text \<open>
  \<open>online = None\<close> is the nil set. \<open>ids\<close> and \<open>onl\<close> are the orders in which the two \<open>range\<close>
  loops visit the pool and the online set.
\<close>

definition cand_less :: "Candidate \<Rightarrow> Candidate \<Rightarrow> bool" where
  "cand_less a b \<longleftrightarrow> cand_DeviceID a < cand_DeviceID b"

definition Snapshot ::
    "DevicePool \<Rightarrow> string set option \<Rightarrow> string list \<Rightarrow> string list \<Rightarrow> Candidate list" where
  "Snapshot p online ids onl =
     (let incl = (\<lambda>did. case online of None \<Rightarrow> True | Some S \<Rightarrow> did \<in> S);
          seen = filter incl ids;
          out = map (\<lambda>did. candidate_of did (stats_of p did)) seen;
          out = out @ map fresh_candidate (filter (\<lambda>did. did \<notin> set seen) onl)
      in sort_slice cand_less out)"

definition enumerates_set :: "string list \<Rightarrow> string set option \<Rightarrow> bool" where
  "enumerates_set ks S \<longleftrightarrow> distinct ks \<and> set ks = (case S of None \<Rightarrow> {} | Some X \<Rightarrow> X)"

subsection \<open>Update\<close>

lemma merge_stats_sel [simp]:
  "st_country (merge_stats cur now u) = (if du_Country u \<noteq> '''' then du_Country u else st_country cur)"
  "st_netType (merge_stats cur now u) = (if du_NetType u \<noteq> '''' then du_NetType u else st_netType cur)"
  "st_avgRTT (merge_stats cur now u) = (case du_AvgRTTms u of None \<Rightarrow> st_avgRTT cur | Some v \<Rightarrow> v)"
  "st_lossRate (merge_stats cur now u) = (case du_LossRate u of None \<Rightarrow> st_lossRate cur | Some v \<Rightarrow> v)"
  "st_hasStats (merge_stats cur now u) \<longleftrightarrow>
     st_hasStats cur \<or> du_AvgRTTms u \<noteq> None \<or> du_LossRate u \<noteq> None"
  "st_lastSeen (merge_stats cur now u) = (if IsZero (du_SeenAt u) then now else du_SeenAt u)"
  by (auto simp: merge_stats_def Let_def split: option.splits)

lemma stats_of_Update:
  "stats_of (DevicePool_Update p now d u) x =
     (if x = d \<and> d \<noteq> '''' then merge_stats (stats_of p d) now u else stats_of p x)"
  by (auto simp: stats_of_def DevicePool_Update_def)

lemma finite_dom_Update [simp]:
  "finite (dom p) \<Longrightarrow> finite (dom (DevicePool_Update p now d u))"
  by (simp add: DevicePool_Update_def)

subsection \<open>Snapshot\<close>

interpretation cand_order: weak_order "\<lambda>_. True" cand_less
  by unfold_locales (auto simp: cand_less_def)

definition listed_ids :: "DevicePool \<Rightarrow> string set option \<Rightarrow> string set" where
  "listed_ids p online = (case online of None \<Rightarrow> dom p | Some S \<Rightarrow> S)"

lemma fresh_candidate_alt: "fresh_candidate did = candidate_of did zero_stats"
  by (simp add: fresh_candidate_def candidate_of_def zero_stats_def)

lemma cand_DeviceID_candidate_of [simp]: "cand_DeviceID (candidate_of did s) = did"
  by (simp add: candidate_of_def)

lemma Snapshot_spec:
  assumes "enumerates ids p" "enumerates_set onl online" "finite (listed_ids p online)"
  shows "Snapshot p online ids onl =
    map (\<lambda>did. candidate_of did (stats_of p did)) (sorted_list_of_set (listed_ids p online))"
proof -
  let ?f = "\<lambda>did. candidate_of did (stats_of p did)"
  let ?incl = "\<lambda>did. case online of None \<Rightarrow> True | Some S \<Rightarrow> did \<in> S"
  let ?ks = "filter ?incl ids @ filter (\<lambda>did. did \<notin> set (filter ?incl ids)) onl"
  let ?new = "filter (\<lambda>did. did \<notin> set (filter ?incl ids)) onl"
  have fresh: "map fresh_candidate ?new = map ?f ?new"
  proof (rule map_cong)
    fix did
    assume "did \<in> set ?new"
    then have "did \<notin> dom p"
      using assms(1,2) by (auto simp: enumerates_def enumerates_set_def split: option.splits)
    then show "fresh_candidate did = ?f did" by (simp add: fresh_candidate_alt stats_of_def domIff)
  qed simp
  have snap: "Snapshot p online ids onl = sort_slice cand_less (map ?f ?ks)"
    unfolding Snapshot_def Let_def fresh map_append ..
  have dist: "distinct ?ks" and keys: "set ?ks = listed_ids p online"
    using assms by (auto simp: enumerates_def enumerates_set_def listed_ids_def split: option.splits)
  let ?L = "sorted_list_of_set (listed_ids p online)"
  have perm: "mset ?L = mset ks" if "distinct ks" "set ks = listed_ids p online" for ks
    using that assms(3)
    by (metis set_eq_iff_mset_eq_distinct set_sorted_list_of_set distinct_sorted_list_of_set)
  have "map ?f ?L = sort_slice cand_less (map ?f ?ks)"
  proof (rule cand_order.sort_slice_unique)
    have "mset ?L = mset ?ks" using dist keys by (rule perm)
    then show "mset (map ?f ?L) = mset (map ?f ?ks)" by (simp only: mset_map)
    have "sorted_wrt (\<le>) ?L" by simp
    then show "in_order cand_less (map ?f ?L)"
      by (auto simp: in_order_def cand_less_def sorted_wrt_map not_less elim: sorted_wrt_mono_rel[rotated])
  qed (auto simp: cand_less_def candidate_of_def)
  then show ?thesis using snap by simp
qed

text \<open>
  A heartbeat that carries no metrics never clobbers the known RTT, loss rate, country or
  network type of a device, it always refreshes the last-seen time, and no other device's entry
  changes.
\<close>

theorem Update_keeps_known:
  assumes "d \<noteq> ''''" "du_AvgRTTms u = None" "du_LossRate u = None" "du_Country u = ''''"
    "du_NetType u = ''''" "du_SeenAt u \<noteq> 0"
  shows "stats_of (DevicePool_Update p now d u) d = (stats_of p d)\<lparr>st_lastSeen := du_SeenAt u\<rparr> \<and>
    (\<forall>x. x \<noteq> d \<longrightarrow> DevicePool_Update p now d u x = p x)"
  using assms by (simp add: stats_of_Update merge_stats_def Let_def IsZero_def)
    (simp add: DevicePool_Update_def)

theorem Update_keeps_known_witness:
  "stats_of (DevicePool_Update [''d1'' \<mapsto> zero_stats\<lparr>st_avgRTT := 40, st_hasStats := True\<rparr>] 9 ''d1''
      \<lparr>du_Country = '''', du_NetType = '''', du_AvgRTTms = None, du_LossRate = None, du_SeenAt = 7\<rparr>) ''d1''
    = zero_stats\<lparr>st_avgRTT := 40, st_hasStats := True, st_lastSeen := 7\<rparr>"
  using Update_keeps_known[of "''d1''"
      "\<lparr>du_Country = '''', du_NetType = '''', du_AvgRTTms = None, du_LossRate = None, du_SeenAt = 7\<rparr>"
      "[''d1'' \<mapsto> zero_stats\<lparr>st_avgRTT := 40, st_hasStats := True\<rparr>]" 9]
  by (simp add: stats_of_def)

text \<open>
  A snapshot holds exactly one candidate per online device (per known device when no online
  set is given), in ascending order of the device id, with the device's statistics or, for a
  device without a heartbeat yet, the zero candidate; the order in which Go walks the two maps
  does not matter.
\<close>

theorem Snapshot_complete:
  assumes "enumerates ids p" "enumerates_set onl online" "finite (listed_ids p online)"
  shows "Snapshot p online ids onl =
    map (\<lambda>did. candidate_of did (stats_of p did)) (sorted_list_of_set (listed_ids p online))"
  using assms by (rule Snapshot_spec)

theorem Snapshot_complete_witness:
  "Snapshot [''d2'' \<mapsto> zero_stats\<lparr>st_avgRTT := 40\<rparr>, ''d9'' \<mapsto> zero_stats] (Some {''d1'', ''d2''})
      [''d9'', ''d2''] [''d2'', ''d1''] =
    [fresh_candidate ''d1'', candidate_of ''d2'' (zero_stats\<lparr>st_avgRTT := 40\<rparr>)]"
proof -
  let ?p = "[''d2'' \<mapsto> zero_stats\<lparr>st_avgRTT := 40\<rparr>, ''d9'' \<mapsto> zero_stats]"
  have "sorted_list_of_set {''d1'', ''d2''} = [''d1'', ''d2'']"
    by (simp add: less_eq_char_def less_char_def)
  then show ?thesis
    using Snapshot_complete[of "[''d9'', ''d2'']" ?p "[''d2'', ''d1'']" "Some {''d1'', ''d2''}"]
    by (auto simp: enumerates_def enumerates_set_def listed_ids_def stats_of_def fresh_candidate_alt)
qed

end
