(* ===== verification/Username.thy ===== *)
theory Username
  imports Prelude
begin

text \<open>
  The SOCKS5 username of the scheduler scheme (\<open>server/scheduler/username.go\<close>):
  \<open>UserToken\<close>, its keys \<open>AuthKey\<close> and \<open>UserKey\<close>, and \<open>ParseUsername\<close>. The lemmas give the
  exact language the parser accepts, the bounds it enforces and its round trip with the
  rendering of a token.
\<close>

record UserToken =
  tok_UserID :: string
  tok_Country :: string
  tok_Duration :: duration
  tok_Session :: string

definition AuthKey :: "UserToken \<Rightarrow> string" where
  "AuthKey t = tok_UserID t @ '':'' @ tok_Session t"

definition UserKey :: "UserToken \<Rightarrow> string" where
  "UserKey t = AuthKey t"

definition MinDuration :: duration where "MinDuration = 5 * Minute"
definition MaxDuration :: duration where "MaxDuration = 90 * Minute"
definition SessionLen :: nat where "SessionLen = 8"

text \<open>
  Every error wraps \<open>ErrBadUsername\<close>; the last three also carry the offending segment.
\<close>

datatype username_error =
    ErrBadUsername
  | BadCountry string
  | BadDuration string
  | BadSession string

text \<open>
  The Go loops range over runes. A byte of a multi-byte (or invalid) sequence is never in an
  ASCII range, so testing every byte gives the same answer.
\<close>

definition isASCIILetters :: "string \<Rightarrow> bool" where
  "isASCIILetters s \<longleftrightarrow> list_all is_letter s"

definition isAlnum :: "string \<Rightarrow> bool" where
  "isAlnum s \<longleftrightarrow> list_all (\<lambda>c. is_letter c \<or> is_digit c) s"

text \<open>The \<open>switch\<close> on the country segment; \<open>None\<close> is its \<open>default\<close> branch.\<close>

definition parse_country :: "string \<Rightarrow> string option" where
  "parse_country country =
     (if country = '''' \<or> country = ''000'' then Some ''''
      else if length country = 2 \<and> isASCIILetters country then Some (map to_upper country)
      else None)"

text \<open>\<open>time.Duration(mins) * time.Minute\<close> wraps, then both bounds are enforced.\<close>

definition clamp_duration :: "int \<Rightarrow> duration" where
  "clamp_duration mins =
     (let d = wrap64 (mins * Minute);
          d = (if d < MinDuration then MinDuration else d);
          d = (if d > MaxDuration then MaxDuration else d)
      in d)"

definition ParseUsername :: "string \<Rightarrow> username_error + UserToken" where
  "ParseUsername s0 =
     (let s = TrimSpace s0 in
      if s = '''' then Inl ErrBadUsername else
      let parts = Split CHR ''_'' s in
      if length parts < 4 then Inl ErrBadUsername else
      let session = parts ! (length parts - 1);
          durStr = parts ! (length parts - 2);
          country = parts ! (length parts - 3);
          userParts = take (length parts - 3) parts in
      if length userParts = 0 then Inl ErrBadUsername else
      let userID = Join CHR ''_'' userParts in
      case parse_country country of
        None \<Rightarrow> Inl (BadCountry country)
      | Some ctry \<Rightarrow>
         (case Atoi durStr of
            None \<Rightarrow> Inl (BadDuration durStr)
          | Some mins \<Rightarrow>
             if mins \<le> 0 then Inl (BadDuration durStr)
             else if length session \<noteq> SessionLen \<or> \<not> isAlnum session
               then Inl (BadSession session)
             else if userID = '''' then Inl ErrBadUsername
             else Inr \<lparr>tok_UserID = userID, tok_Country = ctry,
                       tok_Duration = clamp_duration mins, tok_Session = session\<rparr>))"

subsection \<open>Facts on the pieces\<close>

lemma isAlnum_no_us: "isAlnum s \<Longrightarrow> CHR ''_'' \<notin> set s"
  by (auto simp: isAlnum_def list_all_iff is_lower_def is_upper_def is_digit_def less_eq_char_def)

lemma isAlnum_no_colon: "isAlnum s \<Longrightarrow> CHR '':'' \<notin> set s"
  by (auto simp: isAlnum_def list_all_iff is_lower_def is_upper_def is_digit_def less_eq_char_def)

lemma digits_no_us: "list_all is_digit s \<Longrightarrow> CHR ''_'' \<notin> set s"
  by (auto simp: list_all_iff is_digit_def less_eq_char_def)

lemma Atoi_no_us: "Atoi s = Some v \<Longrightarrow> CHR ''_'' \<notin> set s"
proof (cases s)
  case Nil
  then show ?thesis by simp
next
  case (Cons c cs)
  assume "Atoi s = Some v"
  with Cons have "(c = CHR ''-'' \<or> c = CHR ''+'' \<or> is_digit c) \<and> list_all is_digit cs"
    by (auto simp: Atoi_def Let_def split: if_splits)
  with Cons show ?thesis using digits_no_us[of cs] by (auto simp: is_digit_def less_eq_char_def)
qed

lemma parse_country_no_us: "parse_country c = Some k \<Longrightarrow> CHR ''_'' \<notin> set c"
  by (auto simp: parse_country_def isASCIILetters_def list_all_iff is_lower_def is_upper_def
        less_eq_char_def split: if_splits)

lemma parse_country_shape:
  "parse_country c = Some k \<Longrightarrow> k = '''' \<or> length k = 2 \<and> list_all is_upper k"
  by (auto simp: parse_country_def isASCIILetters_def list_all_iff to_upper_letter split: if_splits)

lemma parse_country_upper:
  "length c = 2 \<Longrightarrow> list_all is_upper c \<Longrightarrow> parse_country c = Some c"
  by (auto simp: parse_country_def isASCIILetters_def list_all_iff to_upper_upper intro: map_idI)

lemma clamp_duration_bounds: "MinDuration \<le> clamp_duration m \<and> clamp_duration m \<le> MaxDuration"
  by (simp add: clamp_duration_def Let_def MinDuration_def MaxDuration_def)

lemma clamp_duration_exact:
  "0 < m \<Longrightarrow> m \<le> 153722867 \<Longrightarrow> clamp_duration m = max 5 (min 90 m) * Minute"
  by (auto simp: clamp_duration_def Let_def MinDuration_def MaxDuration_def in_int64_def)

text \<open>The four-way split of a username and its reassembly are inverse to each other.\<close>

lemma split_last3:
  assumes "CHR ''_'' \<notin> set c" "CHR ''_'' \<notin> set d" "CHR ''_'' \<notin> set e"
  shows "Split CHR ''_'' (u @ ''_'' @ c @ ''_'' @ d @ ''_'' @ e) = Split CHR ''_'' u @ [c, d, e]"
proof -
  let ?S = "Split CHR ''_''"
  have "?S (((u @ ''_'' @ c) @ ''_'' @ d) @ ''_'' @ e) = ?S ((u @ ''_'' @ c) @ ''_'' @ d) @ [e]"
    using Split_snoc_sep[OF assms(3), of "u @ ''_'' @ c @ ''_'' @ d"] by simp
  also have "?S ((u @ ''_'' @ c) @ ''_'' @ d) = ?S (u @ ''_'' @ c) @ [d]"
    using Split_snoc_sep[OF assms(2), of "u @ ''_'' @ c"] by simp
  also have "?S (u @ ''_'' @ c) = ?S u @ [c]"
    using Split_snoc_sep[OF assms(1), of u] by simp
  finally show ?thesis by simp
qed

lemma ParseUsername_segments:
  assumes "TrimSpace s = u @ ''_'' @ c @ ''_'' @ d @ ''_'' @ e"
    and "CHR ''_'' \<notin> set c" "CHR ''_'' \<notin> set d" "CHR ''_'' \<notin> set e"
  shows "ParseUsername s =
    (case parse_country c of
       None \<Rightarrow> Inl (BadCountry c)
     | Some ctry \<Rightarrow>
        (case Atoi d of
           None \<Rightarrow> Inl (BadDuration d)
         | Some mins \<Rightarrow>
            if mins \<le> 0 then Inl (BadDuration d)
            else if length e \<noteq> SessionLen \<or> \<not> isAlnum e then Inl (BadSession e)
            else if u = '''' then Inl ErrBadUsername
            else Inr \<lparr>tok_UserID = u, tok_Country = ctry,
                      tok_Duration = clamp_duration mins, tok_Session = e\<rparr>))"
proof -
  obtain p ps where ps: "Split CHR ''_'' u = p # ps"
    using Split_nonempty[of "CHR ''_''" u] by (cases "Split CHR ''_'' u") blast+
  let ?parts = "Split CHR ''_'' (TrimSpace s)"
  have parts: "?parts = p # ps @ [c, d, e]"
    using split_last3[OF assms(2-4)] by (simp add: assms(1) ps)
  have nth: "?parts ! (length ?parts - 1) = e" "?parts ! (length ?parts - 2) = d"
    "?parts ! (length ?parts - 3) = c" "take (length ?parts - 3) ?parts = p # ps"
    unfolding parts by (simp_all add: nth_append)
  have join: "Join CHR ''_'' (p # ps) = u"
    using Join_Split[of "CHR ''_''" u] by (simp add: ps)
  have "\<not> length ?parts < 4" unfolding parts by simp
  moreover have "TrimSpace s \<noteq> ''''" by (simp add: assms(1))
  ultimately show ?thesis
    unfolding ParseUsername_def Let_def nth join by simp
qed

lemma Split_at_least_4:
  assumes "length (Split CHR ''_'' s) \<ge> 4"
  obtains u c d e where "s = u @ ''_'' @ c @ ''_'' @ d @ ''_'' @ e"
    "CHR ''_'' \<notin> set c" "CHR ''_'' \<notin> set d" "CHR ''_'' \<notin> set e"
proof -
  let ?P = "Split CHR ''_'' s"
  obtain us c d e where P: "?P = us @ [c, d, e]" and us: "us \<noteq> []"
  proof -
    have *: "?P = take (length ?P - 3) ?P @ drop (length ?P - 3) ?P" by simp
    have "length (drop (length ?P - 3) ?P) = 3" using assms by simp
    then obtain c d e where "drop (length ?P - 3) ?P = [c, d, e]"
      by (rule length_3_obtain)
    moreover have "take (length ?P - 3) ?P \<noteq> []" using assms by auto
    ultimately show thesis using that[of "take (length ?P - 3) ?P" c d e] * by simp
  qed
  have "s = Join CHR ''_'' ?P" by (simp add: Join_Split)
  also have "?P = ((us @ [c]) @ [d]) @ [e]" using P by simp
  also have "Join CHR ''_'' \<dots> = Join CHR ''_'' us @ ''_'' @ c @ ''_'' @ d @ ''_'' @ e"
    using us by (subst Join_snoc, simp, subst Join_snoc, simp, subst Join_snoc) simp_all
  finally have "s = Join CHR ''_'' us @ ''_'' @ c @ ''_'' @ d @ ''_'' @ e" .
  moreover have "\<forall>x \<in> set ?P. CHR ''_'' \<notin> set x" using Split_no_sep by blast
  ultimately show thesis using that P by simp
qed

subsection \<open>What the parser accepts\<close>

definition well_formed_token :: "UserToken \<Rightarrow> bool" where
  "well_formed_token t \<longleftrightarrow>
     tok_UserID t \<noteq> '''' \<and>
     (tok_Country t = '''' \<or> length (tok_Country t) = 2 \<and> list_all is_upper (tok_Country t)) \<and>
     MinDuration \<le> tok_Duration t \<and> tok_Duration t \<le> MaxDuration \<and>
     length (tok_Session t) = SessionLen \<and> isAlnum (tok_Session t)"

lemma ParseUsername_InrD:
  assumes "ParseUsername s = Inr t"
  shows "\<exists>c d mins. TrimSpace s = tok_UserID t @ ''_'' @ c @ ''_'' @ d @ ''_'' @ tok_Session t \<and>
      tok_UserID t \<noteq> '''' \<and> parse_country c = Some (tok_Country t) \<and>
      Atoi d = Some mins \<and> 0 < mins \<and> tok_Duration t = clamp_duration mins \<and>
      length (tok_Session t) = SessionLen \<and> isAlnum (tok_Session t)"
proof -
  have "length (Split CHR ''_'' (TrimSpace s)) \<ge> 4"
    using assms by (auto simp: ParseUsername_def Let_def split: if_splits)
  then obtain u c d e where s: "TrimSpace s = u @ ''_'' @ c @ ''_'' @ d @ ''_'' @ e"
    and ns: "CHR ''_'' \<notin> set c" "CHR ''_'' \<notin> set d" "CHR ''_'' \<notin> set e"
    by (rule Split_at_least_4)
  from assms have "u = tok_UserID t \<and> e = tok_Session t \<and> u \<noteq> '''' \<and>
      parse_country c = Some (tok_Country t) \<and>
      (\<exists>mins. Atoi d = Some mins \<and> 0 < mins \<and> tok_Duration t = clamp_duration mins) \<and>
      length e = SessionLen \<and> isAlnum e"
    unfolding ParseUsername_segments[OF s ns] by (auto split: option.splits if_splits)
  with s show ?thesis by metis
qed

lemma ParseUsername_InrI:
  assumes "TrimSpace s = tok_UserID t @ ''_'' @ c @ ''_'' @ d @ ''_'' @ tok_Session t"
    and "tok_UserID t \<noteq> ''''" "parse_country c = Some (tok_Country t)"
    and "Atoi d = Some mins" "0 < mins" "tok_Duration t = clamp_duration mins"
    and "length (tok_Session t) = SessionLen" "isAlnum (tok_Session t)"
  shows "ParseUsername s = Inr t"
  using ParseUsername_segments[OF assms(1) parse_country_no_us[OF assms(3)]
      Atoi_no_us[OF assms(4)] isAlnum_no_us[OF assms(8)]] assms
  by simp


lemma ParseUsername_wf: "ParseUsername s = Inr t \<Longrightarrow> well_formed_token t"
  by (drule ParseUsername_InrD)
     (auto simp: well_formed_token_def clamp_duration_bounds dest: parse_country_shape)

text \<open>The username that renders a token whose window is a whole number of minutes.\<close>

definition render_token :: "UserToken \<Rightarrow> string" where
  "render_token t = tok_UserID t @ ''_'' @ tok_Country t @ ''_'' @
     Itoa (nat (tok_Duration t div Minute)) @ ''_'' @ tok_Session t"

lemma parse_country_wf: "well_formed_token t \<Longrightarrow> parse_country (tok_Country t) = Some (tok_Country t)"
  by (auto simp: well_formed_token_def parse_country_upper) (simp add: parse_country_def)

text \<open>
  Parsing the rendering of a well-formed token gives the token back.
\<close>

theorem ParseUsername_render:
  assumes wf: "well_formed_token t" and mins: "tok_Duration t mod Minute = 0"
    and tr: "trimmed (render_token t)"
  shows "ParseUsername (render_token t) = Inr t"
proof -
  let ?m = "tok_Duration t div Minute"
  have d: "tok_Duration t = ?m * Minute" using mins by (simp add: mod_0_imp_dvd)
  with wf have m: "5 \<le> ?m" "?m \<le> 90"
    by (simp_all add: well_formed_token_def MinDuration_def MaxDuration_def)
  then have "Atoi (Itoa (nat ?m)) = Some ?m" using Atoi_Itoa[of "nat ?m"] by simp
  moreover have "tok_Duration t = clamp_duration ?m"
    using m d clamp_duration_exact[of ?m] by simp
  moreover have "TrimSpace (render_token t) = tok_UserID t @ ''_'' @ tok_Country t @ ''_'' @
      Itoa (nat ?m) @ ''_'' @ tok_Session t"
    using tr by (simp add: render_token_def)
  ultimately show ?thesis
    using ParseUsername_InrI[of "render_token t" t "tok_Country t" "Itoa (nat ?m)" ?m]
      parse_country_wf[OF wf] wf m by (simp add: well_formed_token_def)
qed

lemma trimmed_example:
  "trimmed ''B_38313_US_30_Ab000001''"
  by (simp add: trimmed_def go_spaces_def)

theorem ParseUsername_render_witness:
  "ParseUsername ''B_38313_US_30_Ab000001'' =
     Inr \<lparr>tok_UserID = ''B_38313'', tok_Country = ''US'', tok_Duration = 30 * Minute,
          tok_Session = ''Ab000001''\<rparr>"
proof -
  let ?t = "\<lparr>tok_UserID = ''B_38313'', tok_Country = ''US'', tok_Duration = 30 * Minute,
          tok_Session = ''Ab000001''\<rparr>"
  have r: "render_token ?t = ''B_38313_US_30_Ab000001''"
    by code_simp
  have wf: "well_formed_token ?t"
    by (simp add: well_formed_token_def MinDuration_def MaxDuration_def SessionLen_def isAlnum_def
        is_lower_def is_upper_def is_digit_def less_eq_char_def)
  show ?thesis
    using ParseUsername_render[of ?t] wf trimmed_example unfolding r by simp
qed

text \<open>
  Two accepted usernames share a credential and sticky-lease key only when they name the same
  user id and the same session, whatever their country and duration: the fixed session length
  makes \<open>user_id:session\<close> unambiguous even for user ids that contain colons.
\<close>

theorem UserKey_injective:
  assumes "ParseUsername s1 = Inr t1" "ParseUsername s2 = Inr t2"
  shows "UserKey t1 = UserKey t2 \<longleftrightarrow> tok_UserID t1 = tok_UserID t2 \<and> tok_Session t1 = tok_Session t2"
proof -
  have "length (tok_Session t1) = length (tok_Session t2)"
    using assms[THEN ParseUsername_wf] by (simp add: well_formed_token_def)
  then show ?thesis by (auto simp: UserKey_def AuthKey_def append_eq_append_conv)
qed

lemma ParseUsername_example_JP:
  "ParseUsername ''B_38313_JP_9_Ab000001'' =
     Inr \<lparr>tok_UserID = ''B_38313'', tok_Country = ''JP'', tok_Duration = 9 * Minute,
          tok_Session = ''Ab000001''\<rparr>"
  by (rule ParseUsername_InrI[where c = "''JP''" and d = "''9''" and mins = 9])
     (simp_all add: trimmed_def go_spaces_def Atoi_def parse_country_def isASCIILetters_def
       is_lower_def is_upper_def is_digit_def less_eq_char_def to_upper_def char_val_def
       in_int64_def clamp_duration_exact SessionLen_def isAlnum_def)

lemma ParseUsername_example_US:
  "ParseUsername ''B_38313_US_30_Ab000001'' =
     Inr \<lparr>tok_UserID = ''B_38313'', tok_Country = ''US'', tok_Duration = 30 * Minute,
          tok_Session = ''Ab000001''\<rparr>"
  by (rule ParseUsername_InrI[where c = "''US''" and d = "''30''" and mins = 30])
     (simp_all add: trimmed_def go_spaces_def Atoi_def parse_country_def isASCIILetters_def
       is_lower_def is_upper_def is_digit_def less_eq_char_def to_upper_def char_val_def
       in_int64_def clamp_duration_exact SessionLen_def isAlnum_def)

theorem UserKey_injective_witness:
  "(UserKey \<lparr>tok_UserID = ''B_38313'', tok_Country = ''JP'', tok_Duration = 9 * Minute,
          tok_Session = ''Ab000001''\<rparr> =
    UserKey \<lparr>tok_UserID = ''B_38313'', tok_Country = ''US'', tok_Duration = 30 * Minute,
          tok_Session = ''Ab000001''\<rparr>) \<longleftrightarrow>
   (''B_38313'' = ''B_38313'' \<and> ''Ab000001'' = ''Ab000001'')"
  using UserKey_injective[OF ParseUsername_example_JP ParseUsername_example_US] by simp

text \<open>
  For every positive number of minutes up to the largest one whose nanoseconds fit an
  \<open>int64\<close>, the sticky window is the number of minutes clamped to 5..90.
\<close>

theorem clamp_duration_clamps:
  assumes "0 < m" "m \<le> 153722867"
  shows "clamp_duration m = max 5 (min 90 m) * Minute"
  using assms by (rule clamp_duration_exact)

theorem clamp_duration_clamps_witness: "clamp_duration 153722867 = 90 * Minute"
  using clamp_duration_clamps[of 153722867] by simp

text \<open>
  Beyond that the multiplication by \<open>time.Minute\<close> wraps around before the bounds are
  enforced: the next 153 million values get the minimum window of 5 minutes, not the maximum.
\<close>

theorem clamp_duration_wraps:
  assumes "153722867 < m" "m \<le> 307445734"
  shows "clamp_duration m = MinDuration"
proof -
  have "wrap64 (m * Minute) = m * Minute - 2 ^ 64"
  proof -
    have "(m * Minute + 2 ^ 63) mod 2 ^ 64 = (m * Minute + 2 ^ 63 - 2 ^ 64) mod 2 ^ 64"
      by (simp only: minus_mod_self2)
    also have "\<dots> = m * Minute + 2 ^ 63 - 2 ^ 64"
      using assms by (intro mod_pos_pos_trivial) simp_all
    finally show ?thesis by (simp add: wrap64_def)
  qed
  with assms show ?thesis
    by (simp add: clamp_duration_def MinDuration_def MaxDuration_def)
qed

theorem clamp_duration_wraps_witness: "clamp_duration 200000000 = 5 * Minute"
  using clamp_duration_wraps[of 200000000] by (simp add: MinDuration_def)

end
