(* ===== verification/Selector.thy ===== *)
theory Selector
  imports Pool Username
begin

text \<open>
  \<open>server/scheduler/selector.go\<close>: the \<open>Selector\<close> interface as a locale, with the contract its
  client, the scheduler, relies on, and the default \<open>ScoredSelector\<close>, which filters the
  candidates by country, freshness and leases, and picks the lowest score, breaking ties by
  device id.
\<close>

record SelectInput =
  si_Token :: UserToken
  si_Candidates :: "Candidate list"
  si_LeasedByOthers :: "string set"
  si_Now :: gotime

datatype select_error = ErrNoDevice | ErrNoDeviceCountry string

text \<open>
  What the scheduler expects of any selector: a pick is an admissible candidate, an admissible
  candidate is never leased by another user, and an error means that there is none.
\<close>

locale selector =
  fixes pick :: "SelectInput \<Rightarrow> select_error + string"
    and admissible :: "SelectInput \<Rightarrow> Candidate \<Rightarrow> bool"
  assumes pick_admissible:
      "pick i = Inr d \<Longrightarrow> \<exists>c \<in> set (si_Candidates i). admissible i c \<and> cand_DeviceID c = d"
    and pick_total: "c \<in> set (si_Candidates i) \<Longrightarrow> admissible i c \<Longrightarrow> \<exists>d. pick i = Inr d"
    and admissible_free: "admissible i c \<Longrightarrow> cand_DeviceID c \<notin> si_LeasedByOthers i"
    and admissible_country:
      "admissible i c \<Longrightarrow> tok_Country (si_Token i) \<noteq> '''' \<Longrightarrow> cand_Country c = tok_Country (si_Token i)"
begin

lemma pick_free: "pick i = Inr d \<Longrightarrow> d \<notin> si_LeasedByOthers i"
  using pick_admissible admissible_free by blast

lemma pick_candidate: "pick i = Inr d \<Longrightarrow> d \<in> cand_DeviceID ` set (si_Candidates i)"
  using pick_admissible by blast

lemma pick_error_iff:
  "(\<exists>e. pick i = Inl e) \<longleftrightarrow> (\<forall>c \<in> set (si_Candidates i). \<not> admissible i c)"
proof (cases "pick i")
  case (Inl e)
  then show ?thesis using pick_total[of _ i] by auto
next
  case (Inr d)
  then show ?thesis using pick_admissible by auto
qed

end

subsection \<open>The default selector\<close>

record ScoredSelector =
  LossPenaltyMs :: f64
  DefaultRTTms :: int
  StaleAfter :: duration

definition NewScoredSelector :: ScoredSelector where
  "NewScoredSelector =
     \<lparr>LossPenaltyMs = f64_of_int 1000, DefaultRTTms = 200, StaleAfter = 90 * Second\<rparr>"

text \<open>The three \<open>continue\<close> guards of the loop.\<close>

definition eligible :: "ScoredSelector \<Rightarrow> SelectInput \<Rightarrow> Candidate \<Rightarrow> bool" where
  "eligible s i c \<longleftrightarrow>
     \<not> (tok_Country (si_Token i) \<noteq> '''' \<and> cand_Country c \<noteq> tok_Country (si_Token i)) \<and>
     \<not> (StaleAfter s > 0 \<and> \<not> IsZero (cand_LastSeen c) \<and>
        time_Sub (si_Now i) (cand_LastSeen c) > StaleAfter s) \<and>
     cand_DeviceID c \<notin> si_LeasedByOthers i"

definition score :: "ScoredSelector \<Rightarrow> Candidate \<Rightarrow> f64" where
  "score s c =
     (let rtt = (if \<not> cand_HasStats c then f64_of_int (DefaultRTTms s) else f64_of_int (cand_AvgRTT c))
      in f64_add rtt (f64_mul (LossPenaltyMs s) (cand_LossRate c)))"

text \<open>A \<open>scored\<close> is a pair of the device id and its score.\<close>

definition scored_less :: "string \<times> f64 \<Rightarrow> string \<times> f64 \<Rightarrow> bool" where
  "scored_less a b =
     (if \<not> f64_eq (snd a) (snd b) then f64_lt (snd a) (snd b) else fst a < fst b)"

definition ScoredSelector_Pick :: "ScoredSelector \<Rightarrow> SelectInput \<Rightarrow> select_error + string" where
  "ScoredSelector_Pick s i =
     (let keep = map (\<lambda>c. (cand_DeviceID c, score s c)) (filter (eligible s i) (si_Candidates i)) in
      if keep = [] then
        (if tok_Country (si_Token i) \<noteq> '''' then Inl (ErrNoDeviceCountry (tok_Country (si_Token i)))
         else Inl ErrNoDevice)
      else Inr (fst (hd (sort_slice scored_less keep))))"

lemma f64_eq_iff: "x \<noteq> NaN \<Longrightarrow> f64_eq x y \<longleftrightarrow> x = y"
  by (cases x) auto

interpretation scored_order: total_order "\<lambda>p. snd p \<noteq> NaN" scored_less
proof unfold_locales
  fix x y z :: "string \<times> f64"
  assume A: "snd x \<noteq> NaN" "snd y \<noteq> NaN"
  show "\<not> scored_less x x" using A by (simp add: scored_less_def f64_eq_iff)
  show "x \<noteq> y \<Longrightarrow> scored_less x y \<or> scored_less y x"
    using A f64_lt_total by (auto simp: scored_less_def f64_eq_iff prod_eq_iff)
  assume z: "snd z \<noteq> NaN"
  show "scored_less x y \<Longrightarrow> scored_less y z \<Longrightarrow> scored_less x z"
    using A z
    by (auto simp: scored_less_def f64_eq_iff split: if_splits dest: f64_lt_asym intro: f64_lt_trans)
  show "scored_less x z \<Longrightarrow> scored_less x y \<or> scored_less y z"
    using A z f64_order.separates by (auto simp: scored_less_def f64_eq_iff split: if_splits) (metis f64_lt_total)
qed

lemma hd_sort_slice_in: "xs \<noteq> [] \<Longrightarrow> hd (sort_slice lt xs) \<in> set xs"
  by (metis hd_in_set set_sort_slice sort_slice_Nil_iff)

lemma Pick_InrD:
  assumes "ScoredSelector_Pick s i = Inr d"
  shows "\<exists>c \<in> set (si_Candidates i). eligible s i c \<and> cand_DeviceID c = d"
proof -
  let ?keep = "map (\<lambda>c. (cand_DeviceID c, score s c)) (filter (eligible s i) (si_Candidates i))"
  have "?keep \<noteq> []" and d: "d = fst (hd (sort_slice scored_less ?keep))"
    using assms by (auto simp: ScoredSelector_Pick_def Let_def split: if_splits)
  then have "hd (sort_slice scored_less ?keep) \<in> set ?keep" by (intro hd_sort_slice_in)
  then show ?thesis using d by auto
qed

interpretation scored: selector "ScoredSelector_Pick s" "eligible s" for s
proof unfold_locales
  fix i c d
  show "ScoredSelector_Pick s i = Inr d \<Longrightarrow>
      \<exists>c \<in> set (si_Candidates i). eligible s i c \<and> cand_DeviceID c = d"
    by (rule Pick_InrD)
  show "c \<in> set (si_Candidates i) \<Longrightarrow> eligible s i c \<Longrightarrow> \<exists>d. ScoredSelector_Pick s i = Inr d"
    by (auto simp: ScoredSelector_Pick_def Let_def filter_empty_conv)
qed (auto simp: eligible_def)

text \<open>No score is a NaN when the configured penalty and the reported losses are finite.\<close>

lemma score_not_NaN:
  assumes "LossPenaltyMs s = Fin a" "cand_LossRate c = Fin b"
    "\<bar>DefaultRTTms s\<bar> < 2 ^ 53" "\<bar>cand_AvgRTT c\<bar> < 2 ^ 53"
  shows "score s c \<noteq> NaN"
proof -
  have "f64_mul (LossPenaltyMs s) (cand_LossRate c) \<noteq> NaN" using assms(1,2) by simp
  then show ?thesis
    using assms(3,4) by (auto simp: score_def Let_def f64_of_int_exact f64_add_not_NaN)
qed

subsection \<open>Properties\<close>

text \<open>
  The default selector picks a candidate that matches the requested country, is fresh and is
  not leased by another user, and it reports an error exactly when no candidate does, naming the
  country if one was requested.
\<close>

theorem ScoredSelector_Pick_correct:
  "(case ScoredSelector_Pick s i of
      Inr d \<Rightarrow> (\<exists>c \<in> set (si_Candidates i). eligible s i c \<and> cand_DeviceID c = d)
    | Inl e \<Rightarrow> (\<nexists>c. c \<in> set (si_Candidates i) \<and> eligible s i c) \<and>
        e = (if tok_Country (si_Token i) = '''' then ErrNoDevice
             else ErrNoDeviceCountry (tok_Country (si_Token i))))"
proof (cases "ScoredSelector_Pick s i")
  case (Inl e)
  then show ?thesis
    by (auto simp: ScoredSelector_Pick_def Let_def filter_empty_conv split: if_splits)
next
  case (Inr d)
  then show ?thesis using scored.pick_admissible by simp
qed

text \<open>
  C19. The picked device has the lowest score of all eligible candidates, and among those with an
  equal score the smallest device id, provided no eligible score is a NaN.
\<close>

theorem ScoredSelector_Pick_optimal:
  assumes pick: "ScoredSelector_Pick s i = Inr d"
    and nan: "\<forall>c \<in> set (si_Candidates i). eligible s i c \<longrightarrow> score s c \<noteq> NaN"
  shows "\<exists>c \<in> set (si_Candidates i). eligible s i c \<and> cand_DeviceID c = d \<and>
    (\<forall>c' \<in> set (si_Candidates i). eligible s i c' \<longrightarrow>
       f64_lt (score s c) (score s c') \<or> score s c = score s c' \<and> d \<le> cand_DeviceID c')"
proof -
  let ?p = "\<lambda>c. (cand_DeviceID c, score s c)"
  let ?keep = "map ?p (filter (eligible s i) (si_Candidates i))"
  have ne: "?keep \<noteq> []" and d: "d = fst (hd (sort_slice scored_less ?keep))"
    using pick by (auto simp: ScoredSelector_Pick_def Let_def split: if_splits)
  have A: "\<forall>p \<in> set ?keep. snd p \<noteq> NaN" using nan by auto
  from hd_sort_slice_in[OF ne] obtain c where c: "c \<in> set (si_Candidates i)" "eligible s i c"
    and hd: "hd (sort_slice scored_less ?keep) = ?p c" by auto
  have "f64_lt (score s c) (score s c') \<or> score s c = score s c' \<and> d \<le> cand_DeviceID c'"
    if c': "c' \<in> set (si_Candidates i)" "eligible s i c'" for c'
  proof -
    have "\<not> scored_less (?p c') (?p c)"
      using scored_order.hd_sort_slice_least[OF A, of "?p c'"] c' hd by auto
    then show ?thesis
      using nan c c' f64_lt_total[of "score s c" "score s c'"] d hd
      by (auto simp: scored_less_def f64_eq_iff split: if_splits)
  qed
  with c d hd show ?thesis by auto
qed

definition demo_token :: UserToken where
  "demo_token = \<lparr>tok_UserID = ''B_38313'', tok_Country = ''US'', tok_Duration = 30 * Minute,
                 tok_Session = ''Ab000001''\<rparr>"

definition demo_candidate :: "string \<Rightarrow> int \<Rightarrow> rat \<Rightarrow> Candidate" where
  "demo_candidate did rtt loss =
     \<lparr>cand_DeviceID = did, cand_Country = ''US'', cand_NetType = ''wifi'', cand_AvgRTT = rtt,
      cand_LossRate = Fin loss, cand_HasStats = True, cand_LastSeen = 0\<rparr>"

definition demo_input :: SelectInput where
  "demo_input = \<lparr>si_Token = demo_token,
     si_Candidates = [demo_candidate ''d1'' 50 (1 / 4), demo_candidate ''d2'' 80 0],
     si_LeasedByOthers = {}, si_Now = 0\<rparr>"

lemma demo_pick: "ScoredSelector_Pick NewScoredSelector demo_input = Inr ''d2''"
  by (simp add: ScoredSelector_Pick_def demo_input_def demo_candidate_def demo_token_def) code_simp

theorem ScoredSelector_Pick_optimal_witness:
  "f64_lt (score NewScoredSelector (demo_candidate ''d2'' 80 0))
     (score NewScoredSelector (demo_candidate ''d1'' 50 (1 / 4)))"
proof -
  let ?d1 = "demo_candidate ''d1'' 50 (1 / 4)" and ?d2 = "demo_candidate ''d2'' 80 0"
  have nan: "\<forall>c \<in> set (si_Candidates demo_input). eligible NewScoredSelector demo_input c \<longrightarrow>
      score NewScoredSelector c \<noteq> NaN"
    by (simp add: demo_input_def demo_candidate_def NewScoredSelector_def score_def Let_def
        f64_of_int_exact f64_add_not_NaN)
  have el: "eligible NewScoredSelector demo_input ?d1" and ids: "cand_DeviceID ?d1 = ''d1''" "cand_DeviceID ?d2 = ''d2''"
    and cs: "set (si_Candidates demo_input) = {?d1, ?d2}" and lt: "\<not> ''d2'' \<le> ''d1''"
    by (simp_all add: demo_input_def demo_candidate_def demo_token_def eligible_def IsZero_def
        less_eq_char_def less_char_def)
  show ?thesis
    using ScoredSelector_Pick_optimal[OF demo_pick nan] el ids lt unfolding cs by auto
qed

end
