(* ===== verification/Scheduler.thy ===== *)
theory Scheduler
  imports Lease Selector
begin

text \<open>
  \<open>server/scheduler/scheduler.go\<close>: the scheduler ties the parser, the pool, the lease table and a
  selector together. \<open>Pick\<close> is not atomic: it takes the locks of its parts one after the other,
  and other goroutines act on the shared lease table in between. The model passes what they do,
  the readings of the clock and the orders of the map walks in a record (\<open>pick_env\<close>).

  The lemmas state what a successful \<open>Pick\<close> means under arbitrary interference, that without
  interference it is sticky and exclusive, when it fails, and that the handle of a wrapped
  connection is released exactly once.
\<close>

subsection \<open>Construction\<close>

record ('lister, 'sel, 'log) Config =
  cfg_Lister :: "'lister option"
  cfg_Pool :: "DevicePool option"
  cfg_Leases :: "StickyLeases option"
  cfg_Selector :: "'sel option"
  cfg_Log :: "'log option"

record ('lister, 'sel, 'log) Scheduler =
  sch_Lister :: 'lister
  sch_Pool :: DevicePool
  sch_Leases :: StickyLeases
  sch_Selector :: 'sel
  sch_Log :: 'log
  sch_stopped :: bool

datatype new_error = ListerRequired | PoolRequired | LeasesRequired

text \<open>\<open>New\<close>; the two arguments are \<open>NewScoredSelector()\<close> and the quiet logger.\<close>

definition Scheduler_New ::
    "'sel \<Rightarrow> 'log \<Rightarrow> ('lister, 'sel, 'log) Config \<Rightarrow> new_error + ('lister, 'sel, 'log) Scheduler" where
  "Scheduler_New default_sel quiet_log cfg =
     (case cfg_Lister cfg of None \<Rightarrow> Inl ListerRequired
      | Some lister \<Rightarrow>
     (case cfg_Pool cfg of None \<Rightarrow> Inl PoolRequired
      | Some pool \<Rightarrow>
     (case cfg_Leases cfg of None \<Rightarrow> Inl LeasesRequired
      | Some leases \<Rightarrow>
        Inr \<lparr>sch_Lister = lister, sch_Pool = pool, sch_Leases = leases,
             sch_Selector = (case cfg_Selector cfg of None \<Rightarrow> default_sel | Some s \<Rightarrow> s),
             sch_Log = (case cfg_Log cfg of None \<Rightarrow> quiet_log | Some l \<Rightarrow> l),
             sch_stopped = False\<rparr>)))"

text \<open>\<open>Stop\<close> closes the stop channel at most once.\<close>

definition Scheduler_Stop :: "('lister, 'sel, 'log) Scheduler \<Rightarrow> ('lister, 'sel, 'log) Scheduler" where
  "Scheduler_Stop s = (if sch_stopped s then s else s\<lparr>sch_stopped := True\<rparr>)"

text \<open>
  The sweeper goroutine: what its \<open>select\<close> receives is a list of events, a tick carrying the clock
  reading and the walk of that sweep. It returns at the first cancellation or stop.
\<close>

datatype sweep_event = CtxDone | StopClosed | Tick gotime "string list"

definition sweep_every :: "duration \<Rightarrow> duration" where
  "sweep_every every = (if every \<le> 0 then Minute else every)"

fun sweeper :: "sweep_event list \<Rightarrow> StickyLeases \<Rightarrow> StickyLeases" where
  "sweeper [] sl = sl"
| "sweeper (CtxDone # es) sl = sl"
| "sweeper (StopClosed # es) sl = sl"
| "sweeper (Tick now us # es) sl = sweeper es (snd (Sweep now us sl))"

subsection \<open>Pick\<close>

text \<open>
  \<open>pe_online\<close> is what the registry returned, \<open>pe_pool\<close> the pool when its snapshot is taken (its
  two walks in \<open>pe_ids\<close>, \<open>pe_onl\<close>), \<open>pe_clk k\<close> the k-th reading of the clock, \<open>pe_walk k\<close> the
  order of the k-th walk over the leases, \<open>pe_others k\<close> what
  other goroutines do to the table before the k-th locked section of this call.
\<close>

record pick_env =
  pe_ctx_err :: bool
  pe_online :: "string set"
  pe_pool :: DevicePool
  pe_ids :: "string list"
  pe_onl :: "string list"
  pe_walk :: "nat \<Rightarrow> StickyLeases \<Rightarrow> string list"
  pe_clk :: "nat \<Rightarrow> gotime"
  pe_others :: "nat \<Rightarrow> StickyLeases \<Rightarrow> StickyLeases"

datatype sched_error =
    CtxErr
  | UsernameErr username_error
  | NoDevicesOnline
  | SelectErr select_error
  | AcquireErr lease_error

type_synonym selector_fun = "SelectInput \<Rightarrow> select_error + string"

definition select_input :: "pick_env \<Rightarrow> UserToken \<Rightarrow> string set \<Rightarrow> gotime \<Rightarrow> SelectInput" where
  "select_input ev tok held now =
     \<lparr>si_Token = tok,
      si_Candidates = Snapshot (pe_pool ev) (Some (pe_online ev)) (pe_ids ev) (pe_onl ev),
      si_LeasedByOthers = held, si_Now = now\<rparr>"

text \<open>The second and last attempt, after another goroutine took the device.\<close>

definition Pick_retry ::
    "selector_fun \<Rightarrow> pick_env \<Rightarrow> UserToken \<Rightarrow> StickyLeases \<Rightarrow> (sched_error + string \<times> Handle) \<times> StickyLeases" where
  "Pick_retry pick ev tok sl =
     (let sl = pe_others ev 3 sl;
          (held, sl) = HeldDeviceIDs (pe_clk ev 5) (UserKey tok) (pe_walk ev 1 sl) sl in
      case pick (select_input ev tok held (pe_clk ev 6)) of
        Inl e \<Rightarrow> (Inl (SelectErr e), sl)
      | Inr dev \<Rightarrow>
          (case Acquire (pe_clk ev 7) (pe_clk ev 8) (UserKey tok) dev (tok_Country tok) (tok_Duration tok)
                  (pe_others ev 4 sl) of
             (Inl e, sl) \<Rightarrow> (Inl (AcquireErr e), sl)
           | (Inr (a, h), sl) \<Rightarrow> (Inr (dev, h), sl)))"

definition Pick_fresh ::
    "selector_fun \<Rightarrow> pick_env \<Rightarrow> UserToken \<Rightarrow> StickyLeases \<Rightarrow> (sched_error + string \<times> Handle) \<times> StickyLeases" where
  "Pick_fresh pick ev tok sl =
     (let sl = pe_others ev 1 sl;
          (held, sl) = HeldDeviceIDs (pe_clk ev 1) (UserKey tok) (pe_walk ev 0 sl) sl in
      case pick (select_input ev tok held (pe_clk ev 2)) of
        Inl e \<Rightarrow> (Inl (SelectErr e), sl)
      | Inr dev \<Rightarrow>
          (case Acquire (pe_clk ev 3) (pe_clk ev 4) (UserKey tok) dev (tok_Country tok) (tok_Duration tok)
                  (pe_others ev 2 sl) of
             (Inl e, sl) \<Rightarrow> Pick_retry pick ev tok sl
           | (Inr (a, h), sl) \<Rightarrow> (Inr (dev, h), sl)))"

definition Pick ::
    "selector_fun \<Rightarrow> pick_env \<Rightarrow> string \<Rightarrow> StickyLeases \<Rightarrow> (sched_error + string \<times> Handle) \<times> StickyLeases" where
  "Pick pick ev username sl =
     (if pe_ctx_err ev then (Inl CtxErr, sl)
      else case ParseUsername username of
        Inl e \<Rightarrow> (Inl (UsernameErr e), sl)
      | Inr tok \<Rightarrow>
         if pe_online ev = {} then (Inl NoDevicesOnline, sl)
         else case GetActive (pe_clk ev 0) (UserKey tok) (pe_others ev 0 sl) of
             (None, sl) \<Rightarrow> Pick_fresh pick ev tok sl
           | (Some a, sl) \<Rightarrow>
               if l_DeviceID (lease_at sl a) \<in> pe_online ev
               then let (h, sl') = AcquireRef a (pe_others ev 1 sl) in (Inr (l_DeviceID (lease_at sl a), h), sl')
               else Pick_fresh pick ev tok sl)"

subsection \<open>WrapConn\<close>

text \<open>
  A wrapped connection. The error of the underlying \<open>Close\<close> is an argument of each call; it is
  used only by the call that really closes. \<open>WrapConn\<close> returns the connection itself when there
  is no handle.
\<close>

record 'e leasedConn =
  lc_h :: Handle
  lc_closed :: bool
  lc_closeErr :: "'e option"
  lc_conn_closes :: nat

definition WrapConn :: "Handle option \<Rightarrow> 'e leasedConn option" where
  "WrapConn h = map_option (\<lambda>h. \<lparr>lc_h = h, lc_closed = False, lc_closeErr = None, lc_conn_closes = 0\<rparr>) h"

definition leasedConn_Close ::
    "'e option \<Rightarrow> 'e leasedConn \<times> StickyLeases \<Rightarrow> 'e option \<times> ('e leasedConn \<times> StickyLeases)" where
  "leasedConn_Close err s =
     (case s of (lc, sl) \<Rightarrow>
        if lc_closed lc then (lc_closeErr lc, (lc, sl))
        else (err, (lc\<lparr>lc_closed := True, lc_closeErr := err, lc_conn_closes := Suc (lc_conn_closes lc)\<rparr>,
                    Handle_Close (lc_h lc) sl)))"

subsection \<open>The environment of a call\<close>

text \<open>
  The walks enumerate the maps they walk over, and the other goroutines only call methods of the
  lease table. \<open>alone\<close> says that nobody else acts during the call.
\<close>

definition walks_ok :: "pick_env \<Rightarrow> bool" where
  "walks_ok ev \<longleftrightarrow>
     (\<forall>k sl. finite (dom (sl_byDev sl)) \<longrightarrow> enumerates (pe_walk ev k sl) (sl_byDev sl)) \<and>
     enumerates (pe_ids ev) (pe_pool ev) \<and> enumerates_set (pe_onl ev) (Some (pe_online ev))"

definition only_calls :: "pick_env \<Rightarrow> bool" where
  "only_calls ev \<longleftrightarrow> (\<forall>k sl. \<exists>calls. run lease_step sl calls (pe_others ev k sl))"

definition alone :: "pick_env \<Rightarrow> bool" where
  "alone ev \<longleftrightarrow> (\<forall>k sl. pe_others ev k sl = sl)"

lemma alone_only_calls: "alone ev \<Longrightarrow> only_calls ev"
  by (auto simp: alone_def only_calls_def)

lemma others_inv: "only_calls ev \<Longrightarrow> leases_inv sl \<Longrightarrow> leases_inv (pe_others ev k sl)"
  by (metis leases.run_inv only_calls_def)

lemma others_same: "only_calls ev \<Longrightarrow> leases_inv sl \<Longrightarrow> same_lease a sl (pe_others ev k sl)"
  by (metis same_lease_run only_calls_def)

lemma walk_enumerates: "walks_ok ev \<Longrightarrow> leases_inv sl \<Longrightarrow> enumerates (pe_walk ev k sl) (sl_byDev sl)"
  by (simp add: walks_ok_def finite_byDev)

lemma snapshot_set:
  assumes "walks_ok ev"
  shows "set (si_Candidates (select_input ev tok held now)) =
         (\<lambda>d. candidate_of d (stats_of (pe_pool ev) d)) ` pe_online ev"
proof -
  have en: "enumerates (pe_ids ev) (pe_pool ev)" "enumerates_set (pe_onl ev) (Some (pe_online ev))"
    using assms by (simp_all add: walks_ok_def)
  then have fin: "finite (listed_ids (pe_pool ev) (Some (pe_online ev)))"
    by (auto simp: enumerates_set_def listed_ids_def)
      (metis List.finite_set)
  then show ?thesis
    using Snapshot_spec[OF en fin] by (simp add: select_input_def listed_ids_def)
qed

lemma snapshot_ids:
  "walks_ok ev \<Longrightarrow> cand_DeviceID ` set (si_Candidates (select_input ev tok held now)) = pe_online ev"
  by (simp add: snapshot_set image_image)

text \<open>The handle \<open>h\<close> is an open handle on the current lease of user \<open>u\<close>, which is for device \<open>d\<close>.\<close>

definition holds :: "string \<Rightarrow> string \<Rightarrow> Handle \<Rightarrow> StickyLeases \<Rightarrow> bool" where
  "holds u d h sl \<longleftrightarrow>
     (\<exists>n a. h = LeaseHandle n \<and> n \<in> open_handles sl a \<and> sl_byUser sl u = Some a \<and>
        l_DeviceID (lease_at sl a) = d)"

lemma holds_bound: "holds u d h sl \<Longrightarrow> \<exists>b. bindings sl u = Some b \<and> b_DeviceID b = d"
  by (auto simp: holds_def bindings_def)

lemma Acquire_holds:
  assumes "leases_inv sl" "fst (Acquire now1 now2 u d c ttl sl) = Inr (a, h)"
  defines "sl' \<equiv> snd (Acquire now1 now2 u d c ttl sl)"
  shows "leases_inv sl' \<and> holds u d h sl'"
proof -
  note A = Acquire_Inr[OF assms(1,2), folded sl'_def]
  have "bindings sl' u = Some \<lparr>b_DeviceID = d, b_Country = c, b_Expires = time_Add now2 ttl\<rparr>"
    using A(2) by (simp add: abs_Acquire_def)
  then have "b_DeviceID (binding_of (lease_at sl' a)) = d"
    using A(4) by (simp add: bindings_def del: binding_of_sel)
  then show ?thesis using A(1,3,4) by (auto simp: holds_def)
qed

lemma AcquireRef_holds:
  assumes "leases_inv sl" "AcquireRef a sl = (h, sl')" "l_UserKey (lease_at sl a) = u"
  shows "leases_inv sl' \<and>
    (holds u (l_DeviceID (lease_at sl a)) h sl' \<or> h = NoopHandle \<and> sl' = sl \<and> sl_byUser sl u \<noteq> Some a)"
proof -
  have "leases_inv sl'" using leases_inv_AcquireRef[OF assms(1), of a] assms(2) by simp
  moreover have "holds u (l_DeviceID (lease_at sl a)) h sl'" if "sl_byUser sl u = Some a"
  proof -
    let ?s = "set_refcount a (l_refcount (lease_at sl a) + 1) sl"
    have "h = fst (new_handle a ?s)" "sl' = snd (new_handle a ?s)"
      using assms that by (simp_all add: AcquireRef_cases)
    then have "h = LeaseHandle (sl_hnext sl)" "sl_hnext sl \<in> open_handles sl' a"
      "sl_byUser sl' u = Some a" "lease_at sl' a = lease_at ?s a"
      using that by (simp_all add: open_handles_def new_handle_def lease_at_def)
    then show ?thesis by (simp add: holds_def)
  qed
  ultimately show ?thesis
    using assms by (auto simp: AcquireRef_cases split: if_splits)
qed

lemma held_by_other_later:
  "unexpired now' B v = Some b \<Longrightarrow> v \<noteq> u \<Longrightarrow> now \<le> now' \<Longrightarrow> held_by_other now B u (b_DeviceID b)"
  unfolding held_by_other_def unexpired_Some Before_def by (intro exI[of _ v] exI[of _ b]) auto

lemma unexpired_unexpired: "unexpired now' (unexpired now B) v = Some b \<Longrightarrow> unexpired now' B v = Some b"
  by (simp add: unexpired_Some)

subsection \<open>Pick with any selector\<close>

context selector
begin

lemma Pick_retry_ok:
  assumes "leases_inv sl" "walks_ok ev" "only_calls ev" "Pick_retry pick ev tok sl = (Inr (d, h), sl')"
  shows "leases_inv sl' \<and> d \<in> pe_online ev \<and> holds (UserKey tok) d h sl'"
proof -
  let ?s = "pe_others ev 3 sl"
  let ?H = "HeldDeviceIDs (pe_clk ev 5) (UserKey tok) (pe_walk ev 1 ?s) ?s"
  let ?A = "Acquire (pe_clk ev 7) (pe_clk ev 8) (UserKey tok) d (tok_Country tok) (tok_Duration tok)
                  (pe_others ev 4 (snd ?H))"
  obtain a where p: "pick (select_input ev tok (fst ?H) (pe_clk ev 6)) = Inr d"
    and acq: "fst ?A = Inr (a, h)" and sl': "sl' = snd ?A"
    using assms(4) by (auto simp: Pick_retry_def Let_def split_def split: sum.splits prod.splits)
  have "leases_inv (snd ?H)"
    using leases_inv_Held walk_enumerates others_inv assms(1-3) by blast
  then show ?thesis
    using Acquire_holds[OF others_inv[OF assms(3)] acq] pick_candidate[OF p] snapshot_ids[OF assms(2)]
    by (auto simp: sl')
qed

lemma Pick_fresh_ok:
  assumes "leases_inv sl" "walks_ok ev" "only_calls ev" "Pick_fresh pick ev tok sl = (Inr (d, h), sl')"
  shows "leases_inv sl' \<and> d \<in> pe_online ev \<and> holds (UserKey tok) d h sl'"
proof -
  let ?s = "pe_others ev 1 sl"
  let ?H = "HeldDeviceIDs (pe_clk ev 1) (UserKey tok) (pe_walk ev 0 ?s) ?s"
  obtain dev where p: "pick (select_input ev tok (fst ?H) (pe_clk ev 2)) = Inr dev"
    using assms(4) by (auto simp: Pick_fresh_def Let_def split_def split: sum.splits prod.splits)
  let ?A = "Acquire (pe_clk ev 3) (pe_clk ev 4) (UserKey tok) dev (tok_Country tok) (tok_Duration tok)
                  (pe_others ev 2 (snd ?H))"
  have inv: "leases_inv (pe_others ev 2 (snd ?H))"
    using leases_inv_Held walk_enumerates others_inv assms(1-3) by blast
  show ?thesis
  proof (cases "fst ?A")
    case (Inl e)
    then have "Pick_retry pick ev tok (snd ?A) = (Inr (d, h), sl')"
      using assms(4) p by (auto simp: Pick_fresh_def Let_def split_def split: prod.splits)
    then show ?thesis using Pick_retry_ok assms(2,3) leases_inv_Acquire[OF inv] by blast
  next
    case (Inr r)
    then have A: "dev = d" "fst ?A = Inr (fst r, h)" "snd ?A = sl'"
      using assms(4) p by (auto simp: Pick_fresh_def Let_def split_def split: prod.splits)
    then show ?thesis
      using Acquire_holds[OF inv A(2)] A pick_candidate[OF p] snapshot_ids[OF assms(2)] by auto
  qed
qed

lemma Pick_ok:
  assumes "leases_inv sl" "walks_ok ev" "only_calls ev" "Pick pick ev username sl = (Inr (d, h), sl')"
  shows "leases_inv sl' \<and> d \<in> pe_online ev \<and>
    (\<exists>tok. ParseUsername username = Inr tok \<and> (holds (UserKey tok) d h sl' \<or> h = NoopHandle))"
proof -
  obtain tok where tok: "ParseUsername username = Inr tok" and on: "\<not> pe_ctx_err ev" "pe_online ev \<noteq> {}"
    using assms(4) by (auto simp: Pick_def split: if_splits sum.splits)
  let ?G = "GetActive (pe_clk ev 0) (UserKey tok) (pe_others ev 0 sl)"
  have inv: "leases_inv (snd ?G)"
    using assms(1,3) by (simp add: leases_inv_GetActive others_inv)
  consider (fresh) "Pick_fresh pick ev tok (snd ?G) = (Inr (d, h), sl')"
    | (sticky) a where "fst ?G = Some a" "l_DeviceID (lease_at (snd ?G) a) = d" "d \<in> pe_online ev"
        "AcquireRef a (pe_others ev 1 (snd ?G)) = (h, sl')"
    using assms(4) tok on
    by (auto simp: Pick_def Let_def split_def split: prod.splits option.splits if_splits)
  then show ?thesis
  proof cases
    case fresh
    then show ?thesis using Pick_fresh_ok[OF inv assms(2,3)] tok by auto
  next
    case (sticky a)
    let ?o = "pe_others ev 1 (snd ?G)"
    have "sl_byUser (snd ?G) (UserKey tok) = Some a"
      using sticky(1) GetActive_hit[OF sticky(1)] by (simp add: fst_GetActive)
    note a = byUserD[OF leases_invD[OF inv] this]
    have "same_lease a (snd ?G) ?o" using others_same[OF assms(3) inv] .
    then have "l_UserKey (lease_at ?o a) = UserKey tok" "l_DeviceID (lease_at ?o a) = d"
      using a sticky(2) by (auto simp: same_lease_def binding_of_def)
    then show ?thesis
      using AcquireRef_holds[OF others_inv[OF assms(3) inv] sticky(4)] sticky(3) tok by auto
  qed
qed

text \<open>Without interference the retry is never reached, provided the clock does not go back.\<close>

lemma Pick_fresh_alone:
  fixes tok :: UserToken
  assumes "leases_inv sl" "walks_ok ev" "alone ev" "pe_clk ev 1 \<le> pe_clk ev 3"
  defines "i \<equiv> select_input ev tok
      {d. held_by_other (pe_clk ev 1) (bindings sl) (UserKey tok) d} (pe_clk ev 2)"
  shows "case pick i of
      Inl e \<Rightarrow> fst (Pick_fresh pick ev tok sl) = Inl (SelectErr e) \<and>
               sl_handles (snd (Pick_fresh pick ev tok sl)) = sl_handles sl
    | Inr d \<Rightarrow> \<exists>h. fst (Pick_fresh pick ev tok sl) = Inr (d, h)"
proof -
  let ?H = "HeldDeviceIDs (pe_clk ev 1) (UserKey tok) (pe_walk ev 0 sl) sl"
  have en: "enumerates (pe_walk ev 0 sl) (sl_byDev sl)" by (rule walk_enumerates[OF assms(2,1)])
  have i: "select_input ev tok (fst ?H) (pe_clk ev 2) = i"
    by (simp add: i_def Held_result[OF assms(1) en])
  show ?thesis
  proof (cases "pick i")
    case (Inl e)
    then show ?thesis using i assms(3) by (simp add: Pick_fresh_def Let_def split_def alone_def)
  next
    case (Inr d)
    let ?A = "Acquire (pe_clk ev 3) (pe_clk ev 4) (UserKey tok) d (tok_Country tok) (tok_Duration tok) (snd ?H)"
    have "\<not> held_by_other (pe_clk ev 1) (bindings sl) (UserKey tok) d"
      using pick_free[OF Inr] by (simp add: i_def select_input_def)
    then have "\<nexists>v b. v \<noteq> UserKey tok \<and> unexpired (pe_clk ev 3) (bindings (snd ?H)) v = Some b \<and> b_DeviceID b = d"
      using held_by_other_later[OF _ _ assms(4)] unfolding bindings_Held[OF assms(1) en]
      by (blast dest: unexpired_unexpired)
    then have "\<nexists>e. fst ?A = Inl e"
      using Acquire_Inl[OF leases_inv_Held[OF assms(1) en]] by blast
    then obtain a h where "fst ?A = Inr (a, h)" by (cases "fst ?A") auto
    then show ?thesis
      using Inr i assms(3) by (auto simp: Pick_fresh_def Let_def split_def alone_def split: prod.splits)
  qed
qed

lemma Pick_sticky:
  assumes "leases_inv sl" "alone ev" "\<not> pe_ctx_err ev" "ParseUsername username = Inr tok"
    "unexpired (pe_clk ev 0) (bindings sl) (UserKey tok) = Some b" "b_DeviceID b \<in> pe_online ev"
  shows "(\<exists>h. fst (Pick pick ev username sl) = Inr (b_DeviceID b, h) \<and>
            holds (UserKey tok) (b_DeviceID b) h (snd (Pick pick ev username sl))) \<and>
         bindings (snd (Pick pick ev username sl)) = bindings sl"
proof -
  have "map_option (\<lambda>a. binding_of (lease_at sl a)) (fst (GetActive (pe_clk ev 0) (UserKey tok) sl)) = Some b"
    using assms(5) by (simp add: GetActive_unexpired)
  then obtain a where a: "fst (GetActive (pe_clk ev 0) (UserKey tok) sl) = Some a"
    "b = binding_of (lease_at sl a)" by auto
  have user: "sl_byUser sl (UserKey tok) = Some a" using a(1) by (simp add: fst_GetActive)
  note dev = byUserD[OF leases_invD[OF assms(1)] user]
  have dev_a: "l_DeviceID (lease_at sl a) = b_DeviceID b" using a(2) by simp
  have act: "GetActive (pe_clk ev 0) (UserKey tok) sl = (Some a, sl)"
    using a(1) GetActive_hit[OF a(1)] by (simp add: prod_eq_iff)
  obtain h sl' where ref: "AcquireRef a sl = (h, sl')" by fastforce
  have P: "Pick pick ev username sl = (Inr (b_DeviceID b, h), sl')"
    using assms(2-4,6) act ref dev_a by (auto simp: Pick_def alone_def)
  have "holds (UserKey tok) (b_DeviceID b) h sl'"
    using AcquireRef_holds[OF assms(1) ref dev(2)] user dev_a by auto
  moreover have "bindings sl' = bindings sl"
    using bindings_AcquireRef[of a sl] ref by simp
  ultimately show ?thesis by (simp add: P)
qed

lemma Pick_alone:
  assumes "leases_inv sl" "walks_ok ev" "alone ev" "pe_clk ev 1 \<le> pe_clk ev 3"
    "\<not> pe_ctx_err ev" "ParseUsername username = Inr tok" "pe_online ev \<noteq> {}"
    "\<And>b. unexpired (pe_clk ev 0) (bindings sl) (UserKey tok) = Some b \<Longrightarrow> b_DeviceID b \<notin> pe_online ev"
  defines "i \<equiv> select_input ev tok
      {d. held_by_other (pe_clk ev 1) (bindings sl) (UserKey tok) d} (pe_clk ev 2)"
  shows "case pick i of
      Inl e \<Rightarrow> fst (Pick pick ev username sl) = Inl (SelectErr e) \<and>
               sl_handles (snd (Pick pick ev username sl)) = sl_handles sl
    | Inr d \<Rightarrow> \<exists>h. fst (Pick pick ev username sl) = Inr (d, h)"
proof -
  let ?G = "GetActive (pe_clk ev 0) (UserKey tok) sl"
  let ?s = "snd ?G"
  have P: "Pick pick ev username sl = Pick_fresh pick ev tok ?s"
  proof (cases "fst ?G")
    case None
    then show ?thesis using assms(3,5,6,7)
      by (auto simp: Pick_def alone_def split: prod.split)
  next
    case (Some a)
    have "unexpired (pe_clk ev 0) (bindings sl) (UserKey tok) = Some (binding_of (lease_at sl a))"
      using GetActive_unexpired[of sl "pe_clk ev 0" "UserKey tok"] Some by simp
    then have "l_DeviceID (lease_at sl a) \<notin> pe_online ev" using assms(8) by fastforce
    moreover have "?G = (Some a, sl)" using Some GetActive_hit[OF Some] by (simp add: prod_eq_iff)
    ultimately show ?thesis using assms(3,5,6,7) by (auto simp: Pick_def alone_def)
  qed
  have "held_by_other (pe_clk ev 1) (bindings ?s) (UserKey tok) d \<longleftrightarrow>
        held_by_other (pe_clk ev 1) (bindings sl) (UserKey tok) d" for d
    by (auto simp: held_by_other_def bindings_GetActive[OF assms(1)] unexpired_def)
  then show ?thesis
    using Pick_fresh_alone[OF leases_inv_GetActive[OF assms(1)] assms(2-4), of tok "pe_clk ev 0" "UserKey tok"]
    unfolding P i_def GetActive_handles by simp
qed

end

subsection \<open>What the scheduler promises\<close>

text \<open>
  C1. Whatever other goroutines do to the lease table during the call, a successful pick with a
  counted handle returns an online device to which the user is bound when the call returns, the
  handle is open on that lease, and no other user is bound to the device.
\<close>

theorem Pick_success:
  assumes "run lease_step NewLeases calls sl" "walks_ok ev" "only_calls ev"
    and "Pick (ScoredSelector_Pick s) ev username sl = (Inr (d, h), sl')" "h \<noteq> NoopHandle"
  shows "d \<in> pe_online ev \<and>
    (\<exists>tok. ParseUsername username = Inr tok \<and> holds (UserKey tok) d h sl' \<and>
       (\<forall>v b. v \<noteq> UserKey tok \<and> bindings sl' v = Some b \<longrightarrow> b_DeviceID b \<noteq> d))"
proof -
  have P: "leases_inv sl'" "d \<in> pe_online ev"
    "\<exists>tok. ParseUsername username = Inr tok \<and> holds (UserKey tok) d h sl'"
    using scored.Pick_ok[OF history_leases_inv[OF assms(1)] assms(2-4)] assms(5) by auto
  moreover have "v = UserKey tok"
    if "holds (UserKey tok) d h sl'" "bindings sl' v = Some b" "b_DeviceID b = d" for tok v b
    using holds_bound[OF that(1)] bindings_exclusive[OF leases_invD[OF P(1)] that(2)] that(3) by auto
  ultimately show ?thesis by blast
qed

text \<open>A user who already holds a lease on the only online device, and a quiet environment.\<close>

definition demo_table :: StickyLeases where
  "demo_table = exec_calls [CallAcquire 0 0 ''B_1:abcdefgh'' ''d1'' '''' 100] NewLeases"

definition demo_env :: "gotime \<Rightarrow> pick_env" where
  "demo_env now =
     \<lparr>pe_ctx_err = False, pe_online = {''d1''}, pe_pool = Map.empty, pe_ids = [], pe_onl = [''d1''],
      pe_walk = (\<lambda>k sl. sorted_list_of_set (dom (sl_byDev sl))), pe_clk = (\<lambda>k. now),
      pe_others = (\<lambda>k sl. sl)\<rparr>"

lemma demo_env_ok: "walks_ok (demo_env now)" "alone (demo_env now)"
  by (simp_all add: demo_env_def walks_ok_def alone_def enumerates_def enumerates_set_def)

lemma demo_table_val:
  "demo_table = \<lparr>sl_heap = [0 \<mapsto> \<lparr>l_UserKey = ''B_1:abcdefgh'', l_DeviceID = ''d1'', l_Country = '''',
                                  l_Expires = 100, l_refcount = 1\<rparr>],
     sl_next = 1, sl_handles = [0 \<mapsto> \<lparr>h_lease = 0, h_closed = False\<rparr>], sl_hnext = 1,
     sl_byUser = [''B_1:abcdefgh'' \<mapsto> 0], sl_byDev = [''d1'' \<mapsto> 0]\<rparr>"
  by (simp add: demo_table_def Acquire_def claim_device_def drop_old_def insert_lease_def
      new_handle_def NewLeases_def Let_def Before_def time_Add_def lease_at_def)

lemma demo_table_run:
  "run lease_step NewLeases [CallAcquire 0 0 ''B_1:abcdefgh'' ''d1'' '''' 100] demo_table"
  by (simp add: demo_table_def)

lemma demo_parse:
  "ParseUsername ''B_1__10_abcdefgh'' =
     Inr \<lparr>tok_UserID = ''B_1'', tok_Country = '''', tok_Duration = 600000000000, tok_Session = ''abcdefgh''\<rparr>"
  by code_simp

lemma demo_sticky_pick:
  "Pick pick (demo_env 50) ''B_1__10_abcdefgh'' demo_table =
     (Inr (''d1'', LeaseHandle 1), snd (AcquireRef 0 demo_table))"
  by (simp add: Pick_def demo_parse demo_env_def demo_table_val UserKey_def AuthKey_def GetActive_def
      AcquireRef_def new_handle_def lease_at_def Before_def Let_def)

theorem Pick_success_witness:
  "''d1'' \<in> pe_online (demo_env 50) \<and>
   (\<exists>tok. ParseUsername ''B_1__10_abcdefgh'' = Inr tok \<and>
      holds (UserKey tok) ''d1'' (LeaseHandle 1) (snd (AcquireRef 0 demo_table)))"
  using Pick_success[OF demo_table_run demo_env_ok(1) alone_only_calls[OF demo_env_ok(2)]
      demo_sticky_pick[of "ScoredSelector_Pick NewScoredSelector"]] by auto

text \<open>
  C32. IP stickiness: when nobody interferes, a user with an unexpired lease on a device that is
  online gets that device again, with a handle counted on the lease, and no binding of any user
  changes.
\<close>

theorem Pick_is_sticky:
  assumes "run lease_step NewLeases calls sl" "alone ev" "\<not> pe_ctx_err ev"
    and "ParseUsername username = Inr tok" "bindings sl (UserKey tok) = Some b"
    and "Before (pe_clk ev 0) (b_Expires b)" "b_DeviceID b \<in> pe_online ev"
  shows "(\<exists>h. fst (Pick (ScoredSelector_Pick s) ev username sl) = Inr (b_DeviceID b, h) \<and>
            holds (UserKey tok) (b_DeviceID b) h (snd (Pick (ScoredSelector_Pick s) ev username sl))) \<and>
         bindings (snd (Pick (ScoredSelector_Pick s) ev username sl)) = bindings sl"
  using assms(5,6) scored.Pick_sticky[OF history_leases_inv[OF assms(1)] assms(2-4) _ assms(7)]
  by (simp add: unexpired_Some)

theorem Pick_is_sticky_witness:
  "\<exists>h. fst (Pick (ScoredSelector_Pick NewScoredSelector) (demo_env 99) ''B_1__10_abcdefgh'' demo_table) =
        Inr (''d1'', h)"
proof -
  have b: "bindings demo_table ''B_1:abcdefgh'' = Some \<lparr>b_DeviceID = ''d1'', b_Country = '''', b_Expires = 100\<rparr>"
    by (simp add: demo_table_val bindings_def lease_at_def binding_of_def)
  show ?thesis
    using Pick_is_sticky[OF demo_table_run demo_env_ok(2) _ demo_parse, of 99
        "\<lparr>b_DeviceID = ''d1'', b_Country = '''', b_Expires = 100\<rparr>" NewScoredSelector]
    by (auto simp: UserKey_def AuthKey_def b demo_env_def Before_def)
qed

text \<open>
  C9. When nobody interferes and the clock does not go back, a well-formed request succeeds
  exactly when the user's unexpired lease is on an online device or some online device is eligible
  (country, freshness, not held by another user); otherwise the error is the selector's, never a
  lost race, and no handle has been created.
\<close>

theorem Pick_complete:
  assumes "run lease_step NewLeases calls sl" "walks_ok ev" "alone ev" "pe_clk ev 1 \<le> pe_clk ev 3"
    and "\<not> pe_ctx_err ev" "ParseUsername username = Inr tok" "pe_online ev \<noteq> {}"
  defines "i \<equiv> select_input ev tok
      {d. held_by_other (pe_clk ev 1) (bindings sl) (UserKey tok) d} (pe_clk ev 2)"
  shows "((\<exists>d h. fst (Pick (ScoredSelector_Pick s) ev username sl) = Inr (d, h)) \<longleftrightarrow>
           (\<exists>b. unexpired (pe_clk ev 0) (bindings sl) (UserKey tok) = Some b \<and> b_DeviceID b \<in> pe_online ev) \<or>
           (\<exists>d \<in> pe_online ev. eligible s i (candidate_of d (stats_of (pe_pool ev) d)))) \<and>
         (\<forall>e. fst (Pick (ScoredSelector_Pick s) ev username sl) = Inl e \<longrightarrow>
            (\<exists>e'. e = SelectErr e') \<and>
            sl_handles (snd (Pick (ScoredSelector_Pick s) ev username sl)) = sl_handles sl)"
proof (cases "\<exists>b. unexpired (pe_clk ev 0) (bindings sl) (UserKey tok) = Some b \<and> b_DeviceID b \<in> pe_online ev")
  case True
  then obtain b where "unexpired (pe_clk ev 0) (bindings sl) (UserKey tok) = Some b"
    "b_DeviceID b \<in> pe_online ev" by blast
  then have "\<exists>d h. fst (Pick (ScoredSelector_Pick s) ev username sl) = Inr (d, h)"
    using scored.Pick_sticky[OF history_leases_inv[OF assms(1)] assms(3,5,6)] by blast
  then show ?thesis using True by force
next
  case False
  then have "case ScoredSelector_Pick s i of
      Inl e \<Rightarrow> fst (Pick (ScoredSelector_Pick s) ev username sl) = Inl (SelectErr e) \<and>
               sl_handles (snd (Pick (ScoredSelector_Pick s) ev username sl)) = sl_handles sl
    | Inr d \<Rightarrow> \<exists>h. fst (Pick (ScoredSelector_Pick s) ev username sl) = Inr (d, h)"
    unfolding i_def by (intro scored.Pick_alone history_leases_inv[OF assms(1)] assms(2-7)) blast
  moreover have "(\<exists>e. ScoredSelector_Pick s i = Inl e) \<longleftrightarrow>
      (\<forall>d \<in> pe_online ev. \<not> eligible s i (candidate_of d (stats_of (pe_pool ev) d)))"
    unfolding scored.pick_error_iff by (simp add: i_def snapshot_set[OF assms(2)])
  ultimately show ?thesis using False by (auto split: sum.splits)
qed

theorem Pick_complete_witness:
  "\<exists>d h. fst (Pick (ScoredSelector_Pick NewScoredSelector) (demo_env 200) ''B_2__10_abcdefgh'' demo_table) =
        Inr (d, h)"
proof -
  have p: "ParseUsername ''B_2__10_abcdefgh'' =
      Inr \<lparr>tok_UserID = ''B_2'', tok_Country = '''', tok_Duration = 600000000000, tok_Session = ''abcdefgh''\<rparr>"
    by code_simp
  have "\<not> held_by_other 200 (bindings demo_table) u d" for u d
    by (auto simp: held_by_other_def unexpired_Some bindings_def demo_table_val lease_at_def Before_def
        split: if_splits)
  then have "eligible NewScoredSelector (select_input (demo_env 200)
      \<lparr>tok_UserID = ''B_2'', tok_Country = '''', tok_Duration = 600000000000, tok_Session = ''abcdefgh''\<rparr>
      {d. held_by_other 200 (bindings demo_table) ''B_2:abcdefgh'' d} 200)
      (candidate_of ''d1'' (stats_of Map.empty ''d1''))"
    by (simp add: eligible_def select_input_def candidate_of_def stats_of_def zero_stats_def IsZero_def)
  then show ?thesis
    using Pick_complete[OF demo_table_run demo_env_ok(1,2) _ _ p, of 200 NewScoredSelector]
    by (auto simp: demo_env_def UserKey_def AuthKey_def)
qed

definition race_env :: pick_env where
  "race_env = (demo_env 50)\<lparr>pe_others :=
     (\<lambda>k sl. if k = 1 then snd (Acquire 150 150 ''B_2:abcdefgh'' ''d1'' '''' 100 sl) else sl)\<rparr>"

lemma race_env_ok: "walks_ok race_env" "only_calls race_env"
proof -
  show "walks_ok race_env" using demo_env_ok(1)[of 50] by (simp add: race_env_def walks_ok_def)
  have "\<exists>calls. run lease_step sl calls (pe_others race_env k sl)" for k sl
  proof (cases "k = 1")
    case True
    then have "run lease_step sl [CallAcquire 150 150 ''B_2:abcdefgh'' ''d1'' '''' 100] (pe_others race_env k sl)"
      by (simp add: race_env_def)
    then show ?thesis by blast
  next
    case False
    then have "run lease_step sl [] (pe_others race_env k sl)" by (simp add: race_env_def demo_env_def)
    then show ?thesis by blast
  qed
  then show "only_calls race_env" by (simp add: only_calls_def)
qed

text \<open>
  The lease may expire and its device be taken between the lookup of the user's lease and
  the counting of the new handle. \<open>AcquireRef\<close> then returns a no-op handle, and \<open>Pick\<close>, which
  does not pick again, hands out a device that is bound to another user.
\<close>

theorem Pick_can_share_device:
  "\<exists>calls sl ev username tok d v b. run lease_step NewLeases calls sl \<and> walks_ok ev \<and> only_calls ev \<and>
     ParseUsername username = Inr tok \<and>
     fst (Pick (ScoredSelector_Pick NewScoredSelector) ev username sl) = Inr (d, NoopHandle) \<and>
     v \<noteq> UserKey tok \<and> b_DeviceID b = d \<and>
     bindings (snd (Pick (ScoredSelector_Pick NewScoredSelector) ev username sl)) v = Some b"
proof -
  let ?sl = "snd (Acquire 150 150 ''B_2:abcdefgh'' ''d1'' '''' 100 demo_table)"
  let ?b = "\<lparr>b_DeviceID = ''d1'', b_Country = '''', b_Expires = 250\<rparr>"
  have P: "Pick (ScoredSelector_Pick NewScoredSelector) race_env ''B_1__10_abcdefgh'' demo_table =
      (Inr (''d1'', NoopHandle), ?sl)"
    by (simp add: Pick_def demo_parse race_env_def demo_env_def demo_table_val UserKey_def AuthKey_def
        GetActive_def AcquireRef_def Acquire_def claim_device_def drop_old_def insert_lease_def
        evictLocked_def new_handle_def lease_at_def Before_def Let_def)
  have B: "bindings ?sl ''B_2:abcdefgh'' = Some ?b"
    by (simp add: demo_table_val Acquire_def claim_device_def drop_old_def insert_lease_def
        evictLocked_def new_handle_def lease_at_def Before_def time_Add_def Let_def bindings_def binding_of_def)
  show ?thesis
    using demo_table_run race_env_ok demo_parse
    by (intro exI[of _ "[CallAcquire 0 0 ''B_1:abcdefgh'' ''d1'' '''' 100]"] exI[of _ demo_table]
          exI[of _ race_env] exI[of _ "''B_1__10_abcdefgh''"] exI[of _ "''d1''"]
          exI[of _ "''B_2:abcdefgh''"] exI[of _ ?b] exI[of _ "\<lparr>tok_UserID = ''B_1'', tok_Country = '''',
          tok_Duration = 600000000000, tok_Session = ''abcdefgh''\<rparr>"])
       (simp add: P B UserKey_def AuthKey_def)
qed

subsection \<open>Wrapped connections\<close>

fun close_all :: "'e option list \<Rightarrow> 'e leasedConn \<times> StickyLeases \<Rightarrow> 'e option list \<times> ('e leasedConn \<times> StickyLeases)" where
  "close_all [] s = ([], s)"
| "close_all (err # errs) s =
     (let (r, s) = leasedConn_Close err s; (rs, s) = close_all errs s in (r # rs, s))"

lemma close_all_closed:
  "lc_closed lc \<Longrightarrow> close_all errs (lc, sl) = (replicate (length errs) (lc_closeErr lc), (lc, sl))"
  by (induction errs) (simp_all add: leasedConn_Close_def)

lemma open_handles_Close:
  "open_handles (Handle_Close (LeaseHandle n) sl) a = open_handles sl a - {n}"
  by (auto simp: Handle_Close_set simp del: Handle_Close.simps split: option.split)
     (auto simp: open_handles_def split: if_splits)

text \<open>
  However often a wrapped connection is closed, the underlying connection is closed once,
  every call returns the error of that one close, and exactly the wrapped handle is released.
\<close>

theorem WrapConn_closes_once:
  assumes "WrapConn (Some (LeaseHandle n)) = Some lc" "close_all (err # errs) (lc, sl) = (rs, (lc', sl'))"
  shows "rs = replicate (Suc (length errs)) err \<and> lc_conn_closes lc' = 1 \<and>
         sl' = Handle_Close (LeaseHandle n) sl \<and> (\<forall>a. open_handles sl' a = open_handles sl a - {n})"
proof -
  have lc: "lc = \<lparr>lc_h = LeaseHandle n, lc_closed = False, lc_closeErr = None, lc_conn_closes = 0\<rparr>"
    using assms(1) by (simp add: WrapConn_def)
  then have "rs = replicate (Suc (length errs)) err" "lc_conn_closes lc' = 1"
    "sl' = Handle_Close (LeaseHandle n) sl"
    using assms(2) by (auto simp: leasedConn_Close_def close_all_closed simp del: Handle_Close.simps)
  then show ?thesis by (simp add: open_handles_Close del: Handle_Close.simps)
qed

theorem WrapConn_closes_once_witness:
  "open_handles (snd (snd (close_all [Some ''reset'', None]
      (the (WrapConn (Some (LeaseHandle 0))), demo_table)))) 0 = open_handles demo_table 0 - {0}"
proof -
  obtain rs lc' sl' where c: "close_all [Some ''reset'', None]
      (the (WrapConn (Some (LeaseHandle 0))), demo_table) = (rs, (lc', sl'))"
    by (metis prod_cases3)
  have "WrapConn (Some (LeaseHandle 0)) = Some (the (WrapConn (Some (LeaseHandle 0))))"
    by (simp add: WrapConn_def)
  from WrapConn_closes_once[OF this c] show ?thesis unfolding c snd_conv by blast
qed

end
