(* ===== verification/Server_Config.thy ===== *)
theory Server_Config
  imports Go_Float
begin

text \<open>
  \<open>server/config/server.go\<close>: the server's settings after decoding, the JSON wire form with its raw
  duration fields, and the validator with its defaults. YAML and JSON decoding and
  \<open>time.ParseDuration\<close> are parameters.

  \<open>ToLower_is\<close> and \<open>EqualFold\<close> are exact for an ASCII right-hand side: apart from the ASCII letters
  only U+0130, U+212A and U+017F map to or fold with an ASCII letter.
\<close>

fun ToLower_is :: "string \<Rightarrow> string \<Rightarrow> bool" where
  "ToLower_is [] t = (t = [])"
| "ToLower_is (c # cs) [] = False"
| "ToLower_is (c # cs) (d # ds) =
     (if to_lower c = d then ToLower_is cs ds
      else if d = CHR ''i'' \<and> c = CHR 0xC4 then
        (case cs of c2 # cs' \<Rightarrow> c2 = CHR 0xB0 \<and> ToLower_is cs' ds | [] \<Rightarrow> False)
      else if d = CHR ''k'' \<and> c = CHR 0xE2 then
        (case cs of c2 # c3 # cs' \<Rightarrow> c2 = CHR 0x84 \<and> c3 = CHR 0xAA \<and> ToLower_is cs' ds | _ \<Rightarrow> False)
      else False)"

fun EqualFold :: "string \<Rightarrow> string \<Rightarrow> bool" where
  "EqualFold [] t = (t = [])"
| "EqualFold (c # cs) [] = False"
| "EqualFold (c # cs) (d # ds) =
     (if to_lower c = to_lower d then EqualFold cs ds
      else if to_lower d = CHR ''s'' \<and> c = CHR 0xC5 then
        (case cs of c2 # cs' \<Rightarrow> c2 = CHR 0xBF \<and> EqualFold cs' ds | [] \<Rightarrow> False)
      else if to_lower d = CHR ''k'' \<and> c = CHR 0xE2 then
        (case cs of c2 # c3 # cs' \<Rightarrow> c2 = CHR 0x84 \<and> c3 = CHR 0xAA \<and> EqualFold cs' ds | _ \<Rightarrow> False)
      else False)"

record ServerCfg =
  SocksListen :: string
  DeviceListen :: string
  TLSCertFile :: string
  TLSKeyFile :: string
  SocksAuthPassword :: string
  SocksCredentialsFile :: string
  SocksCredentialsRefresh :: duration
  SocksIPWhitelistFile :: string
  SocksIPWhitelistURL :: string
  SocksIPWhitelistRefresh :: duration
  SessionHeartbeatTimeout :: duration
  DeviceWaitTimeout :: duration
  ConnectResultTimeout :: duration
  LogLevel :: string
  LogFormat :: string
  DeviceLogFile :: string
  SocksLogFile :: string
  ShutdownTimeout :: duration
  GeoIPDBPath :: string
  NSQdTCPAddr :: string
  HeartbeatTopic :: string
  SocksUsernameScheme :: string
  SchedulerLossPenaltyMs :: f64
  SchedulerDefaultRTTms :: int
  SchedulerStaleAfter :: duration
  SchedulerSweepInterval :: duration

datatype config_error =
    Required string
  | BadScheme string
  | BadDuration string
  | DecodeErr string

text \<open>The defaults for fields that are zero.\<close>

definition default0 :: "duration \<Rightarrow> duration \<Rightarrow> duration" where
  "default0 d x = (if x = 0 then d else x)"

definition validateServer :: "ServerCfg \<Rightarrow> config_error + ServerCfg" where
  "validateServer s =
     (if SocksListen s = '''' then Inl (Required ''socks_listen'')
      else if DeviceListen s = '''' then Inl (Required ''device_listen'')
      else if TLSCertFile s = '''' \<or> TLSKeyFile s = '''' then Inl (Required ''tls_cert_file and tls_key_file'')
      else
        let s = s\<lparr>ConnectResultTimeout := default0 (30 * Second) (ConnectResultTimeout s),
                  ShutdownTimeout := default0 (10 * Second) (ShutdownTimeout s),
                  SocksCredentialsRefresh := default0 Minute (SocksCredentialsRefresh s),
                  SocksIPWhitelistRefresh := default0 Minute (SocksIPWhitelistRefresh s)\<rparr>;
            scheme = TrimSpace (SocksUsernameScheme s)
        in if ToLower_is scheme '''' \<or> ToLower_is scheme ''device_id'' \<or> ToLower_is scheme ''scheduler''
           then Inr (s\<lparr>SchedulerSweepInterval := default0 Minute (SchedulerSweepInterval s)\<rparr>)
           else Inl (BadScheme (SocksUsernameScheme s)))"

text \<open>
  The anonymous wire struct of \<open>ParseServerJSON\<close>: strings and numbers as decoded, durations as raw
  messages.
\<close>

record ServerWire =
  ws_cfg :: ServerCfg   \<comment> \<open>the fields that are copied as they are; its durations are zero\<close>
  ws_SessionHeartbeatTimeout :: string
  ws_DeviceWaitTimeout :: string
  ws_ConnectResultTimeout :: string
  ws_ShutdownTimeout :: string
  ws_SocksCredentialsRefresh :: string
  ws_SocksIPWhitelistRefresh :: string
  ws_SchedulerStaleAfter :: string
  ws_SchedulerSweepInterval :: string

text \<open>
  \<open>unstr\<close> and \<open>unint\<close> decode a JSON string and a JSON integer, \<open>pdur\<close> is \<open>time.ParseDuration\<close>.
\<close>

definition parseJSONDurationField ::
    "(string \<Rightarrow> string option) \<Rightarrow> (string \<Rightarrow> int option) \<Rightarrow> (string \<Rightarrow> duration option) \<Rightarrow> string \<Rightarrow> string \<Rightarrow>
     config_error + duration" where
  "parseJSONDurationField unstr unint pdur raw nm =
     (if length raw = 0 then Inr 0
      else case unstr raw of
        Some s \<Rightarrow> (case pdur s of None \<Rightarrow> Inl (BadDuration nm) | Some d \<Rightarrow> Inr d)
      | None \<Rightarrow> (case unint raw of None \<Rightarrow> Inl (BadDuration nm) | Some ns \<Rightarrow> Inr ns))"

definition server_of_wire ::
    "(string \<Rightarrow> string \<Rightarrow> config_error + duration) \<Rightarrow> ServerWire \<Rightarrow> config_error + ServerCfg" where
  "server_of_wire dur w =
     (case dur (ws_SessionHeartbeatTimeout w) ''session_heartbeat_timeout'' of Inl e \<Rightarrow> Inl e | Inr d1 \<Rightarrow>
     (case dur (ws_DeviceWaitTimeout w) ''device_wait_timeout'' of Inl e \<Rightarrow> Inl e | Inr d2 \<Rightarrow>
     (case dur (ws_ConnectResultTimeout w) ''connect_result_timeout'' of Inl e \<Rightarrow> Inl e | Inr d3 \<Rightarrow>
     (case dur (ws_ShutdownTimeout w) ''shutdown_timeout'' of Inl e \<Rightarrow> Inl e | Inr d4 \<Rightarrow>
     (case dur (ws_SocksCredentialsRefresh w) ''socks_credentials_refresh'' of Inl e \<Rightarrow> Inl e | Inr d5 \<Rightarrow>
     (case dur (ws_SocksIPWhitelistRefresh w) ''socks_ip_whitelist_refresh'' of Inl e \<Rightarrow> Inl e | Inr d6 \<Rightarrow>
     (case dur (ws_SchedulerStaleAfter w) ''scheduler_stale_after'' of Inl e \<Rightarrow> Inl e | Inr d7 \<Rightarrow>
     (case dur (ws_SchedulerSweepInterval w) ''scheduler_sweep_interval'' of Inl e \<Rightarrow> Inl e | Inr d8 \<Rightarrow>
        validateServer ((ws_cfg w)\<lparr>SessionHeartbeatTimeout := d1, DeviceWaitTimeout := d2,
          ConnectResultTimeout := d3, ShutdownTimeout := d4, SocksCredentialsRefresh := d5,
          SocksIPWhitelistRefresh := d6, SchedulerStaleAfter := d7, SchedulerSweepInterval := d8\<rparr>)))))))))"

definition ParseServerJSON ::
    "(string \<Rightarrow> string + ServerWire) \<Rightarrow> (string \<Rightarrow> string option) \<Rightarrow> (string \<Rightarrow> int option) \<Rightarrow>
     (string \<Rightarrow> duration option) \<Rightarrow> string \<Rightarrow> config_error + ServerCfg" where
  "ParseServerJSON unwire unstr unint pdur data =
     (case unwire data of
        Inl e \<Rightarrow> Inl (DecodeErr e)
      | Inr w \<Rightarrow> server_of_wire (parseJSONDurationField unstr unint pdur) w)"

definition ParseServerYAML :: "(string \<Rightarrow> string + ServerCfg) \<Rightarrow> string \<Rightarrow> config_error + ServerCfg" where
  "ParseServerYAML unyaml data =
     (case unyaml data of Inl e \<Rightarrow> Inl (DecodeErr e) | Inr s \<Rightarrow> validateServer s)"

text \<open>\<open>filepath.Ext\<close>: the suffix from the last dot of the last path element.\<close>

fun ext_rev :: "string \<Rightarrow> string \<Rightarrow> string" where
  "ext_rev acc [] = ''''"
| "ext_rev acc (c # cs) =
     (if c = CHR ''/'' then '''' else if c = CHR ''.'' then c # acc else ext_rev (c # acc) cs)"

definition isJSONPath :: "string \<Rightarrow> bool" where
  "isJSONPath path = EqualFold (ext_rev '''' (rev path)) ''.json''"

text \<open>\<open>readf\<close> reads a file; \<open>json\<close> and \<open>yaml\<close> are the two parsers.\<close>

definition LoadServer ::
    "(string \<Rightarrow> string + string) \<Rightarrow> (string \<Rightarrow> config_error + ServerCfg) \<Rightarrow> (string \<Rightarrow> config_error + ServerCfg) \<Rightarrow>
     string \<Rightarrow> config_error + ServerCfg" where
  "LoadServer readf json yaml path =
     (case readf path of
        Inl e \<Rightarrow> Inl (DecodeErr e)
      | Inr data \<Rightarrow> if isJSONPath path then json data else yaml data)"

text \<open>What a validated configuration guarantees.\<close>

definition valid_server :: "ServerCfg \<Rightarrow> bool" where
  "valid_server s \<longleftrightarrow> SocksListen s \<noteq> '''' \<and> DeviceListen s \<noteq> '''' \<and> TLSCertFile s \<noteq> '''' \<and>
     TLSKeyFile s \<noteq> '''' \<and> ConnectResultTimeout s \<noteq> 0 \<and> ShutdownTimeout s \<noteq> 0 \<and>
     SocksCredentialsRefresh s \<noteq> 0 \<and> SocksIPWhitelistRefresh s \<noteq> 0 \<and> SchedulerSweepInterval s \<noteq> 0 \<and>
     (ToLower_is (TrimSpace (SocksUsernameScheme s)) '''' \<or>
      ToLower_is (TrimSpace (SocksUsernameScheme s)) ''device_id'' \<or>
      ToLower_is (TrimSpace (SocksUsernameScheme s)) ''scheduler'')"

lemma default0_nonzero [simp]: "d \<noteq> 0 \<Longrightarrow> default0 d x \<noteq> 0"
  by (simp add: default0_def)

lemma default0_id [simp]: "x \<noteq> 0 \<Longrightarrow> default0 d x = x"
  by (simp add: default0_def)

lemma validateServer_valid:
  assumes "validateServer s = Inr s'"
  shows "valid_server s'"
proof -
  define sc where "sc = TrimSpace (SocksUsernameScheme s)"
  have r: "SocksListen s \<noteq> ''''" "DeviceListen s \<noteq> ''''" "TLSCertFile s \<noteq> ''''" "TLSKeyFile s \<noteq> ''''"
    and sch: "ToLower_is sc '''' \<or> ToLower_is sc ''device_id'' \<or> ToLower_is sc ''scheduler''"
    and s': "s' = s\<lparr>ConnectResultTimeout := default0 (30 * Second) (ConnectResultTimeout s),
                  ShutdownTimeout := default0 (10 * Second) (ShutdownTimeout s),
                  SocksCredentialsRefresh := default0 Minute (SocksCredentialsRefresh s),
                  SocksIPWhitelistRefresh := default0 Minute (SocksIPWhitelistRefresh s),
                  SchedulerSweepInterval := default0 Minute (SchedulerSweepInterval s)\<rparr>"
    using assms by (simp_all add: validateServer_def Let_def sc_def split: if_split_asm del: ToLower_is.simps)
  show ?thesis using r sch by (simp add: s' valid_server_def sc_def del: ToLower_is.simps)
qed

lemma validateServer_idem: "valid_server s \<Longrightarrow> validateServer s = Inr s"
  by (simp add: validateServer_def valid_server_def Let_def del: ToLower_is.simps)

text \<open>Whatever the format, a server only starts with a validated configuration.\<close>

lemma LoadServer_valid:
  "LoadServer readf (ParseServerJSON unwire unstr unint pdur) (ParseServerYAML unyaml) path = Inr c \<Longrightarrow>
   \<exists>s. validateServer s = Inr c"
  by (auto simp: LoadServer_def ParseServerJSON_def ParseServerYAML_def server_of_wire_def
      split: sum.splits if_splits)

lemma to_lower_idem [simp]: "to_lower (to_lower c) = to_lower c"
proof (cases "is_upper c")
  case True
  then have "65 \<le> char_val c \<and> char_val c \<le> 90"
    by (simp add: is_upper_def char_le_val) (simp add: char_val_def)
  then have "char_val (to_lower c) > 90" using True by (simp add: to_lower_def)
  then have "\<not> is_upper (to_lower c)"
    by (simp add: is_upper_def char_le_val) (simp add: char_val_def)
  then show ?thesis by (simp add: to_lower_def)
qed (simp add: to_lower_def)

lemma ToLower_is_EqualFold:
  "ToLower_is s t \<Longrightarrow> CHR ''i'' \<notin> set t \<Longrightarrow> EqualFold s t"
proof (induction s t rule: ToLower_is.induct)
  case (3 c cs d ds)
  show ?case
  proof (cases "to_lower c = d")
    case True
    then have "to_lower c = to_lower d" by auto
    then show ?thesis using 3 True by auto
  next
    case False
    then have "d = CHR ''k'' \<and> c = CHR 0xE2 \<and> (\<exists>cs'. cs = CHR 0x84 # CHR 0xAA # cs' \<and> ToLower_is cs' ds)"
      using 3(4,5) by (auto split: if_splits list.splits)
    then obtain cs' where k: "d = CHR ''k''" "c = CHR 0xE2" "cs = CHR 0x84 # CHR 0xAA # cs'" "ToLower_is cs' ds"
      by blast
    have "to_lower (CHR 0xE2) \<noteq> to_lower (CHR ''k'')" "to_lower (CHR ''k'') = CHR ''k''" by code_simp+
    moreover have "EqualFold cs' ds" using 3(3)[OF False] k 3(5) by auto
    ultimately show ?thesis using k by simp
  qed
qed auto

lemma EqualFold_first: "EqualFold s ''scheduler'' \<Longrightarrow> s \<noteq> '''' \<and> (to_lower (hd s) = CHR ''s'' \<or> hd s = CHR 0xC5)"
proof -
  have "to_lower CHR ''s'' = CHR ''s''" by code_simp
  then show "EqualFold s ''scheduler'' \<Longrightarrow> ?thesis" by (cases s) (auto split: if_splits)
qed

lemma ToLower_is_first: "ToLower_is s ''device_id'' \<Longrightarrow> s \<noteq> '''' \<and> to_lower (hd s) = CHR ''d''"
  by (cases s) (auto split: if_splits)

text \<open>On a validated configuration the two ways of reading the scheme agree.\<close>

lemma scheme_agrees:
  assumes "valid_server c"
  shows "EqualFold (TrimSpace (SocksUsernameScheme c)) ''scheduler'' \<longleftrightarrow>
         ToLower_is (TrimSpace (SocksUsernameScheme c)) ''scheduler''" (is "EqualFold ?s _ \<longleftrightarrow> _")
proof
  assume E: "EqualFold ?s ''scheduler''"
  have "to_lower (CHR 0xC5) = CHR 0xC5" by code_simp
  then have "\<not> ToLower_is ?s ''device_id''"
    using EqualFold_first[OF E] ToLower_is_first[of ?s] by auto
  moreover have "\<not> ToLower_is ?s ''''" using EqualFold_first[OF E] by (cases ?s) auto
  ultimately show "ToLower_is ?s ''scheduler''" using assms by (simp add: valid_server_def del: ToLower_is.simps)
next
  assume "ToLower_is ?s ''scheduler''"
  then show "EqualFold ?s ''scheduler''" by (rule ToLower_is_EqualFold) simp
qed

end
