(* ===== verification/Snapshot_Cache.thy ===== *)
theory Snapshot_Cache
  imports Prelude
begin

text \<open>
  The two caches of the hub (credentials, IP allowlist) share a contract: lookups see an in-memory
  snapshot, a refresh replaces it as a whole when the source delivers usable data, and any failure
  keeps the previous snapshot. The refresh goroutine is a loop over what its \<open>select\<close> receives.
\<close>

datatype 'r loop_event = LoopDone | LoopTick 'r

fun refresh_loop :: "('r \<Rightarrow> 'c \<Rightarrow> 'e option \<times> 'c) \<Rightarrow> 'r loop_event list \<Rightarrow> 'c \<Rightarrow> 'c" where
  "refresh_loop refresh [] c = c"
| "refresh_loop refresh (LoopDone # evs) c = c"
| "refresh_loop refresh (LoopTick r # evs) c = refresh_loop refresh evs (snd (refresh r c))"

text \<open>The fetch results that arrive before the loop is cancelled.\<close>

fun ticks :: "'r loop_event list \<Rightarrow> 'r list" where
  "ticks [] = []"
| "ticks (LoopDone # evs) = []"
| "ticks (LoopTick r # evs) = r # ticks evs"

text \<open>The value delivered by the last usable result, or the given one if there is none.\<close>

fun last_usable :: "('r \<Rightarrow> 'v option) \<Rightarrow> 'v \<Rightarrow> 'r list \<Rightarrow> 'v" where
  "last_usable usable v [] = v"
| "last_usable usable v (r # rs) =
     last_usable usable (case usable r of None \<Rightarrow> v | Some w \<Rightarrow> w) rs"

lemma last_usable_failed: "\<forall>r \<in> set rs. usable r = None \<Longrightarrow> last_usable usable v rs = v"
  by (induction rs) auto

lemma last_usable_append:
  "usable r = Some w \<Longrightarrow> \<forall>r \<in> set rs'. usable r = None \<Longrightarrow> last_usable usable v (rs @ r # rs') = w"
  by (induction rs arbitrary: v) (auto simp: last_usable_failed)

locale snapshot_cache =
  fixes refresh :: "'r \<Rightarrow> 'c \<Rightarrow> 'e option \<times> 'c"
    and usable :: "'r \<Rightarrow> 'v option"
    and snapshot :: "'c \<Rightarrow> 'v"
  assumes refresh_snapshot:
      "snapshot (snd (refresh r c)) = (case usable r of None \<Rightarrow> snapshot c | Some v \<Rightarrow> v)"
    and refresh_error: "fst (refresh r c) = None \<longleftrightarrow> usable r \<noteq> None"
begin

lemma loop_snapshot:
  "snapshot (refresh_loop refresh evs c) = last_usable usable (snapshot c) (ticks evs)"
  by (induction evs arbitrary: c rule: ticks.induct) (simp_all add: refresh_snapshot)

lemma outage_keeps_snapshot:
  "\<forall>r \<in> set (ticks evs). usable r = None \<Longrightarrow> snapshot (refresh_loop refresh evs c) = snapshot c"
  by (simp add: loop_snapshot last_usable_failed)

end

end
