(* ===== verification/Credentials.thy ===== *)
theory Credentials
  imports Snapshot_Cache Username
begin

text \<open>
  \<open>server/hub/credentials.go\<close>, \<open>server/hub/socksauth.go\<close> and \<open>server/scheduler/auth.go\<close>: the
  credential cache, the shared-secret store and the store that reduces a scheduling username to
  its account. The credential source (\<open>FetchAll\<close>: a file, later a service) is outside: what one
  fetch returned is an argument of \<open>Cred_Refresh\<close>.

  \<open>auth_lookup\<close> is the \<open>AuthLookup\<close> interface: what the wrapping store needs of an inner one.
\<close>

subsection \<open>The credential cache\<close>

record CredentialCache =
  cc_refreshInterval :: duration
  cc_creds :: "string \<rightharpoonup> string"

definition NewCredentialCache :: "duration \<Rightarrow> CredentialCache" where
  "NewCredentialCache refresh =
     \<lparr>cc_refreshInterval = (if refresh \<le> 0 then Minute else refresh), cc_creds = Map.empty\<rparr>"

text \<open>
  What \<open>FetchAll\<close> returned: an error, or a map that may be \<open>nil\<close> (\<open>None\<close>).
\<close>

type_synonym 'e cred_fetch = "'e + (string \<rightharpoonup> string) option"

definition Cred_Refresh :: "'e cred_fetch \<Rightarrow> CredentialCache \<Rightarrow> 'e option \<times> CredentialCache" where
  "Cred_Refresh fetched c =
     (case fetched of
        Inl err \<Rightarrow> (Some err, c)
      | Inr next_creds \<Rightarrow>
          (None, c\<lparr>cc_creds := (case next_creds of None \<Rightarrow> Map.empty | Some m \<Rightarrow> m)\<rparr>))"

definition Cred_Start :: "'e cred_fetch \<Rightarrow> CredentialCache \<Rightarrow> 'e option \<times> CredentialCache" where
  "Cred_Start fetched c = Cred_Refresh fetched c"

definition Cred_refreshLoop :: "'e cred_fetch loop_event list \<Rightarrow> CredentialCache \<Rightarrow> CredentialCache" where
  "Cred_refreshLoop = refresh_loop Cred_Refresh"

definition Cred_Size :: "CredentialCache \<Rightarrow> nat" where
  "Cred_Size c = map_len (cc_creds c)"

text \<open>\<open>subtle.ConstantTimeCompare\<close> on the two byte strings is 1 exactly when they are equal.\<close>

definition Cred_Valid :: "CredentialCache \<Rightarrow> string \<Rightarrow> string \<Rightarrow> string \<Rightarrow> bool" where
  "Cred_Valid c user password addr =
     (let user = TrimSpace user in
      if user = '''' \<or> password = '''' then False
      else case cc_creds c user of None \<Rightarrow> False | Some want \<Rightarrow> password = want)"

text \<open>
  \<open>JSONFileCredentialSource.FetchAll\<close>; reading the file and decoding the JSON object are
  parameters.
\<close>

datatype ('io, 'json) cred_source_error = CredReadErr 'io | CredParseErr 'json

definition CredFile_FetchAll ::
    "('io + string) \<Rightarrow> (string \<Rightarrow> 'json + (string \<rightharpoonup> string)) \<Rightarrow> ('io, 'json) cred_source_error cred_fetch" where
  "CredFile_FetchAll data unmarshal =
     (case data of
        Inl err \<Rightarrow> Inl (CredReadErr err)
      | Inr d \<Rightarrow>
          if length d = 0 then Inr (Some Map.empty)
          else case unmarshal d of Inl err \<Rightarrow> Inl (CredParseErr err) | Inr m \<Rightarrow> Inr (Some m))"

fun cred_usable :: "'e cred_fetch \<Rightarrow> (string \<rightharpoonup> string) option" where
  "cred_usable (Inl err) = None"
| "cred_usable (Inr None) = Some Map.empty"
| "cred_usable (Inr (Some m)) = Some m"

interpretation creds: snapshot_cache Cred_Refresh cred_usable cc_creds
proof unfold_locales
  fix r :: "'e cred_fetch" and c
  show "cc_creds (snd (Cred_Refresh r c)) = (case cred_usable r of None \<Rightarrow> cc_creds c | Some v \<Rightarrow> v)"
    by (cases r rule: cred_usable.cases) (simp_all add: Cred_Refresh_def)
  show "fst (Cred_Refresh r c) = None \<longleftrightarrow> cred_usable r \<noteq> None"
    by (cases r rule: cred_usable.cases) (simp_all add: Cred_Refresh_def)
qed

subsection \<open>The shared secret\<close>

definition SOCKSPlainAuth_Valid :: "string option \<Rightarrow> string \<Rightarrow> string \<Rightarrow> string \<Rightarrow> bool" where
  "SOCKSPlainAuth_Valid s user password addr =
     (case s of None \<Rightarrow> False
      | Some secret \<Rightarrow> if secret = '''' then False else password = secret \<and> TrimSpace user \<noteq> '''')"

text \<open>The RFC username of a request: \<open>None\<close> stands for a missing request, context or payload.\<close>

definition SOCKS5Username :: "(string \<rightharpoonup> string) option \<Rightarrow> string" where
  "SOCKS5Username payload =
     (case payload of None \<Rightarrow> ''''
      | Some p \<Rightarrow> TrimSpace (case p ''username'' of None \<Rightarrow> '''' | Some u \<Rightarrow> u))"

subsection \<open>Accounts of scheduling usernames\<close>

type_synonym valid_fun = "string \<Rightarrow> string \<Rightarrow> string \<Rightarrow> bool"

definition UsernameStore_Valid :: "valid_fun option \<Rightarrow> string \<Rightarrow> string \<Rightarrow> string \<Rightarrow> bool" where
  "UsernameStore_Valid inner user password addr =
     (case inner of None \<Rightarrow> False
      | Some valid \<Rightarrow>
         (case ParseUsername user of Inl err \<Rightarrow> False
          | Inr tok \<Rightarrow>
             if TrimSpace password = '''' then False else valid (AuthKey tok) password addr))"

text \<open>
  An inner store accepts \<open>(key, password)\<close> as its table says; \<open>usable_key\<close> are the keys it does
  not alter before the lookup.
\<close>

locale auth_lookup =
  fixes valid :: valid_fun
    and accepts :: "string \<Rightarrow> string \<Rightarrow> bool"
    and usable_key :: "string \<Rightarrow> bool"
  assumes valid_accepts: "usable_key k \<Longrightarrow> valid k p a \<longleftrightarrow> accepts k p"
    and auth_keys_usable: "ParseUsername s = Inr t \<Longrightarrow> usable_key (AuthKey t)"
begin

lemma store_valid_iff:
  "UsernameStore_Valid (Some valid) user p a \<longleftrightarrow>
     (\<exists>t. ParseUsername user = Inr t \<and> TrimSpace p \<noteq> '''' \<and> accepts (AuthKey t) p)"
  by (auto simp: UsernameStore_Valid_def valid_accepts auth_keys_usable split: sum.split)

lemma same_account:
  assumes "ParseUsername s = Inr t" "ParseUsername s' = Inr t'"
    "tok_UserID t = tok_UserID t'" "tok_Session t = tok_Session t'"
  shows "UsernameStore_Valid (Some valid) s p a \<longleftrightarrow> UsernameStore_Valid (Some valid) s' p a'"
  using assms by (simp add: store_valid_iff AuthKey_def)

end

text \<open>The account key of a parsed username has no white space at its ends.\<close>

lemma go_spaces_all:
  "list_all (\<lambda>e. e \<noteq> [] \<and> CHR '':'' \<notin> set e \<and> \<not> is_letter (last e) \<and> \<not> is_digit (last e)) go_spaces"
  by code_simp

lemma AuthKey_trimmed:
  assumes "ParseUsername s = Inr t"
  shows "trimmed (AuthKey t)"
proof -
  obtain r where s: "TrimSpace s = tok_UserID t @ r"
    and u: "tok_UserID t \<noteq> ''''" and al: "isAlnum (tok_Session t)" "length (tok_Session t) = SessionLen"
    using ParseUsername_InrD[OF assms] by blast
  have ne: "tok_Session t \<noteq> []" using al(2) by (auto simp: SessionLen_def)
  have "AuthKey t \<noteq> e @ x" if e: "e \<in> set go_spaces" for e x
  proof
    assume "AuthKey t = e @ x"
    then consider (pre) z where "tok_UserID t = e @ z" | (colon) z where "e = tok_UserID t @ '':'' @ z"
      by (auto simp: AuthKey_def append_eq_append_conv2 Cons_eq_append_conv)
    then show False
    proof cases
      case (pre z)
      then have "TrimSpace s = e @ z @ r" using s by simp
      then show False
        using trimmed_TrimSpace[of s] e go_spaces_all
        by (auto simp: trimmed_def strip_any_None list_all_iff)
    next
      case (colon z)
      then show False using e go_spaces_all by (auto simp: list_all_iff)
    qed
  qed
  moreover have "rev (AuthKey t) \<noteq> rev e @ x" if e: "e \<in> set go_spaces" for e x
  proof
    assume "rev (AuthKey t) = rev e @ x"
    then have "AuthKey t = rev x @ e" by (metis rev_append rev_rev_ident)
    then have "last (AuthKey t) = last e" using e go_spaces_all by (auto simp: list_all_iff)
    then have "last (tok_Session t) = last e" using ne by (simp add: AuthKey_def)
    then show False
      using al(1) ne e go_spaces_all by (metis (no_types, lifting) isAlnum_def last_in_set list_all_iff)
  qed
  ultimately show ?thesis by (auto simp: trimmed_def strip_any_None)
qed

lemma AuthKey_nonempty: "AuthKey t \<noteq> ''''"
  by (simp add: AuthKey_def)

interpretation cache_lookup: auth_lookup "Cred_Valid c" "\<lambda>k p. p \<noteq> '''' \<and> cc_creds c k = Some p"
    "\<lambda>k. trimmed k \<and> k \<noteq> ''''" for c
  by unfold_locales
     (auto simp: Cred_Valid_def Let_def AuthKey_trimmed AuthKey_nonempty split: option.split)

interpretation secret_lookup: auth_lookup "SOCKSPlainAuth_Valid (Some secret)"
    "\<lambda>k p. p \<noteq> '''' \<and> p = secret" "\<lambda>k. trimmed k \<and> k \<noteq> ''''" for secret
  by unfold_locales
     (auto simp: SOCKSPlainAuth_Valid_def AuthKey_trimmed AuthKey_nonempty)

lemma TrimSpace_nonempty: "TrimSpace p \<noteq> '''' \<Longrightarrow> p \<noteq> ''''"
  by auto

subsection \<open>What authentication promises\<close>

text \<open>
  C15. A scheduling username authenticates against the cache exactly when it parses and the last
  snapshot that could be fetched maps its account key to the password (which must not be blank);
  failed fetches change nothing. So country and duration never matter.
\<close>

theorem scheduler_login:
  "UsernameStore_Valid (Some (Cred_Valid (Cred_refreshLoop evs c))) user p addr \<longleftrightarrow>
   (\<exists>t. ParseUsername user = Inr t \<and> TrimSpace p \<noteq> '''' \<and>
      last_usable cred_usable (cc_creds c) (ticks evs) (tok_UserID t @ '':'' @ tok_Session t) = Some p)"
  unfolding cache_lookup.store_valid_iff Cred_refreshLoop_def creds.loop_snapshot AuthKey_def[symmetric]
  by (auto dest: TrimSpace_nonempty)

end
