(* ===== verification/Go_Net.thy ===== *)
theory Go_Net
  imports Prelude "HOL-Library.Word"
begin

text \<open>
  The part of Go's \<open>net\<close> package that the hub uses: IP addresses as byte slices, \<open>To4\<close>,
  \<open>ParseIP\<close>, \<open>ParseCIDR\<close>, \<open>CIDRMask\<close>, \<open>IPNet.Contains\<close> and \<open>SplitHostPort\<close>. An \<open>IP\<close> that may
  be \<open>nil\<close> is an option.

  The main lemma says that membership in a CIDR block is equality of the leading bits.
\<close>

unbundle bit_operations_syntax

type_synonym byte = "8 word"
type_synonym ip = "byte list"

definition v4InV6Prefix :: ip where
  "v4InV6Prefix = replicate 10 0 @ [0xff, 0xff]"

lemma length_v4InV6Prefix [simp]: "length v4InV6Prefix = 12"
  by (simp add: v4InV6Prefix_def)

definition To4 :: "ip \<Rightarrow> ip option" where
  "To4 a =
     (if length a = 4 then Some a
      else if length a = 16 \<and> take 12 a = v4InV6Prefix then Some (drop 12 a)
      else None)"

lemma To4_length: "To4 a = Some b \<Longrightarrow> length b = 4"
  by (auto simp: To4_def split: if_splits)

lemma To4_4 [simp]: "length a = 4 \<Longrightarrow> To4 a = Some a"
  by (simp add: To4_def)

lemma To4_mapped [simp]: "length a = 4 \<Longrightarrow> To4 (v4InV6Prefix @ a) = Some a"
  by (simp add: To4_def v4InV6Prefix_def)

text \<open>The address that the client and the networks are compared in: IPv4 when it is one.\<close>

definition canon :: "ip \<Rightarrow> ip" where
  "canon a = (case To4 a of Some b \<Rightarrow> b | None \<Rightarrow> a)"

lemma canon_canon [simp]: "canon (canon a) = canon a"
  by (auto simp: canon_def To4_length split: option.splits)

subsection \<open>Masks and networks\<close>

fun mask_bytes :: "nat \<Rightarrow> nat \<Rightarrow> ip" where
  "mask_bytes 0 n = []"
| "mask_bytes (Suc l) n =
     (if n \<ge> 8 then 0xff # mask_bytes l (n - 8) else NOT (drop_bit n 0xff) # mask_bytes l 0)"

definition CIDRMask :: "nat \<Rightarrow> nat \<Rightarrow> ip option" where
  "CIDRMask ones bits =
     (if bits \<noteq> 32 \<and> bits \<noteq> 128 then None
      else if ones > bits then None
      else Some (mask_bytes (bits div 8) ones))"

record IPNet =
  net_IP :: ip
  net_Mask :: ip

definition ip_mask :: "ip \<Rightarrow> ip \<Rightarrow> ip" where
  "ip_mask a m = map2 (AND) a m"

text \<open>\<open>IP.Mask\<close> for the masks that \<open>ParseCIDR\<close> passes: as long as the canonical address.\<close>

definition IP_Mask :: "ip \<Rightarrow> ip \<Rightarrow> ip option" where
  "IP_Mask a m =
     (let a = (if length m = 4 \<and> length a = 16 \<and> take 12 a = v4InV6Prefix then drop 12 a else a)
      in if length a \<noteq> length m then None else Some (ip_mask a m))"

definition networkNumberAndMask :: "IPNet \<Rightarrow> (ip \<times> ip) option" where
  "networkNumberAndMask n =
     (case To4 (net_IP n) of
        Some a \<Rightarrow>
          (if length (net_Mask n) = 4 then Some (a, net_Mask n)
           else if length (net_Mask n) = 16 then Some (a, drop 12 (net_Mask n)) else None)
      | None \<Rightarrow>
          (if length (net_IP n) = 16 \<and> length (net_Mask n) = 16 then Some (net_IP n, net_Mask n) else None))"

text \<open>
  \<open>IPNet.Contains\<close>; without a network number (\<open>nil\<close>) only an address of length 0 would be
  contained, which no \<open>To4\<close> result is.
\<close>

definition Contains :: "IPNet \<Rightarrow> ip \<Rightarrow> bool" where
  "Contains n a =
     (let a = canon a in
      case networkNumberAndMask n of
        None \<Rightarrow> a = []
      | Some (nn, m) \<Rightarrow> length a = length nn \<and> ip_mask nn m = ip_mask a m)"

subsection \<open>Leading bits\<close>

definition byte_bits :: "byte \<Rightarrow> bool list" where
  "byte_bits b = map (\<lambda>i. bit b (7 - i)) [0..<8]"

definition ip_bits :: "ip \<Rightarrow> bool list" where
  "ip_bits a = concat (map byte_bits a)"

lemma length_byte_bits [simp]: "length (byte_bits b) = 8"
  by (simp add: byte_bits_def)

lemma byte_bits_nth: "i < 8 \<Longrightarrow> byte_bits b ! i = bit b (7 - i)"
  by (simp add: byte_bits_def)

lemma byte_eqI:
  fixes a b :: byte
  shows "(\<And>i. i < 8 \<Longrightarrow> bit a i = bit b i) \<Longrightarrow> a = b"
  by (rule bit_word_eqI) simp

lemma bit_255: "bit (0xff :: byte) i \<longleftrightarrow> i < 8"
proof -
  have *: "(0xff :: byte) = mask 8" by (simp add: mask_eq_exp_minus_1)
  show ?thesis unfolding * bit_mask_iff by simp
qed

lemma bit_mask_byte: "i < 8 \<Longrightarrow> bit (NOT (drop_bit k 0xff) :: byte) i \<longleftrightarrow> 8 \<le> i + k"
  unfolding bit_not_iff_eq bit_drop_bit_eq bit_255 not_less comp_apply
  by (simp add: possible_bit_def add.commute)

lemma mask_byte_take:
  fixes a b :: byte
  assumes "k \<le> 8"
  shows "a AND NOT (drop_bit k 0xff) = b AND NOT (drop_bit k 0xff) \<longleftrightarrow>
         take k (byte_bits a) = take k (byte_bits b)" (is "?L \<longleftrightarrow> ?R")
proof -
  have "?R \<longleftrightarrow> (\<forall>i < k. bit a (7 - i) = bit b (7 - i))"
    using assms by (auto simp: list_eq_iff_nth_eq byte_bits_nth)
  also have "\<dots> \<longleftrightarrow> (\<forall>j < 8. 8 \<le> j + k \<longrightarrow> bit a j = bit b j)"
  proof (rule iffI; intro allI impI)
    fix j assume A: "\<forall>i < k. bit a (7 - i) = bit b (7 - i)" and j: "j < 8" "8 \<le> j + k"
    then have "7 - j < k" "7 - (7 - j) = j" by auto
    then show "bit a j = bit b j" using A by metis
  next
    fix i assume A: "\<forall>j < 8. 8 \<le> j + k \<longrightarrow> bit a j = bit b j" and i: "i < k"
    then have "7 - i < 8" "8 \<le> 7 - i + k" using assms by auto
    then show "bit a (7 - i) = bit b (7 - i)" using A by blast
  qed
  also have "\<dots> \<longleftrightarrow> ?L"
  proof
    assume A: "\<forall>j < 8. 8 \<le> j + k \<longrightarrow> bit a j = bit b j"
    show ?L
    proof (rule byte_eqI)
      fix i :: nat assume "i < 8"
      then show "bit (a AND NOT (drop_bit k 0xff)) i = bit (b AND NOT (drop_bit k 0xff)) i"
        using A by (auto simp: bit_and_iff bit_mask_byte)
    qed
  next
    assume L: ?L
    show "\<forall>j < 8. 8 \<le> j + k \<longrightarrow> bit a j = bit b j"
    proof (intro allI impI)
      fix j :: nat assume "j < 8" "8 \<le> j + k"
      then show "bit a j = bit b j" using arg_cong[OF L, of "\<lambda>w. bit w j"] by (simp add: bit_and_iff bit_mask_byte)
    qed
  qed
  finally show ?thesis by blast
qed

lemma and_255 [simp]: "(a :: byte) AND 0xff = a"
  by (rule byte_eqI) (simp only: bit_and_iff bit_255 simp_thms)

lemma length_mask_bytes [simp]: "length (mask_bytes l n) = l"
  by (induction l n rule: mask_bytes.induct) auto

lemma mask_bytes_take:
  "length a = l \<Longrightarrow> length b = l \<Longrightarrow>
   ip_mask a (mask_bytes l n) = ip_mask b (mask_bytes l n) \<longleftrightarrow> take n (ip_bits a) = take n (ip_bits b)"
proof (induction l n arbitrary: a b rule: mask_bytes.induct)
  case (1 n)
  then show ?case by simp
next
  case (2 l n)
  obtain x xs where a: "a = x # xs" "length xs = l" using 2(3) by (cases a) auto
  obtain y ys where b: "b = y # ys" "length ys = l" using 2(4) by (cases b) auto
  have bits: "byte_bits x = byte_bits y \<longleftrightarrow> x = y"
    using mask_byte_take[of 8 x y] by (simp add: drop_bit_eq_div)
  show ?case
  proof (cases "n \<ge> 8")
    case True
    then show ?thesis
      using 2(1)[OF True a(2) b(2)] bits
      by (auto simp: a(1) b(1) ip_mask_def ip_bits_def)
  next
    case False
    then show ?thesis
      using 2(2)[OF False a(2) b(2)] mask_byte_take[of n x y]
      by (simp add: a(1) b(1) ip_mask_def ip_bits_def)
  qed
qed

lemma Contains_CIDR:
  assumes "CIDRMask n bits = Some m" "8 * length nn = bits" "nn = canon nn"
  shows "Contains \<lparr>net_IP = nn, net_Mask = m\<rparr> a \<longleftrightarrow>
         length (canon a) = length nn \<and> take n (ip_bits (canon a)) = take n (ip_bits nn)"
proof -
  have m: "m = mask_bytes (length nn) n" and l: "length nn = 4 \<or> length nn = 16"
    using assms(1,2) by (auto simp: CIDRMask_def split: if_splits)
  have "networkNumberAndMask \<lparr>net_IP = nn, net_Mask = m\<rparr> = Some (nn, m)"
    using l assms(3) m To4_length[of nn]
    by (auto simp: networkNumberAndMask_def canon_def split: option.splits)
  then show ?thesis
    using mask_bytes_take[of nn "length nn" "canon a" n] by (auto simp: Contains_def Let_def m)
qed

subsection \<open>Parsing addresses\<close>

fun index_byte :: "char \<Rightarrow> string \<Rightarrow> nat option" where
  "index_byte c [] = None"
| "index_byte c (x # xs) = (if x = c then Some 0 else map_option Suc (index_byte c xs))"

definition last_index_byte :: "char \<Rightarrow> string \<Rightarrow> nat option" where
  "last_index_byte c s = map_option (\<lambda>i. length s - 1 - i) (index_byte c (rev s))"

text \<open>One decimal field: one to three digits, no leading zero, at most 255.\<close>

definition parse_octet :: "string \<Rightarrow> byte option" where
  "parse_octet f =
     (if f = [] \<or> \<not> list_all is_digit f \<or> (length f > 1 \<and> hd f = CHR ''0'') \<or> dec_val 0 f > 255
      then None else Some (of_nat (dec_val 0 f)))"

definition parseIPv4 :: "string \<Rightarrow> ip option" where
  "parseIPv4 s =
     (case Split CHR ''.'' s of
        [a, b, c, d] \<Rightarrow>
          (case (parse_octet a, parse_octet b, parse_octet c, parse_octet d) of
             (Some a, Some b, Some c, Some d) \<Rightarrow> Some [a, b, c, d]
           | _ \<Rightarrow> None)
      | _ \<Rightarrow> None)"

definition hex_val :: "char \<Rightarrow> nat option" where
  "hex_val c =
     (if is_digit c then Some (char_val c - 48)
      else if CHR ''a'' \<le> c \<and> c \<le> CHR ''f'' then Some (char_val c - 87)
      else if CHR ''A'' \<le> c \<and> c \<le> CHR ''F'' then Some (char_val c - 55)
      else None)"

text \<open>The leading hexadecimal digits: their number, their value and the rest of the string.\<close>

fun hex_field :: "nat \<Rightarrow> nat \<Rightarrow> string \<Rightarrow> nat \<times> nat \<times> string" where
  "hex_field k acc [] = (k, acc, [])"
| "hex_field k acc (c # cs) =
     (case hex_val c of None \<Rightarrow> (k, acc, c # cs) | Some v \<Rightarrow> hex_field (Suc k) (16 * acc + v) cs)"

text \<open>
  The loop of \<open>parseIPv6\<close>. \<open>n\<close> is the number of 16-bit groups that may follow (so the loop counter
  \<open>i\<close> of the source is \<open>16 - 2 * n\<close>), \<open>out\<close> the bytes so far, \<open>el\<close> the position of the ellipsis.
  The result is the bytes, the ellipsis and the unread rest.
\<close>

fun ipv6_loop :: "nat \<Rightarrow> ip \<Rightarrow> nat option \<Rightarrow> string \<Rightarrow> (ip \<times> nat option \<times> string) option" where
  "ipv6_loop 0 out el s = Some (out, el, s)"
| "ipv6_loop (Suc n) out el s =
     (case hex_field 0 0 s of (k, acc, rest) \<Rightarrow>
        if k = 0 \<or> k > 4 then None
        else if rest \<noteq> [] \<and> hd rest = CHR ''.'' then
          (if (el = None \<and> length out \<noteq> 12) \<or> length out + 4 > 16 then None
           else case parseIPv4 s of None \<Rightarrow> None | Some v4 \<Rightarrow> Some (out @ v4, el, []))
        else
          let out = out @ [of_nat (acc div 256), of_nat (acc mod 256)] in
          case rest of
            [] \<Rightarrow> Some (out, el, [])
          | c # cs \<Rightarrow>
              if c \<noteq> CHR '':'' \<or> cs = [] then None
              else if hd cs = CHR '':'' then
                (if el \<noteq> None then None
                 else if tl cs = [] then Some (out, Some (length out), [])
                 else ipv6_loop n out (Some (length out)) (tl cs))
              else ipv6_loop n out el cs)"

definition parseIPv6 :: "string \<Rightarrow> ip option" where
  "parseIPv6 s =
     (let lead = (length s \<ge> 2 \<and> take 2 s = ''::'');
          el = (if lead then Some 0 else None);
          s = (if lead then drop 2 s else s)
      in if lead \<and> s = [] then Some (replicate 16 0)
         else case ipv6_loop 8 [] el s of
             None \<Rightarrow> None
           | Some (out, el, rest) \<Rightarrow>
               if rest \<noteq> [] then None
               else if length out < 16 then
                 (case el of None \<Rightarrow> None
                  | Some e \<Rightarrow> Some (take e out @ replicate (16 - length out) 0 @ drop e out))
               else if el \<noteq> None then None else Some out)"

text \<open>
  \<open>netip.ParseAddr\<close> without zones, which both callers reject: the first of \<open>.\<close> and \<open>:\<close> decides the
  family. The result keeps the family (4 or 16 bytes).
\<close>

definition ParseAddr :: "string \<Rightarrow> ip option" where
  "ParseAddr s =
     (if CHR ''%'' \<in> set s then None
      else case filter (\<lambda>c. c = CHR ''.'' \<or> c = CHR '':'') s of
        [] \<Rightarrow> None
      | c # _ \<Rightarrow> if c = CHR ''.'' then parseIPv4 s else parseIPv6 s)"

definition As16 :: "ip \<Rightarrow> ip" where
  "As16 a = (if length a = 4 then v4InV6Prefix @ a else a)"

definition ParseIP :: "string \<Rightarrow> ip option" where
  "ParseIP s = map_option As16 (ParseAddr s)"

definition ParseCIDR :: "string \<Rightarrow> (ip \<times> IPNet) option" where
  "ParseCIDR s =
     (case index_byte CHR ''/'' s of
        None \<Rightarrow> None
      | Some i \<Rightarrow>
          (case ParseAddr (take i s) of
             None \<Rightarrow> None
           | Some a \<Rightarrow>
               let ds = drop (Suc i) s; n = dec_val 0 ds; bits = 8 * length a in
               if ds = [] \<or> \<not> list_all is_digit ds \<or> n > bits then None
               else (case CIDRMask n bits of None \<Rightarrow> None
                     | Some m \<Rightarrow> map_option (\<lambda>nn. (As16 a, \<lparr>net_IP = nn, net_Mask = m\<rparr>)) (IP_Mask (As16 a) m))))"

text \<open>\<open>SplitHostPort\<close>; \<open>None\<close> for each of its errors.\<close>

definition SplitHostPort :: "string \<Rightarrow> (string \<times> string) option" where
  "SplitHostPort hp =
     (case last_index_byte CHR '':'' hp of
        None \<Rightarrow> None
      | Some i \<Rightarrow>
          if hd hp = CHR ''['' then
            (case index_byte CHR '']'' hp of
               None \<Rightarrow> None
             | Some e \<Rightarrow>
                 if Suc e \<noteq> i then None
                 else if CHR ''['' \<in> set (drop 1 hp) \<or> CHR '']'' \<in> set (drop (Suc e) hp) then None
                 else Some (take (e - 1) (drop 1 hp), drop (Suc i) hp))
          else if CHR '':'' \<in> set (take i hp) then None
          else if CHR ''['' \<in> set hp \<or> CHR '']'' \<in> set hp then None
          else Some (take i hp, drop (Suc i) hp))"

subsection \<open>What a CIDR block contains\<close>

text \<open>
  The block that a CIDR text denotes: a network number and a prefix length. An IPv4-mapped IPv6
  block with at least 96 bits is the IPv4 block of its last four bytes.
\<close>

definition cidr_block :: "ip \<Rightarrow> nat \<Rightarrow> ip \<times> nat" where
  "cidr_block a n =
     (if length a = 16 \<and> take 12 a = v4InV6Prefix \<and> n \<ge> 96 then (drop 12 a, n - 96) else (a, n))"

definition in_block :: "ip \<times> nat \<Rightarrow> ip \<Rightarrow> bool" where
  "in_block b c \<longleftrightarrow> length (canon c) = length (fst b) \<and>
     take (snd b) (ip_bits (canon c)) = take (snd b) (ip_bits (fst b))"

lemma ip_mask_idem: "ip_mask (ip_mask a m) m = ip_mask a m"
  by (simp add: ip_mask_def list_eq_iff_nth_eq and.assoc)

lemma length_ip_mask [simp]: "length (ip_mask a m) = min (length a) (length m)"
  by (simp add: ip_mask_def)

lemma masked_bits: "length a = l \<Longrightarrow> take n (ip_bits (ip_mask a (mask_bytes l n))) = take n (ip_bits a)"
  using mask_bytes_take[of "ip_mask a (mask_bytes l n)" l a n] by (simp add: ip_mask_idem)

lemma mask_bytes_append: "mask_bytes (k + l) n = mask_bytes k n @ mask_bytes l (n - 8 * k)"
proof (induction k arbitrary: n)
  case (Suc k)
  show ?case
  proof (cases "n \<ge> 8")
    case True
    then show ?thesis using Suc[of "n - 8"] by (simp add: diff_diff_left)
  next
    case False
    then show ?thesis using Suc[of 0] by simp
  qed
qed simp

lemma mask_bytes_full: "n \<ge> 8 * l \<Longrightarrow> ip_mask a (mask_bytes l n) = take l a"
proof (induction l arbitrary: a n)
  case (Suc l)
  then show ?case by (cases a) (auto simp: ip_mask_def)
qed (simp add: ip_mask_def)

lemma ip_mask_append:
  "length a = length m \<Longrightarrow> ip_mask (a @ b) (m @ k) = ip_mask a m @ ip_mask b k"
  by (simp add: ip_mask_def)

lemma masked_16:
  assumes "length a = 16"
  shows "take 12 (ip_mask a (mask_bytes 16 n)) = ip_mask (take 12 a) (mask_bytes 12 n)"
    "drop 12 (ip_mask a (mask_bytes 16 n)) = ip_mask (drop 12 a) (mask_bytes 4 (n - 96))"
proof -
  have "ip_mask (take 12 a @ drop 12 a) (mask_bytes 12 n @ mask_bytes 4 (n - 96)) =
      ip_mask (take 12 a) (mask_bytes 12 n) @ ip_mask (drop 12 a) (mask_bytes 4 (n - 96))"
    by (rule ip_mask_append) (simp add: assms)
  then have e: "ip_mask a (mask_bytes 16 n) =
      ip_mask (take 12 a) (mask_bytes 12 n) @ ip_mask (drop 12 a) (mask_bytes 4 (n - 96))"
    using mask_bytes_append[of 12 4 n] by simp
  show "take 12 (ip_mask a (mask_bytes 16 n)) = ip_mask (take 12 a) (mask_bytes 12 n)"
    "drop 12 (ip_mask a (mask_bytes 16 n)) = ip_mask (drop 12 a) (mask_bytes 4 (n - 96))"
    unfolding e by (simp_all add: assms)
qed

text \<open>Masking with fewer than 96 bits clears the lowest bit of byte 11, so the result is not mapped.\<close>

lemma mask_bytes_last: "n < 8 * Suc l \<Longrightarrow> \<not> bit (mask_bytes (Suc l) n ! l) 0"
proof (induction l arbitrary: n)
  case 0
  then show ?case using bit_mask_byte[of 0 n] by simp
next
  case (Suc l)
  show ?case
  proof (cases "n \<ge> 8")
    case True
    then show ?thesis using Suc.IH[of "n - 8"] Suc.prems by simp
  next
    case False
    then show ?thesis using Suc.IH[of 0] by simp
  qed
qed

lemma short_mask_not_mapped:
  assumes "length a = 16" "n < 96"
  shows "take 12 (ip_mask a (mask_bytes 16 n)) \<noteq> v4InV6Prefix"
proof
  assume "take 12 (ip_mask a (mask_bytes 16 n)) = v4InV6Prefix"
  then have "ip_mask (take 12 a) (mask_bytes 12 n) ! 11 = 0xff"
    by (simp add: masked_16(1)[OF assms(1)] v4InV6Prefix_def nth_append)
  then have "take 12 a ! 11 AND mask_bytes 12 n ! 11 = 0xff"
    using assms(1) by (simp add: ip_mask_def)
  then have "bit (take 12 a ! 11 AND mask_bytes 12 n ! 11) 0 \<longleftrightarrow> bit (0xff :: byte) 0" by (rule arg_cong)
  moreover have "\<not> bit (mask_bytes 12 n ! 11) 0"
    using mask_bytes_last[of n 11] assms(2) by (simp del: mask_bytes.simps)
  ultimately show False unfolding bit_and_iff bit_255 by simp
qed

lemma Contains_masked:
  assumes a: "length a = 4 \<or> length a = 16" and n: "n \<le> 8 * length a"
  shows "Contains \<lparr>net_IP = ip_mask a (mask_bytes (length a) n), net_Mask = mask_bytes (length a) n\<rparr> c \<longleftrightarrow>
         in_block (cidr_block a n) c"
proof -
  let ?nn = "ip_mask a (mask_bytes (length a) n)"
  show ?thesis
  proof (cases "length a = 16 \<and> take 12 a = v4InV6Prefix \<and> n \<ge> 96")
    case True
    then have t: "take 12 ?nn = v4InV6Prefix"
      using masked_16(1)[of a n] mask_bytes_full[of 12 n "take 12 a"] by simp
    then have nnm: "networkNumberAndMask \<lparr>net_IP = ?nn, net_Mask = mask_bytes 16 n\<rparr> =
        Some (ip_mask (drop 12 a) (mask_bytes 4 (n - 96)), mask_bytes 4 (n - 96))"
      using True masked_16(2)[of a n] mask_bytes_append[of 12 4 n]
      by (simp add: networkNumberAndMask_def To4_def)
    show ?thesis
      using True nnm mask_bytes_take[of "drop 12 a" 4 "canon c" "n - 96"]
      by (auto simp: Contains_def Let_def cidr_block_def in_block_def ip_mask_idem)
  next
    case False
    have nnm: "networkNumberAndMask \<lparr>net_IP = ?nn, net_Mask = mask_bytes (length a) n\<rparr> =
        Some (?nn, mask_bytes (length a) n)"
    proof (cases "length a = 4")
      case True
      then show ?thesis by (simp add: networkNumberAndMask_def)
    next
      case 16: False
      then have l: "length a = 16" using a by simp
      have "take 12 ?nn \<noteq> v4InV6Prefix"
      proof (cases "n \<ge> 96")
        case True
        then show ?thesis using False l masked_16(1)[OF l, of n] mask_bytes_full[of 12 n "take 12 a"] by simp
      next
        case n96: False
        then show ?thesis using short_mask_not_mapped[OF l, of n] l by simp
      qed
      then show ?thesis using l by (simp add: networkNumberAndMask_def To4_def)
    qed
    show ?thesis
      unfolding Contains_def Let_def nnm using False mask_bytes_take[of a "length a" "canon c" n]
      by (auto simp: cidr_block_def in_block_def ip_mask_idem)
  qed
qed

subsection \<open>Results of the parsers\<close>

lemma parseIPv4_length: "parseIPv4 s = Some a \<Longrightarrow> length a = 4"
  by (auto simp: parseIPv4_def split: list.splits option.splits)

lemma ipv6_loop_length:
  "ipv6_loop n out el s = Some (out', el', rest) \<Longrightarrow> length out + 2 * n \<le> 16 \<Longrightarrow> length out' \<le> 16"
proof (induction n out el s arbitrary: out' el' rest rule: ipv6_loop.induct)
  case (2 n out el s)
  obtain k acc r where h: "hex_field 0 0 s = (k, acc, r)" by (metis prod_cases3)
  show ?case
    using 2 h by (auto simp: Let_def parseIPv4_length split: if_splits list.splits option.splits)
qed simp

lemma parseIPv6_length: "parseIPv6 s = Some a \<Longrightarrow> length a = 16"
  using ipv6_loop_length
  by (fastforce simp: parseIPv6_def Let_def split: if_splits option.splits prod.splits)

lemma ParseAddr_length: "ParseAddr s = Some a \<Longrightarrow> length a = 4 \<or> length a = 16"
  by (auto simp: ParseAddr_def parseIPv4_length parseIPv6_length split: if_splits list.splits)

lemma ParseIP_length: "ParseIP s = Some a \<Longrightarrow> length a = 16"
  using ParseAddr_length by (fastforce simp: ParseIP_def As16_def)

lemma ParseCIDR_Some:
  assumes "ParseCIDR s = Some (x, nt)"
  obtains i a where "index_byte CHR ''/'' s = Some i" "ParseAddr (take i s) = Some a"
    "dec_val 0 (drop (Suc i) s) \<le> 8 * length a" "length a = 4 \<or> length a = 16"
    "nt = \<lparr>net_IP = ip_mask a (mask_bytes (length a) (dec_val 0 (drop (Suc i) s))),
           net_Mask = mask_bytes (length a) (dec_val 0 (drop (Suc i) s))\<rparr>"
proof -
  obtain i a where ia: "index_byte CHR ''/'' s = Some i" "ParseAddr (take i s) = Some a"
    using assms by (auto simp: ParseCIDR_def split: option.splits)
  let ?n = "dec_val 0 (drop (Suc i) s)"
  have l: "length a = 4 \<or> length a = 16" by (rule ParseAddr_length[OF ia(2)])
  have n: "?n \<le> 8 * length a"
    using assms ia by (auto simp: ParseCIDR_def Let_def split: option.splits if_splits)
  have m: "CIDRMask ?n (8 * length a) = Some (mask_bytes (length a) ?n)"
    using l n by (auto simp: CIDRMask_def)
  have "IP_Mask (As16 a) (mask_bytes (length a) ?n) = Some (ip_mask a (mask_bytes (length a) ?n))"
    using l by (auto simp: IP_Mask_def As16_def Let_def)
  then have "nt = \<lparr>net_IP = ip_mask a (mask_bytes (length a) ?n), net_Mask = mask_bytes (length a) ?n\<rparr>"
    using assms ia m by (auto simp: ParseCIDR_def Let_def split: if_splits)
  with that ia n l show thesis by blast
qed

subsection \<open>Printing addresses\<close>

fun hex_str :: "nat \<Rightarrow> string" where
  "hex_str n =
     (let d = (\<lambda>k. if k < 10 then char_of (48 + k) else char_of (87 + k)) in
      if n < 16 then [d n] else hex_str (n div 16) @ [d (n mod 16)])"

declare hex_str.simps [simp del]

text \<open>The number of zero groups at the head; the first longest run of at least two zero groups.\<close>

fun zero_run :: "nat list \<Rightarrow> nat" where
  "zero_run [] = 0"
| "zero_run (g # gs) = (if g = 0 then Suc (zero_run gs) else 0)"

fun best_run :: "nat \<Rightarrow> nat \<Rightarrow> nat \<Rightarrow> nat list \<Rightarrow> nat \<times> nat" where
  "best_run i st len [] = (st, len)"
| "best_run i st len (g # gs) =
     (let l = zero_run (g # gs) in
      if l \<ge> 2 \<and> l > len then best_run (Suc i) i l gs else best_run (Suc i) st len gs)"

definition groups :: "ip \<Rightarrow> nat list" where
  "groups a = map (\<lambda>i. 256 * unat (a ! (2 * i)) + unat (a ! Suc (2 * i))) [0..<8]"

fun colon_hex :: "nat list \<Rightarrow> string" where
  "colon_hex [] = ''''"
| "colon_hex [g] = hex_str g"
| "colon_hex (g # h # gs) = hex_str g @ '':'' @ colon_hex (h # gs)"

definition ipv6_str :: "ip \<Rightarrow> string" where
  "ipv6_str a =
     (case best_run 0 0 0 (groups a) of (st, len) \<Rightarrow>
        if len = 0 then colon_hex (groups a)
        else colon_hex (take st (groups a)) @ ''::'' @ colon_hex (drop (st + len) (groups a)))"

definition ipv4_str :: "ip \<Rightarrow> string" where
  "ipv4_str a = Join CHR ''.'' (map (\<lambda>b. Itoa (unat b)) a)"

definition hex_byte :: "byte \<Rightarrow> string" where
  "hex_byte b = hex_str (unat b div 16) @ hex_str (unat b mod 16)"

definition ip_String :: "ip \<Rightarrow> string" where
  "ip_String a =
     (if a = [] then ''<nil>''
      else case To4 a of Some b \<Rightarrow> ipv4_str b
      | None \<Rightarrow> if length a = 16 then ipv6_str a else CHR ''?'' # concat (map hex_byte a))"

definition JoinHostPort :: "string \<Rightarrow> string \<Rightarrow> string" where
  "JoinHostPort host port =
     (if CHR '':'' \<in> set host then ''['' @ host @ '']:'' @ port else host @ '':'' @ port)"

text \<open>
  A \<open>net.Addr\<close>: \<open>nil\<close>, the two address types that the code tests for, or another implementation
  with what its \<open>String\<close> method returns. Zones do not occur.
\<close>

datatype addr = NilAddr | TCPAddr ip int | UDPAddr ip int | OtherAddr string

definition host_str :: "ip \<Rightarrow> string" where
  "host_str a = (if a = [] then '''' else ip_String a)"

fun addr_String :: "addr \<Rightarrow> string" where
  "addr_String NilAddr = ''<nil>''"
| "addr_String (TCPAddr a p) = JoinHostPort (host_str a) (Itoa (nat p))"
| "addr_String (UDPAddr a p) = JoinHostPort (host_str a) (Itoa (nat p))"
| "addr_String (OtherAddr s) = s"

lemma index_byte_None: "index_byte c s = None \<longleftrightarrow> c \<notin> set s"
  by (induction s) auto

lemma index_byte_first: "c \<notin> set s \<Longrightarrow> index_byte c (s @ c # t) = Some (length s)"
  by (induction s) auto

lemma last_index_byte_last: "c \<notin> set t \<Longrightarrow> last_index_byte c (s @ c # t) = Some (length s)"
  using index_byte_first[of c "rev t" "rev s"] by (simp add: last_index_byte_def)

text \<open>Splitting a joined address gives its host and port back.\<close>

lemma Split_JoinHostPort:
  assumes "set host \<inter> {CHR ''['', CHR '']''} = {}" "set port \<inter> {CHR '':'', CHR ''['', CHR '']''} = {}"
  shows "SplitHostPort (JoinHostPort host port) = Some (host, port)"
proof (cases "CHR '':'' \<in> set host")
  case True
  let ?hp = "''['' @ host @ '']:'' @ port"
  have i: "last_index_byte CHR '':'' ?hp = Some (Suc (Suc (length host)))"
    using last_index_byte_last[of "CHR '':''" port "''['' @ host @ '']''"] assms(2) by simp
  have e: "index_byte CHR '']'' ?hp = Some (Suc (length host))"
    using index_byte_first[of "CHR '']''" "''['' @ host" "'':'' @ port"] assms(1) by simp
  show ?thesis
    using True assms i e by (auto simp: JoinHostPort_def SplitHostPort_def)
next
  case False
  let ?hp = "host @ '':'' @ port"
  have i: "last_index_byte CHR '':'' ?hp = Some (length host)"
    using last_index_byte_last[of "CHR '':''" port host] assms(2) by simp
  have h: "hd ?hp \<noteq> CHR ''[''" using assms(1) by (cases host) auto
  show ?thesis
    using False assms i h by (auto simp: JoinHostPort_def SplitHostPort_def)
qed

subsection \<open>Bytes and strings\<close>

definition byte_of_char :: "char \<Rightarrow> byte" where
  "byte_of_char c = of_nat (char_val c)"

definition char_of_byte :: "byte \<Rightarrow> char" where
  "char_of_byte b = char_of (unat b)"

lemma unat_byte_less [simp]: "unat (b :: byte) < 256"
proof -
  have "unat b < 2 ^ LENGTH(8)" by (rule unsigned_less)
  then show ?thesis by simp
qed

lemma char_of_byte_of_char [simp]: "char_of_byte (byte_of_char c) = c"
proof -
  have "unat (of_nat (char_val c) :: byte) = char_val c"
    by (simp add: unsigned_of_nat take_bit_eq_mod)
  then show ?thesis by (simp add: char_of_byte_def byte_of_char_def) (simp add: char_val_def)
qed

lemma byte_of_char_of_byte [simp]: "byte_of_char (char_of_byte b) = b"
  by (simp add: char_of_byte_def byte_of_char_def)

abbreviation bytes_of_string :: "string \<Rightarrow> byte list" where
  "bytes_of_string s \<equiv> map byte_of_char s"

abbreviation string_of_bytes :: "byte list \<Rightarrow> string" where
  "string_of_bytes bs \<equiv> map char_of_byte bs"

lemma string_of_bytes_inverse [simp]:
  "string_of_bytes (bytes_of_string s) = s" "bytes_of_string (string_of_bytes bs) = bs"
  by (simp_all add: comp_def)

end
