(* ===== verification/Socks_Statute.thy ===== *)
theory Socks_Statute
  imports Go_Net
begin

text \<open>
  \<open>third_party/go-socks5/statute\<close>: the SOCKS5 wire messages. A reader is the list of the bytes it
  will deliver before the peer closes; a parser returns its result with the unread rest, or an
  error. \<open>io.ReadFull\<close>, \<open>io.ReadAtLeast\<close> for the whole buffer, and the one-byte \<open>Read\<close>s on the
  buffered reader are \<open>ReadFull\<close>.

  \<open>codec\<close> is the contract of a message type: the parser accepts exactly the encodings of the
  well-formed messages. Round trips and prefix-freeness are proved once from it.
\<close>

definition VersionSocks5 :: byte where "VersionSocks5 = 5"
definition CommandConnect :: byte where "CommandConnect = 1"
definition CommandBind :: byte where "CommandBind = 2"
definition CommandAssociate :: byte where "CommandAssociate = 3"
definition MethodNoAuth :: byte where "MethodNoAuth = 0"
definition MethodUserPassAuth :: byte where "MethodUserPassAuth = 2"
definition MethodNoAcceptable :: byte where "MethodNoAcceptable = 0xff"
definition ATYPIPv4 :: byte where "ATYPIPv4 = 1"
definition ATYPDomain :: byte where "ATYPDomain = 3"
definition ATYPIPv6 :: byte where "ATYPIPv6 = 4"
definition RepSuccess :: byte where "RepSuccess = 0"
definition RepServerFailure :: byte where "RepServerFailure = 1"
definition RepRuleFailure :: byte where "RepRuleFailure = 2"
definition RepNetworkUnreachable :: byte where "RepNetworkUnreachable = 3"
definition RepHostUnreachable :: byte where "RepHostUnreachable = 4"
definition RepConnectionRefused :: byte where "RepConnectionRefused = 5"
definition RepCommandNotSupported :: byte where "RepCommandNotSupported = 7"
definition RepAddrTypeNotSupported :: byte where "RepAddrTypeNotSupported = 8"
definition UserPassAuthVersion :: byte where "UserPassAuthVersion = 1"
definition AuthSuccess :: byte where "AuthSuccess = 0"
definition AuthFailure :: byte where "AuthFailure = 1"

lemmas atyp_defs = ATYPIPv4_def ATYPDomain_def ATYPIPv6_def

datatype statute_error = ErrShort | ErrVersion byte | ErrUnrecognizedAddrType

subsection \<open>Bytes and readers\<close>

definition ReadFull :: "nat \<Rightarrow> byte list \<Rightarrow> statute_error + byte list \<times> byte list" where
  "ReadFull n r = (if length r < n then Inl ErrShort else Inr (take n r, drop n r))"

lemma ReadFull_Inr: "ReadFull n r = Inr (bs, rest) \<longleftrightarrow> r = bs @ rest \<and> length bs = n"
  by (auto simp: ReadFull_def)

lemma ReadFull_append [simp]: "length bs = n \<Longrightarrow> ReadFull n (bs @ rest) = Inr (bs, rest)"
  by (simp add: ReadFull_Inr)

text \<open>\<open>binary.BigEndian.Uint16\<close> and the two bytes \<open>byte(p >> 8)\<close>, \<open>byte(p)\<close> of an \<open>int\<close>.\<close>

definition Uint16 :: "byte list \<Rightarrow> int" where
  "Uint16 bs = 256 * uint (bs ! 0) + uint (bs ! 1)"

definition port_bytes :: "int \<Rightarrow> byte list" where
  "port_bytes p = [word_of_int (p div 256), word_of_int p]"

lemma length_port_bytes [simp]: "length (port_bytes p) = 2"
  by (simp add: port_bytes_def)

lemma uint_byte_less [simp]: "uint (b :: byte) < 256"
proof -
  have "uint b < 2 ^ LENGTH(8)" by (rule unsigned_less)
  then show ?thesis by simp
qed

lemma Uint16_port_bytes [simp]: "0 \<le> p \<Longrightarrow> p < 65536 \<Longrightarrow> Uint16 (port_bytes p) = p"
  by (simp add: Uint16_def port_bytes_def uint_word_of_int)

lemma port_bytes_Uint16: "length bs = 2 \<Longrightarrow> port_bytes (Uint16 bs) = bs"
proof -
  assume "length bs = 2"
  then obtain a b where bs: "bs = [a, b]" by (auto simp: numeral_2_eq_2 length_Suc_conv)
  have "(256 * uint a + uint b) div 256 = uint a" by simp
  moreover have "(256 :: byte) = 0" by simp
  then have "256 * a = 0" by (metis mult_zero_left)
  then have "(of_int (256 * uint a + uint b) :: byte) = b" by simp
  ultimately show ?thesis by (simp add: bs port_bytes_def Uint16_def)
qed

lemma Uint16_bounds: "0 \<le> Uint16 bs \<and> Uint16 bs < 65536"
proof -
  have "uint (bs ! 0) < 256" "uint (bs ! 1) < 256" "0 \<le> uint (bs ! 0)" "0 \<le> uint (bs ! 1)" by simp_all
  then show ?thesis unfolding Uint16_def by linarith
qed

subsection \<open>The contract of a message type\<close>

locale codec =
  fixes encode :: "'m \<Rightarrow> byte list"
    and parse :: "byte list \<Rightarrow> statute_error + 'm \<times> byte list"
    and wf :: "'m \<Rightarrow> bool"
  assumes parse_iff: "parse bs = Inr (m, rest) \<longleftrightarrow> wf m \<and> bs = encode m @ rest"
begin

lemma roundtrip: "wf m \<Longrightarrow> parse (encode m @ rest) = Inr (m, rest)"
  by (simp add: parse_iff)

lemma prefix_free:
  assumes "wf m" "wf m'" "encode m @ rest = encode m' @ rest'"
  shows "m = m' \<and> rest = rest'"
proof -
  have "parse (encode m @ rest) = Inr (m, rest)" "parse (encode m @ rest) = Inr (m', rest')"
    using roundtrip[OF assms(1)] roundtrip[OF assms(2), of rest'] assms(3) by metis+
  then show ?thesis by simp
qed

lemma parse_error_iff: "(\<exists>e. parse bs = Inl e) \<longleftrightarrow> (\<nexists>m rest. wf m \<and> bs = encode m @ rest)"
  by (metis parse_iff sum.distinct(1) sum.exhaust surj_pair)

end

subsection \<open>Addresses\<close>

record AddrSpec =
  as_FQDN :: string
  as_IP :: ip
  as_Port :: int
  as_AddrType :: byte

definition IPv4 :: "byte list \<Rightarrow> ip" where
  "IPv4 bs = v4InV6Prefix @ bs"

definition To16 :: "ip \<Rightarrow> ip" where
  "To16 a = (if length a = 4 then IPv4 a else if length a = 16 then a else [])"

text \<open>
  The address part that \<open>ParseRequest\<close> and \<open>ParseReply\<close> share (their \<open>switch\<close> on the address type):
  the address and the port.
\<close>

definition parse_addr :: "byte \<Rightarrow> byte list \<Rightarrow> statute_error + AddrSpec \<times> byte list" where
  "parse_addr atyp r =
     (if atyp = ATYPIPv4 then
        (case ReadFull (4 + 2) r of Inl e \<Rightarrow> Inl e
         | Inr (addr, r) \<Rightarrow>
             Inr (\<lparr>as_FQDN = '''', as_IP = IPv4 (take 4 addr), as_Port = Uint16 (drop 4 addr),
                   as_AddrType = atyp\<rparr>, r))
      else if atyp = ATYPIPv6 then
        (case ReadFull (16 + 2) r of Inl e \<Rightarrow> Inl e
         | Inr (addr, r) \<Rightarrow>
             Inr (\<lparr>as_FQDN = '''', as_IP = take 16 addr, as_Port = Uint16 (drop 16 addr),
                   as_AddrType = atyp\<rparr>, r))
      else if atyp = ATYPDomain then
        (case ReadFull 1 r of Inl e \<Rightarrow> Inl e
         | Inr (tmp, r) \<Rightarrow>
             let domainLen = unat (tmp ! 0) in
             (case ReadFull (domainLen + 2) r of Inl e \<Rightarrow> Inl e
              | Inr (addr, r) \<Rightarrow>
                  Inr (\<lparr>as_FQDN = string_of_bytes (take domainLen addr), as_IP = [],
                        as_Port = Uint16 (drop domainLen addr), as_AddrType = atyp\<rparr>, r)))
      else Inl ErrUnrecognizedAddrType)"

text \<open>The same for \<open>Bytes\<close>: the address type, the address and the port.\<close>

definition addr_tail :: "AddrSpec \<Rightarrow> byte list" where
  "addr_tail a =
     (let addr = (if as_AddrType a = ATYPIPv4 then (case To4 (as_IP a) of Some b \<Rightarrow> b | None \<Rightarrow> [])
                  else if as_AddrType a = ATYPIPv6 then To16 (as_IP a)
                  else bytes_of_string (as_FQDN a))
      in as_AddrType a #
         (if as_AddrType a = ATYPDomain then [of_nat (length (as_FQDN a))] else []) @
         addr @ port_bytes (as_Port a))"

definition wf_addr :: "AddrSpec \<Rightarrow> bool" where
  "wf_addr a \<longleftrightarrow> 0 \<le> as_Port a \<and> as_Port a < 65536 \<and>
     (as_AddrType a = ATYPIPv4 \<and> as_FQDN a = '''' \<and> (\<exists>bs. length bs = 4 \<and> as_IP a = IPv4 bs) \<or>
      as_AddrType a = ATYPIPv6 \<and> as_FQDN a = '''' \<and> length (as_IP a) = 16 \<or>
      as_AddrType a = ATYPDomain \<and> as_IP a = [] \<and> length (as_FQDN a) < 256)"

lemma atyp_distinct [simp]:
  "ATYPIPv4 \<noteq> ATYPDomain" "ATYPIPv4 \<noteq> ATYPIPv6" "ATYPDomain \<noteq> ATYPIPv6"
  "ATYPDomain \<noteq> ATYPIPv4" "ATYPIPv6 \<noteq> ATYPIPv4" "ATYPIPv6 \<noteq> ATYPDomain"
  by (simp_all add: atyp_defs)

lemma To4_IPv4 [simp]: "length bs = 4 \<Longrightarrow> To4 (IPv4 bs) = Some bs"
  by (simp add: IPv4_def)

lemma unat_of_nat_byte [simp]: "n < 256 \<Longrightarrow> unat (of_nat n :: byte) = n"
  by (simp add: unsigned_of_nat take_bit_eq_mod)

lemma addr_tail_head: "addr_tail a = as_AddrType a # tl (addr_tail a)"
  by (simp add: addr_tail_def Let_def)

lemma addr_tail_v4:
  "length bs = 4 \<Longrightarrow> as_AddrType a = ATYPIPv4 \<Longrightarrow> as_IP a = IPv4 bs \<Longrightarrow>
   tl (addr_tail a) = bs @ port_bytes (as_Port a)"
  by (simp add: addr_tail_def)

lemma addr_tail_v6:
  "length (as_IP a) = 16 \<Longrightarrow> as_AddrType a = ATYPIPv6 \<Longrightarrow>
   tl (addr_tail a) = as_IP a @ port_bytes (as_Port a)"
  by (simp add: addr_tail_def To16_def)

lemma addr_tail_domain:
  "as_AddrType a = ATYPDomain \<Longrightarrow>
   tl (addr_tail a) =
     of_nat (length (as_FQDN a)) # bytes_of_string (as_FQDN a) @ port_bytes (as_Port a)"
  by (simp add: addr_tail_def)

lemma addr_eq_iff:
  "(a :: AddrSpec) = b \<longleftrightarrow>
   as_FQDN a = as_FQDN b \<and> as_IP a = as_IP b \<and> as_Port a = as_Port b \<and> as_AddrType a = as_AddrType b"
  by (cases a; cases b) auto

lemma parse_addr_tail:
  assumes "wf_addr a"
  shows "parse_addr (as_AddrType a) (tl (addr_tail a) @ rest) = Inr (a, rest)"
proof -
  have port: "0 \<le> as_Port a" "as_Port a < 65536" using assms by (auto simp: wf_addr_def)
  from assms consider
      (v4) bs where "as_AddrType a = ATYPIPv4" "as_FQDN a = ''''" "length bs = 4" "as_IP a = IPv4 bs"
    | (v6) "as_AddrType a = ATYPIPv6" "as_FQDN a = ''''" "length (as_IP a) = 16"
    | (dom) "as_AddrType a = ATYPDomain" "as_IP a = []" "length (as_FQDN a) < 256"
    by (auto simp: wf_addr_def)
  then show ?thesis
  proof cases
    case (v4 bs)
    have "ReadFull 6 (bs @ port_bytes (as_Port a) @ rest) = Inr (bs @ port_bytes (as_Port a), rest)"
      using v4(3) by (simp add: ReadFull_Inr)
    then show ?thesis
      using v4 port by (simp add: addr_tail_v4 parse_addr_def addr_eq_iff)
  next
    case v6
    have "ReadFull 18 (as_IP a @ port_bytes (as_Port a) @ rest) = Inr (as_IP a @ port_bytes (as_Port a), rest)"
      using v6(3) by (simp add: ReadFull_Inr)
    then show ?thesis
      using v6 port by (simp add: addr_tail_v6 parse_addr_def addr_eq_iff)
  next
    case dom
    let ?n = "of_nat (length (as_FQDN a)) :: byte" and ?f = "bytes_of_string (as_FQDN a)"
    have "ReadFull 1 (?n # ?f @ port_bytes (as_Port a) @ rest) = Inr ([?n], ?f @ port_bytes (as_Port a) @ rest)"
      by (simp add: ReadFull_Inr)
    moreover have "ReadFull (length (as_FQDN a) + 2) (?f @ port_bytes (as_Port a) @ rest) =
        Inr (?f @ port_bytes (as_Port a), rest)"
      by (simp add: ReadFull_Inr)
    ultimately show ?thesis
      using dom port by (simp add: addr_tail_domain parse_addr_def addr_eq_iff comp_def)
  qed
qed

lemma parse_addr_InrD:
  assumes "parse_addr atyp r = Inr (a, rest)"
  shows "wf_addr a \<and> as_AddrType a = atyp \<and> r = tl (addr_tail a) @ rest"
proof -
  consider (v4) "atyp = ATYPIPv4" | (v6) "atyp = ATYPIPv6" | (dom) "atyp = ATYPDomain"
    using assms by (auto simp: parse_addr_def split: if_splits)
  then show ?thesis
  proof cases
    case v4
    then obtain addr where rd: "ReadFull 6 r = Inr (addr, rest)"
      and a: "a = \<lparr>as_FQDN = '''', as_IP = IPv4 (take 4 addr), as_Port = Uint16 (drop 4 addr), as_AddrType = atyp\<rparr>"
      using assms by (auto simp: parse_addr_def split: sum.splits prod.splits)
    have r: "r = (take 4 addr @ drop 4 addr) @ rest" and len: "length addr = 6"
      using rd by (simp_all add: ReadFull_Inr)
    have "tl (addr_tail a) = take 4 addr @ port_bytes (as_Port a)"
      by (rule addr_tail_v4) (simp_all add: a v4 len)
    moreover have "port_bytes (as_Port a) = drop 4 addr"
      by (simp add: a port_bytes_Uint16 len)
    ultimately have "r = tl (addr_tail a) @ rest" using r by simp
    moreover have "wf_addr a"
      using Uint16_bounds[of "drop 4 addr"] len v4
      by (simp add: wf_addr_def a) (rule exI[of _ "take 4 addr"], simp)
    ultimately show ?thesis by (simp add: a)
  next
    case v6
    then obtain addr where rd: "ReadFull 18 r = Inr (addr, rest)"
      and a: "a = \<lparr>as_FQDN = '''', as_IP = take 16 addr, as_Port = Uint16 (drop 16 addr), as_AddrType = atyp\<rparr>"
      using assms by (auto simp: parse_addr_def split: sum.splits prod.splits)
    have r: "r = (take 16 addr @ drop 16 addr) @ rest" and len: "length addr = 18"
      using rd by (simp_all add: ReadFull_Inr)
    have "tl (addr_tail a) = take 16 addr @ port_bytes (as_Port a)"
      using addr_tail_v6[of a] by (simp add: a v6 len)
    moreover have "port_bytes (as_Port a) = drop 16 addr"
      by (simp add: a port_bytes_Uint16 len)
    ultimately have "r = tl (addr_tail a) @ rest" using r by simp
    moreover have "wf_addr a"
      using Uint16_bounds[of "drop 16 addr"] len v6 by (simp add: wf_addr_def a)
    ultimately show ?thesis by (simp add: a)
  next
    case dom
    then obtain tmp r1 addr where rd1: "ReadFull 1 r = Inr (tmp, r1)"
      and rd: "ReadFull (unat (tmp ! 0) + 2) r1 = Inr (addr, rest)"
      and a: "a = \<lparr>as_FQDN = string_of_bytes (take (unat (tmp ! 0)) addr), as_IP = [],
                   as_Port = Uint16 (drop (unat (tmp ! 0)) addr), as_AddrType = atyp\<rparr>"
      using assms by (auto simp: parse_addr_def Let_def split: sum.splits prod.splits)
    obtain b where tmp: "tmp = [b]" and r: "r = b # r1"
      using rd1 by (auto simp: ReadFull_Inr length_Suc_conv)
    have r1: "r1 = (take (unat b) addr @ drop (unat b) addr) @ rest" and len: "length addr = unat b + 2"
      using rd by (simp_all add: ReadFull_Inr tmp)
    have "tl (addr_tail a) = b # take (unat b) addr @ port_bytes (as_Port a)"
      using addr_tail_domain[of a] by (simp add: a dom len tmp comp_def)
    moreover have "port_bytes (as_Port a) = drop (unat b) addr"
      by (simp add: a tmp port_bytes_Uint16 len)
    ultimately have "r = tl (addr_tail a) @ rest" using r r1 by simp
    moreover have "wf_addr a"
      using Uint16_bounds[of "drop (unat b) addr"] len dom by (simp add: wf_addr_def a tmp)
    ultimately show ?thesis by (simp add: a)
  qed
qed

subsection \<open>Requests and replies\<close>

record stRequest =
  req_Version :: byte
  req_Command :: byte
  req_Reserved :: byte
  req_DstAddr :: AddrSpec

definition st_ParseRequest :: "byte list \<Rightarrow> statute_error + stRequest \<times> byte list" where
  "st_ParseRequest r =
     (case ReadFull 2 r of Inl e \<Rightarrow> Inl e
      | Inr (tmp, r) \<Rightarrow>
          let version = tmp ! 0; command = tmp ! 1 in
          if version \<noteq> VersionSocks5 then Inl (ErrVersion version)
          else (case ReadFull 2 r of Inl e \<Rightarrow> Inl e
            | Inr (tmp, r) \<Rightarrow>
                (case parse_addr (tmp ! 1) r of Inl e \<Rightarrow> Inl e
                 | Inr (a, r) \<Rightarrow>
                     Inr (\<lparr>req_Version = version, req_Command = command, req_Reserved = tmp ! 0,
                           req_DstAddr = a\<rparr>, r))))"

definition Request_Bytes :: "stRequest \<Rightarrow> byte list" where
  "Request_Bytes h = [req_Version h, req_Command h, req_Reserved h] @ addr_tail (req_DstAddr h)"

definition wf_request :: "stRequest \<Rightarrow> bool" where
  "wf_request h \<longleftrightarrow> req_Version h = VersionSocks5 \<and> wf_addr (req_DstAddr h)"

record stReply =
  rep_Version :: byte
  rep_Response :: byte
  rep_Reserved :: byte
  rep_BndAddr :: AddrSpec

definition ParseReply :: "byte list \<Rightarrow> statute_error + stReply \<times> byte list" where
  "ParseReply r =
     (case ReadFull 2 r of Inl e \<Rightarrow> Inl e
      | Inr (tmp, r) \<Rightarrow>
          let version = tmp ! 0; response = tmp ! 1 in
          if version \<noteq> VersionSocks5 then Inl (ErrVersion version)
          else (case ReadFull 2 r of Inl e \<Rightarrow> Inl e
            | Inr (tmp, r) \<Rightarrow>
                (case parse_addr (tmp ! 1) r of Inl e \<Rightarrow> Inl e
                 | Inr (a, r) \<Rightarrow>
                     Inr (\<lparr>rep_Version = version, rep_Response = response, rep_Reserved = tmp ! 0,
                           rep_BndAddr = a\<rparr>, r))))"

definition Reply_Bytes :: "stReply \<Rightarrow> byte list" where
  "Reply_Bytes h = [rep_Version h, rep_Response h, rep_Reserved h] @ addr_tail (rep_BndAddr h)"

definition wf_reply :: "stReply \<Rightarrow> bool" where
  "wf_reply h \<longleftrightarrow> rep_Version h = VersionSocks5 \<and> wf_addr (rep_BndAddr h)"

lemma ReadFull_2: "ReadFull 2 r = Inr (tmp, r') \<longleftrightarrow> (\<exists>a b. tmp = [a, b] \<and> r = a # b # r')"
  by (auto simp: ReadFull_Inr numeral_2_eq_2 length_Suc_conv)

lemma ReadFull_1: "ReadFull (Suc 0) r = Inr (tmp, r') \<longleftrightarrow> (\<exists>a. tmp = [a] \<and> r = a # r')"
  by (auto simp: ReadFull_Inr length_Suc_conv)

lemma ReadFull_2_Cons [simp]: "ReadFull 2 (a # b # r) = Inr ([a, b], r)"
  by (simp add: ReadFull_2)

lemma ReadFull_1_Cons [simp]: "ReadFull (Suc 0) (a # r) = Inr ([a], r)"
  by (simp add: ReadFull_1)

interpretation request_codec: codec Request_Bytes st_ParseRequest wf_request
proof
  fix bs m rest
  show "st_ParseRequest bs = Inr (m, rest) \<longleftrightarrow> wf_request m \<and> bs = Request_Bytes m @ rest"
  proof
    assume "st_ParseRequest bs = Inr (m, rest)"
    then obtain v cmd rsv ty r a where bs: "bs = v # cmd # rsv # ty # r" and v: "v = VersionSocks5"
      and pa: "parse_addr ty r = Inr (a, rest)"
      and m: "m = \<lparr>req_Version = v, req_Command = cmd, req_Reserved = rsv, req_DstAddr = a\<rparr>"
      by (auto simp: st_ParseRequest_def Let_def ReadFull_2 split: sum.splits prod.splits if_splits)
    note D = parse_addr_InrD[OF pa]
    then have "addr_tail a @ rest = ty # r" using addr_tail_head[of a] by (metis append_Cons)
    then show "wf_request m \<and> bs = Request_Bytes m @ rest"
      using D by (simp add: bs v m wf_request_def Request_Bytes_def)
  next
    assume A: "wf_request m \<and> bs = Request_Bytes m @ rest"
    let ?a = "req_DstAddr m"
    have "bs = req_Version m # req_Command m # req_Reserved m # as_AddrType ?a # (tl (addr_tail ?a) @ rest)"
      using A addr_tail_head[of ?a] by (simp add: Request_Bytes_def)
    then show "st_ParseRequest bs = Inr (m, rest)"
      using A parse_addr_tail[of ?a rest] by (simp add: st_ParseRequest_def wf_request_def)
  qed
qed

interpretation reply_codec: codec Reply_Bytes ParseReply wf_reply
proof
  fix bs m rest
  show "ParseReply bs = Inr (m, rest) \<longleftrightarrow> wf_reply m \<and> bs = Reply_Bytes m @ rest"
  proof
    assume "ParseReply bs = Inr (m, rest)"
    then obtain v cmd rsv ty r a where bs: "bs = v # cmd # rsv # ty # r" and v: "v = VersionSocks5"
      and pa: "parse_addr ty r = Inr (a, rest)"
      and m: "m = \<lparr>rep_Version = v, rep_Response = cmd, rep_Reserved = rsv, rep_BndAddr = a\<rparr>"
      by (auto simp: ParseReply_def Let_def ReadFull_2 split: sum.splits prod.splits if_splits)
    note D = parse_addr_InrD[OF pa]
    then have "addr_tail a @ rest = ty # r" using addr_tail_head[of a] by (metis append_Cons)
    then show "wf_reply m \<and> bs = Reply_Bytes m @ rest"
      using D by (simp add: bs v m wf_reply_def Reply_Bytes_def)
  next
    assume A: "wf_reply m \<and> bs = Reply_Bytes m @ rest"
    let ?a = "rep_BndAddr m"
    have "bs = rep_Version m # rep_Response m # rep_Reserved m # as_AddrType ?a # (tl (addr_tail ?a) @ rest)"
      using A addr_tail_head[of ?a] by (simp add: Reply_Bytes_def)
    then show "ParseReply bs = Inr (m, rest)"
      using A parse_addr_tail[of ?a rest] by (simp add: ParseReply_def wf_reply_def)
  qed
qed

subsection \<open>Method negotiation and user/password messages\<close>

record MethodRequest =
  mr_Ver :: byte
  mr_NMethods :: byte
  mr_Methods :: "byte list"

definition NewMethodRequest :: "byte \<Rightarrow> byte list \<Rightarrow> MethodRequest" where
  "NewMethodRequest ver methods =
     \<lparr>mr_Ver = ver, mr_NMethods = of_nat (length methods), mr_Methods = methods\<rparr>"

definition ParseMethodRequest :: "byte list \<Rightarrow> statute_error + MethodRequest \<times> byte list" where
  "ParseMethodRequest r =
     (case ReadFull 1 r of Inl e \<Rightarrow> Inl e
      | Inr (ver, r) \<Rightarrow>
     (case ReadFull 1 r of Inl e \<Rightarrow> Inl e
      | Inr (n, r) \<Rightarrow>
     (case ReadFull (unat (n ! 0)) r of Inl e \<Rightarrow> Inl e
      | Inr (ms, r) \<Rightarrow> Inr (\<lparr>mr_Ver = ver ! 0, mr_NMethods = n ! 0, mr_Methods = ms\<rparr>, r))))"

definition MethodRequest_Bytes :: "MethodRequest \<Rightarrow> byte list" where
  "MethodRequest_Bytes m = mr_Ver m # mr_NMethods m # mr_Methods m"

record UserPassRequest =
  up_Ver :: byte
  up_Ulen :: byte
  up_Plen :: byte
  up_User :: "byte list"
  up_Pass :: "byte list"

definition NewUserPassRequest :: "byte \<Rightarrow> byte list \<Rightarrow> byte list \<Rightarrow> UserPassRequest" where
  "NewUserPassRequest ver user pass =
     \<lparr>up_Ver = ver, up_Ulen = of_nat (length user), up_Plen = of_nat (length pass),
      up_User = user, up_Pass = pass\<rparr>"

definition ParseUserPassRequest :: "byte list \<Rightarrow> statute_error + UserPassRequest \<times> byte list" where
  "ParseUserPassRequest r =
     (case ReadFull 2 r of Inl e \<Rightarrow> Inl e
      | Inr (tmp, r) \<Rightarrow>
          if tmp ! 0 \<noteq> UserPassAuthVersion then Inl (ErrVersion (tmp ! 0))
          else (case ReadFull (unat (tmp ! 1)) r of Inl e \<Rightarrow> Inl e
            | Inr (user, r) \<Rightarrow>
               (case ReadFull 1 r of Inl e \<Rightarrow> Inl e
                | Inr (pl, r) \<Rightarrow>
                   (case ReadFull (unat (pl ! 0)) r of Inl e \<Rightarrow> Inl e
                    | Inr (pass, r) \<Rightarrow>
                        Inr (\<lparr>up_Ver = tmp ! 0, up_Ulen = tmp ! 1, up_Plen = pl ! 0, up_User = user,
                              up_Pass = pass\<rparr>, r)))))"

definition UserPassRequest_Bytes :: "UserPassRequest \<Rightarrow> byte list" where
  "UserPassRequest_Bytes u = [up_Ver u, up_Ulen u] @ up_User u @ [up_Plen u] @ up_Pass u"

definition wf_methods :: "MethodRequest \<Rightarrow> bool" where
  "wf_methods m \<longleftrightarrow> unat (mr_NMethods m) = length (mr_Methods m)"

definition wf_userpass :: "UserPassRequest \<Rightarrow> bool" where
  "wf_userpass u \<longleftrightarrow> up_Ver u = UserPassAuthVersion \<and> unat (up_Ulen u) = length (up_User u) \<and>
     unat (up_Plen u) = length (up_Pass u)"

interpretation method_codec: codec MethodRequest_Bytes ParseMethodRequest wf_methods
proof
  fix bs m rest
  show "ParseMethodRequest bs = Inr (m, rest) \<longleftrightarrow> wf_methods m \<and> bs = MethodRequest_Bytes m @ rest"
  proof
    assume "ParseMethodRequest bs = Inr (m, rest)"
    then obtain v n r ms where "bs = v # n # r" "ReadFull (unat n) r = Inr (ms, rest)"
      "m = \<lparr>mr_Ver = v, mr_NMethods = n, mr_Methods = ms\<rparr>"
      by (auto simp: ParseMethodRequest_def ReadFull_1 split: sum.splits prod.splits)
    then show "wf_methods m \<and> bs = MethodRequest_Bytes m @ rest"
      by (simp add: ReadFull_Inr wf_methods_def MethodRequest_Bytes_def)
  next
    assume "wf_methods m \<and> bs = MethodRequest_Bytes m @ rest"
    then show "ParseMethodRequest bs = Inr (m, rest)"
      by (simp add: ParseMethodRequest_def wf_methods_def MethodRequest_Bytes_def)
  qed
qed

interpretation userpass_codec: codec UserPassRequest_Bytes ParseUserPassRequest wf_userpass
proof
  fix bs m rest
  show "ParseUserPassRequest bs = Inr (m, rest) \<longleftrightarrow> wf_userpass m \<and> bs = UserPassRequest_Bytes m @ rest"
  proof
    assume "ParseUserPassRequest bs = Inr (m, rest)"
    then obtain v n r user pl r' pass where "bs = v # n # r" "v = UserPassAuthVersion"
      "ReadFull (unat n) r = Inr (user, pl # r')" "ReadFull (unat pl) r' = Inr (pass, rest)"
      "m = \<lparr>up_Ver = v, up_Ulen = n, up_Plen = pl, up_User = user, up_Pass = pass\<rparr>"
      by (auto simp: ParseUserPassRequest_def ReadFull_1 ReadFull_2 split: sum.splits prod.splits if_splits)
    then show "wf_userpass m \<and> bs = UserPassRequest_Bytes m @ rest"
      by (simp add: ReadFull_Inr wf_userpass_def UserPassRequest_Bytes_def)
  next
    assume "wf_userpass m \<and> bs = UserPassRequest_Bytes m @ rest"
    then show "ParseUserPassRequest bs = Inr (m, rest)"
      by (simp add: ParseUserPassRequest_def wf_userpass_def UserPassRequest_Bytes_def)
  qed
qed

record UserPassReply =
  upr_Ver :: byte
  upr_Status :: byte

definition ParseUserPassReply :: "byte list \<Rightarrow> statute_error + UserPassReply \<times> byte list" where
  "ParseUserPassReply r =
     (case ReadFull 2 r of Inl e \<Rightarrow> Inl e
      | Inr (bb, r) \<Rightarrow> Inr (\<lparr>upr_Ver = bb ! 0, upr_Status = bb ! 1\<rparr>, r))"

record MethodReply =
  mrep_Ver :: byte
  mrep_Method :: byte

definition ParseMethodReply :: "byte list \<Rightarrow> statute_error + MethodReply \<times> byte list" where
  "ParseMethodReply r =
     (case ReadFull 2 r of Inl e \<Rightarrow> Inl e
      | Inr (bb, r) \<Rightarrow> Inr (\<lparr>mrep_Ver = bb ! 0, mrep_Method = bb ! 1\<rparr>, r))"

subsection \<open>Addresses as text\<close>

datatype addr_error = AddrSplitErr | AddrPortErr

text \<open>\<open>ParseAddrSpec\<close>: a literal IP keeps the form that \<open>net.ParseIP\<close> returns.\<close>

definition ParseAddrSpec :: "string \<Rightarrow> addr_error + AddrSpec" where
  "ParseAddrSpec addr =
     (case SplitHostPort addr of
        None \<Rightarrow> Inl AddrSplitErr
      | Some (host, port) \<Rightarrow>
          (case Atoi port of
             None \<Rightarrow> Inl AddrPortErr
           | Some p \<Rightarrow>
               (case ParseIP host of
                  Some i \<Rightarrow>
                    Inr \<lparr>as_FQDN = '''', as_IP = i, as_Port = p,
                         as_AddrType = (if To4 i \<noteq> None then ATYPIPv4 else ATYPIPv6)\<rparr>
                | None \<Rightarrow>
                    Inr \<lparr>as_FQDN = host, as_IP = [], as_Port = p, as_AddrType = ATYPDomain\<rparr>)))"

subsection \<open>UDP datagrams\<close>

record Datagram =
  dg_RSV :: "16 word"
  dg_Frag :: byte
  dg_DstAddr :: AddrSpec
  dg_Data :: "byte list"

datatype datagram_error = DatagramAddr addr_error | HostTooLong | DatagramTooShort | DatagramAddrType

definition NewDatagram :: "string \<Rightarrow> byte list \<Rightarrow> datagram_error + Datagram" where
  "NewDatagram destAddr data =
     (case ParseAddrSpec destAddr of
        Inl e \<Rightarrow> Inl (DatagramAddr e)
      | Inr a \<Rightarrow>
          if as_AddrType a = ATYPDomain \<and> length (as_FQDN a) > 255 then Inl HostTooLong
          else Inr \<lparr>dg_RSV = 0, dg_Frag = 0, dg_DstAddr = a, dg_Data = data\<rparr>)"

definition ParseDatagram :: "byte list \<Rightarrow> datagram_error + Datagram" where
  "ParseDatagram b =
     (if length b < 4 + 4 + 2 then Inl DatagramTooShort
      else let atyp = b ! 3 in
        if atyp = ATYPIPv4 then
          Inr \<lparr>dg_RSV = 0, dg_Frag = b ! 2,
               dg_DstAddr = \<lparr>as_FQDN = '''', as_IP = IPv4 (take 4 (drop 4 b)),
                             as_Port = Uint16 (drop 8 b), as_AddrType = atyp\<rparr>,
               dg_Data = drop 10 b\<rparr>
        else if atyp = ATYPIPv6 then
          (if length b \<le> 4 + 18 then Inl DatagramTooShort
           else Inr \<lparr>dg_RSV = 0, dg_Frag = b ! 2,
               dg_DstAddr = \<lparr>as_FQDN = '''', as_IP = take 16 (drop 4 b),
                             as_Port = Uint16 (drop 20 b), as_AddrType = atyp\<rparr>,
               dg_Data = drop 22 b\<rparr>)
        else if atyp = ATYPDomain then
          (let addrLen = unat (b ! 4); headLen = 4 + (1 + addrLen + 2) in
           if length b \<le> headLen then Inl DatagramTooShort
           else Inr \<lparr>dg_RSV = 0, dg_Frag = b ! 2,
               dg_DstAddr = \<lparr>as_FQDN = string_of_bytes (take addrLen (drop 5 b)), as_IP = [],
                             as_Port = Uint16 (drop (5 + addrLen) b), as_AddrType = atyp\<rparr>,
               dg_Data = drop headLen b\<rparr>)
        else Inl DatagramAddrType)"

text \<open>
  \<open>values\<close>; \<open>None\<close> is its panic on an unknown address type. The high byte of \<open>RSV\<close> is taken as
  \<open>byte(RSV << 8)\<close>, as the source has it.
\<close>

definition Datagram_values :: "bool \<Rightarrow> Datagram \<Rightarrow> byte list option" where
  "Datagram_values hasData d =
     (if as_AddrType (dg_DstAddr d) \<notin> {ATYPIPv4, ATYPIPv6, ATYPDomain} then None
      else Some ([ucast (push_bit 8 (dg_RSV d)), ucast (dg_RSV d), dg_Frag d] @ addr_tail (dg_DstAddr d) @
                 (if hasData then dg_Data d else [])))"

definition Datagram_Header :: "Datagram \<Rightarrow> byte list option" where
  "Datagram_Header d = Datagram_values False d"

definition Datagram_Bytes :: "Datagram \<Rightarrow> byte list option" where
  "Datagram_Bytes d = Datagram_values True d"

definition wf_datagram :: "Datagram \<Rightarrow> bool" where
  "wf_datagram d \<longleftrightarrow> dg_RSV d = 0 \<and> wf_addr (dg_DstAddr d) \<and>
     (as_AddrType (dg_DstAddr d) \<noteq> ATYPIPv4 \<longrightarrow> dg_Data d \<noteq> []) \<and>
     (as_AddrType (dg_DstAddr d) = ATYPDomain \<longrightarrow>
        3 \<le> length (as_FQDN (dg_DstAddr d)) + length (dg_Data d))"

lemma Datagram_Bytes_wf:
  assumes "wf_datagram d"
  shows "Datagram_Bytes d =
     Some ([0, 0, dg_Frag d, as_AddrType (dg_DstAddr d)] @ tl (addr_tail (dg_DstAddr d)) @ dg_Data d)"
proof -
  have "as_AddrType (dg_DstAddr d) \<in> {ATYPIPv4, ATYPIPv6, ATYPDomain}"
    using assms by (auto simp: wf_datagram_def wf_addr_def)
  then show ?thesis
    using assms addr_tail_head[of "dg_DstAddr d"]
    by (simp add: Datagram_Bytes_def Datagram_values_def wf_datagram_def)
qed

lemma drop_head5:
  "drop (5 + n) (a # b # c # d # e # xs) = drop n xs"
  "drop (7 + n) (a # b # c # d # e # xs) = drop (2 + n) xs"
  by (simp_all add: numeral_eq_Suc)

lemma Datagram_roundtrip:
  assumes "wf_datagram d"
  shows "map_option ParseDatagram (Datagram_Bytes d) = Some (Inr d)"
proof -
  let ?a = "dg_DstAddr d"
  obtain a frag data where d: "d = \<lparr>dg_RSV = 0, dg_Frag = frag, dg_DstAddr = a, dg_Data = data\<rparr>"
    using assms by (cases d) (simp add: wf_datagram_def)
  have port: "0 \<le> as_Port a" "as_Port a < 65536" using assms by (auto simp: wf_datagram_def wf_addr_def d)
  have uint: "Uint16 (port_bytes (as_Port a) @ data) = as_Port a"
    using port by (simp add: Uint16_def port_bytes_def uint_word_of_int)
  from assms consider
      (v4) bs where "as_AddrType a = ATYPIPv4" "as_FQDN a = ''''" "length bs = 4" "as_IP a = IPv4 bs"
    | (v6) "as_AddrType a = ATYPIPv6" "as_FQDN a = ''''" "length (as_IP a) = 16" "data \<noteq> []"
    | (dom) "as_AddrType a = ATYPDomain" "as_IP a = []" "length (as_FQDN a) < 256" "data \<noteq> []"
        "3 \<le> length (as_FQDN a) + length data"
    by (auto simp: wf_datagram_def wf_addr_def d)
  then have "ParseDatagram ([0, 0, frag, as_AddrType a] @ tl (addr_tail a) @ data) = Inr d"
  proof cases
    case (v4 bs)
    have "drop 8 ([0, 0, frag, ATYPIPv4] @ (bs @ port_bytes (as_Port a)) @ data) = port_bytes (as_Port a) @ data"
      "drop 10 ([0, 0, frag, ATYPIPv4] @ (bs @ port_bytes (as_Port a)) @ data) = data"
      using v4(3) by simp_all
    then show ?thesis
      unfolding v4(1) addr_tail_v4[OF v4(3,1,4)] using v4 uint
      by (simp add: ParseDatagram_def Let_def addr_eq_iff d)
  next
    case v6
    then show ?thesis
      using uint by (simp add: addr_tail_v6 ParseDatagram_def Let_def addr_eq_iff d)
  next
    case dom
    then show ?thesis
      using uint by (simp add: addr_tail_domain ParseDatagram_def Let_def addr_eq_iff d comp_def drop_head5)
  qed
  then show ?thesis unfolding Datagram_Bytes_wf[OF assms] by (simp add: d)
qed

subsection \<open>What the messages promise\<close>


text \<open>
  A datagram survives encoding and parsing when its reserved field is zero, its address is
  well formed and, for IPv6 and domain addresses, it carries data (at least three bytes together
  with a domain name).
\<close>

theorem datagram_survives:
  assumes "wf_datagram d"
  shows "map_option ParseDatagram (Datagram_Bytes d) = Some (Inr d)"
  using assms by (rule Datagram_roundtrip)

theorem datagram_survives_witness:
  "map_option ParseDatagram (Datagram_Bytes \<lparr>dg_RSV = 0, dg_Frag = 0,
      dg_DstAddr = \<lparr>as_FQDN = ''a.io'', as_IP = [], as_Port = 53, as_AddrType = ATYPDomain\<rparr>,
      dg_Data = [7]\<rparr>) =
   Some (Inr \<lparr>dg_RSV = 0, dg_Frag = 0,
      dg_DstAddr = \<lparr>as_FQDN = ''a.io'', as_IP = [], as_Port = 53, as_AddrType = ATYPDomain\<rparr>,
      dg_Data = [7]\<rparr>)"
  by (rule datagram_survives) (simp add: wf_datagram_def wf_addr_def)

text \<open>
  A datagram without data is encoded for every address but rejected by the parser unless the
  address is IPv4.
\<close>

theorem empty_datagram_rejected:
  assumes "dg_Data d = []" "wf_addr (dg_DstAddr d)" "as_AddrType (dg_DstAddr d) \<noteq> ATYPIPv4"
  shows "map_option ParseDatagram (Datagram_Bytes d) = Some (Inl DatagramTooShort)"
proof -
  let ?a = "dg_DstAddr d"
  have ty: "as_AddrType ?a = ATYPIPv6 \<and> length (as_IP ?a) = 16 \<or>
      as_AddrType ?a = ATYPDomain \<and> length (as_FQDN ?a) < 256"
    using assms by (auto simp: wf_addr_def)
  then have "as_AddrType ?a \<in> {ATYPIPv4, ATYPIPv6, ATYPDomain}" by auto
  then have B: "Datagram_Bytes d = Some ([ucast (push_bit 8 (dg_RSV d)), ucast (dg_RSV d), dg_Frag d,
      as_AddrType ?a] @ tl (addr_tail ?a))"
    using assms(1) addr_tail_head[of ?a] by (simp add: Datagram_Bytes_def Datagram_values_def)
  from ty show ?thesis
  proof
    assume v6: "as_AddrType ?a = ATYPIPv6 \<and> length (as_IP ?a) = 16"
    then have "length (tl (addr_tail ?a)) = 18" by (simp add: addr_tail_v6 del: length_tl)
    then show ?thesis unfolding B using v6 by (simp add: ParseDatagram_def Let_def del: length_tl)
  next
    assume dom: "as_AddrType ?a = ATYPDomain \<and> length (as_FQDN ?a) < 256"
    then show ?thesis unfolding B by (simp add: ParseDatagram_def Let_def addr_tail_domain)
  qed
qed

theorem empty_datagram_rejected_witness:
  "map_option ParseDatagram (Datagram_Bytes \<lparr>dg_RSV = 0, dg_Frag = 0,
      dg_DstAddr = \<lparr>as_FQDN = ''example.org'', as_IP = [], as_Port = 53, as_AddrType = ATYPDomain\<rparr>,
      dg_Data = []\<rparr>) = Some (Inl DatagramTooShort)"
  by (rule empty_datagram_rejected) (simp_all add: wf_addr_def)

end
