(* ===== verification/Socks_Server.thy ===== *)
theory Socks_Server
  imports Socks_Statute
begin

text \<open>
  \<open>third_party/go-socks5\<close>: the server side of one connection, from the method negotiation to the
  outcome of the command. A connection is the list of the bytes the client sends and a writer
  that accepts some number of writes before it fails. Dialing, resolving, rewriting, rules and user
  hooks are functions in the server record, as they are fields of \<open>Server\<close>; every dial and every
  close of a target is recorded in a trace. The UDP relay behind \<open>ASSOCIATE\<close> is a parameter.

  The lemmas state that nothing is dialed before authentication and the rule set have passed, and
  which reply the client gets on each path.
\<close>

subsection \<open>Writers\<close>

record writer =
  w_out :: "byte list"
  w_ok :: "nat option"   \<comment> \<open>how many more writes succeed; \<open>None\<close> when all do\<close>

definition Write :: "byte list \<Rightarrow> writer \<Rightarrow> bool \<times> writer" where
  "Write bs w =
     (if w_ok w = Some 0 then (False, w)
      else (True, w\<lparr>w_out := w_out w @ bs, w_ok := map_option (\<lambda>n. n - 1) (w_ok w)\<rparr>))"

subsection \<open>Requests, rules and authenticators\<close>

record AuthContext =
  ac_Method :: byte
  ac_Payload :: "string \<rightharpoonup> string"

record Request =
  rq_Request :: stRequest
  rq_AuthContext :: "AuthContext option"
  rq_LocalAddr :: addr
  rq_RemoteAddr :: addr
  rq_DestAddr :: "AddrSpec option"
  rq_RawDestAddr :: AddrSpec
  rq_Reader :: "byte list"

type_synonym 'ctx RuleSet = "'ctx \<Rightarrow> Request \<Rightarrow> 'ctx \<times> bool"

record PermitCommand =
  EnableConnect :: bool
  EnableBind :: bool
  EnableAssociate :: bool

definition NewPermitNone :: PermitCommand where
  "NewPermitNone = \<lparr>EnableConnect = False, EnableBind = False, EnableAssociate = False\<rparr>"

definition NewPermitAll :: PermitCommand where
  "NewPermitAll = \<lparr>EnableConnect = True, EnableBind = True, EnableAssociate = True\<rparr>"

definition NewPermitConnAndAss :: PermitCommand where
  "NewPermitConnAndAss = \<lparr>EnableConnect = True, EnableBind = False, EnableAssociate = True\<rparr>"

definition PermitCommand_Allow :: "PermitCommand \<Rightarrow> 'ctx RuleSet" where
  "PermitCommand_Allow p ctx rq =
     (let c = req_Command (rq_Request rq) in
      if c = CommandConnect then (ctx, EnableConnect p)
      else if c = CommandBind then (ctx, EnableBind p)
      else if c = CommandAssociate then (ctx, EnableAssociate p)
      else (ctx, False))"

type_synonym credential_store = "string \<Rightarrow> string \<Rightarrow> string \<Rightarrow> bool"

definition StaticCredentials_Valid :: "(string \<rightharpoonup> string) \<Rightarrow> credential_store" where
  "StaticCredentials_Valid s user password addr = (s user = Some password)"

datatype authenticator = NoAuthAuthenticator | UserPassAuthenticator credential_store

datatype socks_error =
    StatuteErr statute_error
  | ErrNotSupportVersion
  | WriteErr
  | ErrUserAuthFailed
  | ErrNoSupportedAuth
  | UnrecognizedCommand byte
  | ReplyErr
  | ResolveErr string
  | RuleBlocked
  | ConnectFailed string
  | ProxyErr string
  | ListenErr string
  | HookErr string

fun GetCode :: "authenticator \<Rightarrow> byte" where
  "GetCode NoAuthAuthenticator = MethodNoAuth"
| "GetCode (UserPassAuthenticator cs) = MethodUserPassAuth"

text \<open>\<open>Authenticate\<close>: the context, the unread bytes and the writer.\<close>

fun Authenticate ::
    "authenticator \<Rightarrow> byte list \<Rightarrow> writer \<Rightarrow> string \<Rightarrow> (socks_error + AuthContext \<times> byte list) \<times> writer" where
  "Authenticate NoAuthAuthenticator r w userAddr =
     (case Write [VersionSocks5, MethodNoAuth] w of
        (ok, w) \<Rightarrow>
          (if ok then Inr (\<lparr>ac_Method = MethodNoAuth, ac_Payload = Map.empty\<rparr>, r) else Inl WriteErr, w))"
| "Authenticate (UserPassAuthenticator cs) r w userAddr =
     (case Write [VersionSocks5, MethodUserPassAuth] w of
        (False, w) \<Rightarrow> (Inl WriteErr, w)
      | (True, w) \<Rightarrow>
         (case ParseUserPassRequest r of
            Inl e \<Rightarrow> (Inl (StatuteErr e), w)
          | Inr (nup, r) \<Rightarrow>
              let user = string_of_bytes (up_User nup); pass = string_of_bytes (up_Pass nup) in
              if \<not> cs user pass userAddr then
                (case Write [UserPassAuthVersion, AuthFailure] w of
                   (False, w) \<Rightarrow> (Inl WriteErr, w)
                 | (True, w) \<Rightarrow> (Inl ErrUserAuthFailed, w))
              else
                (case Write [UserPassAuthVersion, AuthSuccess] w of
                   (False, w) \<Rightarrow> (Inl WriteErr, w)
                 | (True, w) \<Rightarrow>
                     (Inr (\<lparr>ac_Method = MethodUserPassAuth,
                           ac_Payload = [''username'' \<mapsto> user, ''password'' \<mapsto> pass]\<rparr>, r), w))))"

text \<open>The first authenticator of the server whose code the client offers.\<close>

fun select_auth :: "authenticator list \<Rightarrow> byte list \<Rightarrow> authenticator option" where
  "select_auth [] methods = None"
| "select_auth (a # as) methods = (if GetCode a \<in> set methods then Some a else select_auth as methods)"

definition authenticate ::
    "authenticator list \<Rightarrow> byte list \<Rightarrow> writer \<Rightarrow> string \<Rightarrow> byte list \<Rightarrow>
     (socks_error + AuthContext \<times> byte list) \<times> writer" where
  "authenticate auths r w userAddr methods =
     (case select_auth auths methods of
        Some a \<Rightarrow> Authenticate a r w userAddr
      | None \<Rightarrow> (Inl ErrNoSupportedAuth, snd (Write [VersionSocks5, MethodNoAcceptable] w)))"

subsection \<open>Replies\<close>

definition IPv4zero :: ip where
  "IPv4zero = IPv4 [0, 0, 0, 0]"

definition SendReply :: "byte \<Rightarrow> addr \<Rightarrow> writer \<Rightarrow> bool \<times> writer" where
  "SendReply rep bindAddr w =
     (let a = \<lparr>as_FQDN = '''', as_IP = IPv4zero, as_Port = 0, as_AddrType = ATYPIPv4\<rparr>;
          (rep, a) =
            (if rep = RepSuccess then
               (let (rep, a) =
                  (case bindAddr of
                     TCPAddr i p \<Rightarrow> (rep, a\<lparr>as_IP := i, as_Port := p\<rparr>)
                   | UDPAddr i p \<Rightarrow> (rep, a\<lparr>as_IP := i, as_Port := p\<rparr>)
                   | _ \<Rightarrow> (RepAddrTypeNotSupported, a))
                in (rep,
                    if To4 (as_IP a) \<noteq> None then a\<lparr>as_AddrType := ATYPIPv4\<rparr>
                    else if To16 (as_IP a) \<noteq> [] then a\<lparr>as_AddrType := ATYPIPv6\<rparr> else a))
             else (rep, a))
      in Write (Reply_Bytes \<lparr>rep_Version = VersionSocks5, rep_Response = rep, rep_Reserved = 0,
                             rep_BndAddr = a\<rparr>) w)"

subsection \<open>The server\<close>

text \<open>What a dial returns: an error message, or the target's local address.\<close>

type_synonym dial_result = "string + addr"

datatype effect = EDial string string | ECloseTarget | EHook

type_synonym outcome = "socks_error option \<times> writer \<times> effect list"

record 'ctx Server =
  sv_authMethods :: "authenticator list"
  sv_credentials :: "credential_store option"
  sv_resolver :: "'ctx \<Rightarrow> string \<Rightarrow> 'ctx \<times> (string + ip)"
  sv_rules :: "'ctx RuleSet"
  sv_rewriter :: "('ctx \<Rightarrow> Request \<Rightarrow> 'ctx \<times> AddrSpec) option"
  sv_bindIP :: ip   \<comment> \<open>empty for \<open>nil\<close>\<close>
  sv_useBindIpBaseResolveAsUdpAddr :: bool
  sv_dial :: "('ctx \<Rightarrow> string \<Rightarrow> string \<Rightarrow> dial_result) option"
  sv_dialWithRequest :: "('ctx \<Rightarrow> string \<Rightarrow> string \<Rightarrow> Request \<Rightarrow> dial_result) option"
  sv_userConnectHandle :: "('ctx \<Rightarrow> writer \<Rightarrow> Request \<Rightarrow> outcome) option"
  sv_userBindHandle :: "('ctx \<Rightarrow> writer \<Rightarrow> Request \<Rightarrow> outcome) option"
  sv_userAssociateHandle :: "('ctx \<Rightarrow> writer \<Rightarrow> Request \<Rightarrow> outcome) option"
  sv_connectMiddlewares :: "('ctx \<Rightarrow> writer \<Rightarrow> Request \<Rightarrow> string option) list"
  sv_bindMiddlewares :: "('ctx \<Rightarrow> writer \<Rightarrow> Request \<Rightarrow> string option) list"
  sv_associateMiddlewares :: "('ctx \<Rightarrow> writer \<Rightarrow> Request \<Rightarrow> string option) list"

text \<open>
  \<open>NewServer\<close> applies the options, then makes sure that there is an authentication method.
  The two arguments are the DNS resolver and the options.
\<close>

definition NewServer ::
    "('ctx \<Rightarrow> string \<Rightarrow> 'ctx \<times> (string + ip)) \<Rightarrow> ('ctx Server \<Rightarrow> 'ctx Server) list \<Rightarrow> 'ctx Server" where
  "NewServer dns opts =
     (let srv = \<lparr>sv_authMethods = [], sv_credentials = None, sv_resolver = dns,
                 sv_rules = PermitCommand_Allow NewPermitAll, sv_rewriter = None, sv_bindIP = [],
                 sv_useBindIpBaseResolveAsUdpAddr = False, sv_dial = None, sv_dialWithRequest = None, sv_userConnectHandle = None, sv_userBindHandle = None,
                 sv_userAssociateHandle = None, sv_connectMiddlewares = [], sv_bindMiddlewares = [],
                 sv_associateMiddlewares = []\<rparr>;
          srv = foldl (\<lambda>s opt. opt s) srv opts;
          srv = (case (sv_authMethods srv, sv_credentials srv) of
                   ([], Some cs) \<Rightarrow> srv\<lparr>sv_authMethods := [UserPassAuthenticator cs]\<rparr>
                 | _ \<Rightarrow> srv)
      in if sv_authMethods srv = [] then srv\<lparr>sv_authMethods := [NoAuthAuthenticator]\<rparr> else srv)"

definition WithAuthMethods :: "authenticator list \<Rightarrow> 'ctx Server \<Rightarrow> 'ctx Server" where
  "WithAuthMethods as s = s\<lparr>sv_authMethods := sv_authMethods s @ as\<rparr>"

definition WithCredential :: "credential_store \<Rightarrow> 'ctx Server \<Rightarrow> 'ctx Server" where
  "WithCredential cs s = s\<lparr>sv_credentials := Some cs\<rparr>"

definition WithRule :: "'ctx RuleSet \<Rightarrow> 'ctx Server \<Rightarrow> 'ctx Server" where
  "WithRule rule s = s\<lparr>sv_rules := rule\<rparr>"

definition WithResolver :: "('ctx \<Rightarrow> string \<Rightarrow> 'ctx \<times> (string + ip)) \<Rightarrow> 'ctx Server \<Rightarrow> 'ctx Server" where
  "WithResolver res s = s\<lparr>sv_resolver := res\<rparr>"

definition WithRewriter :: "('ctx \<Rightarrow> Request \<Rightarrow> 'ctx \<times> AddrSpec) \<Rightarrow> 'ctx Server \<Rightarrow> 'ctx Server" where
  "WithRewriter rew s = s\<lparr>sv_rewriter := Some rew\<rparr>"

definition WithBindIP :: "ip \<Rightarrow> 'ctx Server \<Rightarrow> 'ctx Server" where
  "WithBindIP a s = (if length a \<noteq> 0 then s\<lparr>sv_bindIP := a\<rparr> else s)"

definition WithUseBindIpBaseResolveAsUdpAddr :: "bool \<Rightarrow> 'ctx Server \<Rightarrow> 'ctx Server" where
  "WithUseBindIpBaseResolveAsUdpAddr b s = s\<lparr>sv_useBindIpBaseResolveAsUdpAddr := b\<rparr>"

definition WithDial :: "('ctx \<Rightarrow> string \<Rightarrow> string \<Rightarrow> dial_result) \<Rightarrow> 'ctx Server \<Rightarrow> 'ctx Server" where
  "WithDial dial s = s\<lparr>sv_dial := Some dial\<rparr>"

definition WithConnectHandle :: "('ctx \<Rightarrow> writer \<Rightarrow> Request \<Rightarrow> outcome) \<Rightarrow> 'ctx Server \<Rightarrow> 'ctx Server" where
  "WithConnectHandle h s = s\<lparr>sv_userConnectHandle := Some h\<rparr>"

definition WithBindHandle :: "('ctx \<Rightarrow> writer \<Rightarrow> Request \<Rightarrow> outcome) \<Rightarrow> 'ctx Server \<Rightarrow> 'ctx Server" where
  "WithBindHandle h s = s\<lparr>sv_userBindHandle := Some h\<rparr>"

definition WithAssociateHandle :: "('ctx \<Rightarrow> writer \<Rightarrow> Request \<Rightarrow> outcome) \<Rightarrow> 'ctx Server \<Rightarrow> 'ctx Server" where
  "WithAssociateHandle h s = s\<lparr>sv_userAssociateHandle := Some h\<rparr>"

definition WithConnectMiddleware :: "('ctx \<Rightarrow> writer \<Rightarrow> Request \<Rightarrow> string option) \<Rightarrow> 'ctx Server \<Rightarrow> 'ctx Server" where
  "WithConnectMiddleware mw s = s\<lparr>sv_connectMiddlewares := sv_connectMiddlewares s @ [mw]\<rparr>"

definition WithBindMiddleware :: "('ctx \<Rightarrow> writer \<Rightarrow> Request \<Rightarrow> string option) \<Rightarrow> 'ctx Server \<Rightarrow> 'ctx Server" where
  "WithBindMiddleware mw s = s\<lparr>sv_bindMiddlewares := sv_bindMiddlewares s @ [mw]\<rparr>"

definition WithAssociateMiddleware :: "('ctx \<Rightarrow> writer \<Rightarrow> Request \<Rightarrow> string option) \<Rightarrow> 'ctx Server \<Rightarrow> 'ctx Server" where
  "WithAssociateMiddleware mw s = s\<lparr>sv_associateMiddlewares := sv_associateMiddlewares s @ [mw]\<rparr>"

definition WithDialAndRequest ::
    "('ctx \<Rightarrow> string \<Rightarrow> string \<Rightarrow> Request \<Rightarrow> dial_result) \<Rightarrow> 'ctx Server \<Rightarrow> 'ctx Server" where
  "WithDialAndRequest dial s = s\<lparr>sv_dialWithRequest := Some dial\<rparr>"

text \<open>\<open>AddrSpec.String\<close>.\<close>

definition AddrSpec_String :: "AddrSpec \<Rightarrow> string" where
  "AddrSpec_String a =
     (if as_IP a \<noteq> [] then JoinHostPort (ip_String (as_IP a)) (Itoa (nat (as_Port a)))
      else JoinHostPort (as_FQDN a) (Itoa (nat (as_Port a))))"

text \<open>\<open>AddrSpec.Address\<close>, the text for the log.\<close>

definition AddrSpec_Address :: "AddrSpec \<Rightarrow> string" where
  "AddrSpec_Address a =
     (if as_FQDN a \<noteq> '''' then as_FQDN a @ '' ('' @ ip_String (as_IP a) @ ''):'' @ Itoa (nat (as_Port a))
      else ip_String (as_IP a) @ '':'' @ Itoa (nat (as_Port a)))"

text \<open>\<open>DNSResolver.Resolve\<close> over \<open>net.ResolveIPAddr\<close>.\<close>

definition DNSResolver_Resolve :: "(string \<Rightarrow> string \<Rightarrow> string + ip) \<Rightarrow> 'ctx \<Rightarrow> string \<Rightarrow> 'ctx \<times> (string + ip)" where
  "DNSResolver_Resolve resolveIPAddr ctx name =
     (case resolveIPAddr ''ip'' name of
        Inl err \<Rightarrow> (ctx, Inl err)
      | Inr i \<Rightarrow> (ctx, Inr i))"

fun contains_str :: "string \<Rightarrow> string \<Rightarrow> bool" where
  "contains_str [] sub = (sub = [])"
| "contains_str (c # cs) sub = (take (length sub) (c # cs) = sub \<or> contains_str cs sub)"

definition dial_reply :: "string \<Rightarrow> byte" where
  "dial_reply msg =
     (if contains_str msg ''refused'' then RepConnectionRefused
      else if contains_str msg ''network is unreachable'' then RepNetworkUnreachable
      else RepHostUnreachable)"

text \<open>
  \<open>handleConnect\<close>. \<open>net_dial\<close> is \<open>net.Dial\<close>; \<open>px\<close> are the results of the two copies in the order in
  which they arrive. The first error ends the proxying; the target is closed on every way out.
\<close>

fun await_proxies :: "string option list \<Rightarrow> socks_error option" where
  "await_proxies [] = None"
| "await_proxies (None # es) = await_proxies es"
| "await_proxies (Some e # es) = Some (ProxyErr e)"

definition handleConnect ::
    "(string \<Rightarrow> string \<Rightarrow> dial_result) \<Rightarrow> string option list \<Rightarrow> 'ctx Server \<Rightarrow> 'ctx \<Rightarrow> writer \<Rightarrow> Request \<Rightarrow> outcome" where
  "handleConnect net_dial px sv ctx w rq =
     (let dest = (case rq_DestAddr rq of Some a \<Rightarrow> AddrSpec_String a | None \<Rightarrow> ''<nil>'');
          target = (case sv_dialWithRequest sv of
                      Some f \<Rightarrow> f ctx ''tcp'' dest rq
                    | None \<Rightarrow> (case sv_dial sv of Some f \<Rightarrow> f ctx ''tcp'' dest | None \<Rightarrow> net_dial ''tcp'' dest))
      in case target of
           Inl msg \<Rightarrow>
             (case SendReply (dial_reply msg) NilAddr w of
                (False, w) \<Rightarrow> (Some ReplyErr, w, [EDial ''tcp'' dest])
              | (True, w) \<Rightarrow> (Some (ConnectFailed msg), w, [EDial ''tcp'' dest]))
         | Inr laddr \<Rightarrow>
             (case SendReply RepSuccess laddr w of
                (False, w) \<Rightarrow> (Some ReplyErr, w, [EDial ''tcp'' dest, ECloseTarget])
              | (True, w) \<Rightarrow> (await_proxies px, w, [EDial ''tcp'' dest, ECloseTarget])))"

definition handleBind :: "'ctx \<Rightarrow> writer \<Rightarrow> Request \<Rightarrow> outcome" where
  "handleBind ctx w rq =
     (case SendReply RepCommandNotSupported NilAddr w of
        (ok, w) \<Rightarrow> (if ok then None else Some ReplyErr, w, []))"

text \<open>\<open>MiddlewareChain.Execute\<close> for a non-empty chain, and the choice of the last handler.\<close>

fun run_middlewares ::
    "('ctx \<Rightarrow> writer \<Rightarrow> Request \<Rightarrow> string option) list \<Rightarrow> 'ctx \<Rightarrow> writer \<Rightarrow> Request \<Rightarrow> string option" where
  "run_middlewares [] ctx w rq = None"
| "run_middlewares (m # ms) ctx w rq =
     (case m ctx w rq of Some e \<Rightarrow> Some e | None \<Rightarrow> run_middlewares ms ctx w rq)"

definition dispatch ::
    "('ctx \<Rightarrow> writer \<Rightarrow> Request \<Rightarrow> outcome) option \<Rightarrow>
     ('ctx \<Rightarrow> writer \<Rightarrow> Request \<Rightarrow> string option) list \<Rightarrow>
     ('ctx \<Rightarrow> writer \<Rightarrow> Request \<Rightarrow> outcome) \<Rightarrow> 'ctx \<Rightarrow> writer \<Rightarrow> Request \<Rightarrow> outcome" where
  "dispatch user mws def ctx w rq =
     (let last_h = (case user of Some h \<Rightarrow> h | None \<Rightarrow> def) in
      case run_middlewares mws ctx w rq of
        Some e \<Rightarrow> (Some (HookErr e), w, [])
      | None \<Rightarrow> last_h ctx w rq)"

text \<open>
  The environment of a connection: \<open>net.Dial\<close>, the results of the two copies, the background context
  and the handler of \<open>ASSOCIATE\<close>.
\<close>

record 'ctx socks_env =
  env_dial :: "string \<Rightarrow> string \<Rightarrow> dial_result"
  env_proxies :: "string option list"
  env_background :: 'ctx
  env_associate :: "'ctx \<Rightarrow> writer \<Rightarrow> Request \<Rightarrow> outcome"

definition run_command :: "'ctx socks_env \<Rightarrow> 'ctx Server \<Rightarrow> 'ctx \<Rightarrow> writer \<Rightarrow> Request \<Rightarrow> outcome" where
  "run_command env sv ctx w rq =
     (let c = req_Command (rq_Request rq) in
      if c = CommandConnect then
        dispatch (sv_userConnectHandle sv) (sv_connectMiddlewares sv)
          (handleConnect (env_dial env) (env_proxies env) sv) ctx w rq
      else if c = CommandBind then
        dispatch (sv_userBindHandle sv) (sv_bindMiddlewares sv) handleBind ctx w rq
      else if c = CommandAssociate then
        dispatch (sv_userAssociateHandle sv) (sv_associateMiddlewares sv) (env_associate env) ctx w rq
      else (case SendReply RepCommandNotSupported NilAddr w of
              (False, w) \<Rightarrow> (Some ReplyErr, w, [])
            | (True, w) \<Rightarrow> (Some (UnrecognizedCommand c), w, [])))"

text \<open>Rewrite, then check the rules, then run the command.\<close>

definition check_rules :: "'ctx socks_env \<Rightarrow> 'ctx Server \<Rightarrow> 'ctx \<Rightarrow> writer \<Rightarrow> Request \<Rightarrow> outcome" where
  "check_rules env sv ctx w rq =
     (let rq = rq\<lparr>rq_DestAddr := Some (rq_RawDestAddr rq)\<rparr>;
          (ctx, rq) = (case sv_rewriter sv of
                         None \<Rightarrow> (ctx, rq)
                       | Some rew \<Rightarrow> (case rew ctx rq of (ctx, a) \<Rightarrow> (ctx, rq\<lparr>rq_DestAddr := Some a\<rparr>)))
      in case sv_rules sv ctx rq of
           (ctx, True) \<Rightarrow> run_command env sv ctx w rq
         | (ctx, False) \<Rightarrow>
             (case SendReply RepRuleFailure NilAddr w of
                (False, w) \<Rightarrow> (Some ReplyErr, w, [])
              | (True, w) \<Rightarrow> (Some RuleBlocked, w, [])))"

definition handleRequest :: "'ctx socks_env \<Rightarrow> 'ctx Server \<Rightarrow> writer \<Rightarrow> Request \<Rightarrow> outcome" where
  "handleRequest env sv w rq =
     (let dest = rq_RawDestAddr rq in
      if as_FQDN dest \<noteq> '''' then
        (case sv_resolver sv (env_background env) (as_FQDN dest) of
           (ctx, Inl err) \<Rightarrow>
             (case SendReply RepHostUnreachable NilAddr w of
                (False, w) \<Rightarrow> (Some ReplyErr, w, [])
              | (True, w) \<Rightarrow> (Some (ResolveErr err), w, []))
         | (ctx, Inr i) \<Rightarrow> check_rules env sv ctx w (rq\<lparr>rq_RawDestAddr := dest\<lparr>as_IP := i\<rparr>\<rparr>))
      else check_rules env sv (env_background env) w rq)"

definition ParseRequest :: "byte list \<Rightarrow> statute_error + Request \<times> byte list" where
  "ParseRequest r =
     (case st_ParseRequest r of Inl e \<Rightarrow> Inl e
      | Inr (h, r) \<Rightarrow>
          Inr (\<lparr>rq_Request = h, rq_AuthContext = None, rq_LocalAddr = NilAddr, rq_RemoteAddr = NilAddr,
                rq_DestAddr = None, rq_RawDestAddr = req_DstAddr h, rq_Reader = r\<rparr>, r))"

text \<open>\<open>ServeConn\<close> on the bytes \<open>r\<close> that the client sends.\<close>

definition ServeConn ::
    "'ctx socks_env \<Rightarrow> 'ctx Server \<Rightarrow> addr \<Rightarrow> addr \<Rightarrow> byte list \<Rightarrow> writer \<Rightarrow> outcome" where
  "ServeConn env sv laddr raddr r w =
     (case ParseMethodRequest r of
        Inl e \<Rightarrow> (Some (StatuteErr e), w, [])
      | Inr (mr, r) \<Rightarrow>
          if mr_Ver mr \<noteq> VersionSocks5 then (Some ErrNotSupportVersion, w, [])
          else let userAddr = (if raddr = NilAddr then '''' else addr_String raddr) in
            (case authenticate (sv_authMethods sv) r w userAddr (mr_Methods mr) of
               (Inl e, w) \<Rightarrow> (Some e, w, [])
             | (Inr (ac, r), w) \<Rightarrow>
                 (case ParseRequest r of
                    Inl e \<Rightarrow>
                      (if e = ErrUnrecognizedAddrType then
                         (case SendReply RepAddrTypeNotSupported NilAddr w of
                            (False, w) \<Rightarrow> (Some ReplyErr, w, [])
                          | (True, w) \<Rightarrow> (Some (StatuteErr e), w, []))
                       else (Some (StatuteErr e), w, []))
                  | Inr (rq, r) \<Rightarrow>
                      let c = req_Command (rq_Request rq) in
                      if c \<noteq> CommandConnect \<and> c \<noteq> CommandBind \<and> c \<noteq> CommandAssociate then
                        (case SendReply RepCommandNotSupported NilAddr w of
                           (False, w) \<Rightarrow> (Some ReplyErr, w, [])
                         | (True, w) \<Rightarrow> (Some (UnrecognizedCommand c), w, []))
                      else handleRequest env sv w
                             (rq\<lparr>rq_AuthContext := Some ac, rq_LocalAddr := laddr, rq_RemoteAddr := raddr\<rparr>))))"

subsection \<open>Nothing is dialed unchecked\<close>

text \<open>The default handlers only: no user hooks, and an \<open>ASSOCIATE\<close> that does not dial TCP.\<close>

definition plain_server :: "'ctx socks_env \<Rightarrow> 'ctx Server \<Rightarrow> bool" where
  "plain_server env sv \<longleftrightarrow> sv_userConnectHandle sv = None \<and> sv_userBindHandle sv = None \<and>
     sv_userAssociateHandle sv = None \<and> sv_connectMiddlewares sv = [] \<and> sv_bindMiddlewares sv = [] \<and>
     sv_associateMiddlewares sv = [] \<and>
     (\<forall>ctx w rq d. EDial ''tcp'' d \<notin> set (snd (snd (env_associate env ctx w rq))))"

lemma select_auth_Some: "select_auth as ms = Some a \<Longrightarrow> a \<in> set as \<and> GetCode a \<in> set ms"
  by (induction as) (auto split: if_splits)

lemma dispatch_plain: "dispatch None [] def ctx w rq = def ctx w rq"
  by (simp add: dispatch_def)

lemma run_command_dials:
  assumes "plain_server env sv" "EDial ''tcp'' d \<in> set (snd (snd (run_command env sv ctx w rq)))"
  shows "req_Command (rq_Request rq) = CommandConnect \<and>
    d = (case rq_DestAddr rq of Some a \<Rightarrow> AddrSpec_String a | None \<Rightarrow> ''<nil>'')"
  using assms
  by (auto simp: run_command_def Let_def plain_server_def dispatch_plain handleConnect_def handleBind_def
      split: sum.splits prod.splits bool.splits if_splits)

text \<open>Whatever has an effect went through the rules, with the fields that identify the client.\<close>

lemma check_rules_runs:
  assumes "snd (snd (check_rules env sv ctx w rq)) \<noteq> []"
  shows "\<exists>ctx1 ctx2 rq'. sv_rules sv ctx1 rq' = (ctx2, True) \<and> check_rules env sv ctx w rq = run_command env sv ctx2 w rq' \<and>
    rq_Request rq' = rq_Request rq \<and> rq_AuthContext rq' = rq_AuthContext rq \<and>
    rq_RemoteAddr rq' = rq_RemoteAddr rq \<and> rq_DestAddr rq' \<noteq> None"
proof -
  define rq1 where "rq1 = rq\<lparr>rq_DestAddr := Some (rq_RawDestAddr rq)\<rparr>"
  define p where "p = (case sv_rewriter sv of None \<Rightarrow> (ctx, rq1)
      | Some rew \<Rightarrow> (case rew ctx rq1 of (ctx, a) \<Rightarrow> (ctx, rq1\<lparr>rq_DestAddr := Some a\<rparr>)))"
  have p: "rq_Request (snd p) = rq_Request rq \<and> rq_AuthContext (snd p) = rq_AuthContext rq \<and>
      rq_RemoteAddr (snd p) = rq_RemoteAddr rq \<and> rq_DestAddr (snd p) \<noteq> None"
    by (simp add: p_def rq1_def split: option.split prod.split)
  have c: "check_rules env sv ctx w rq =
      (case sv_rules sv (fst p) (snd p) of
           (ctx, True) \<Rightarrow> run_command env sv ctx w (snd p)
         | (ctx, False) \<Rightarrow>
             (case SendReply RepRuleFailure NilAddr w of
                (False, w) \<Rightarrow> (Some ReplyErr, w, [])
              | (True, w) \<Rightarrow> (Some RuleBlocked, w, [])))"
    unfolding check_rules_def Let_def rq1_def[symmetric] p_def[symmetric] by (simp add: split_def)
  obtain ctx' where r: "sv_rules sv (fst p) (snd p) = (ctx', True)"
    using assms unfolding c by (auto split: prod.splits bool.splits)
  then show ?thesis
    using p c by (intro exI[of _ "fst p"] exI[of _ ctx'] exI[of _ "snd p"]) simp
qed

lemma handleRequest_runs:
  assumes "snd (snd (handleRequest env sv w rq)) \<noteq> []"
  shows "\<exists>ctx1 ctx2 rq'. sv_rules sv ctx1 rq' = (ctx2, True) \<and> handleRequest env sv w rq = run_command env sv ctx2 w rq' \<and>
    rq_Request rq' = rq_Request rq \<and> rq_AuthContext rq' = rq_AuthContext rq \<and>
    rq_RemoteAddr rq' = rq_RemoteAddr rq \<and> rq_DestAddr rq' \<noteq> None"
proof (cases "as_FQDN (rq_RawDestAddr rq) = ''''")
  case True
  then have "handleRequest env sv w rq = check_rules env sv (env_background env) w rq" by (simp add: handleRequest_def)
  with assms check_rules_runs[of env sv "env_background env" w rq] show ?thesis by simp
next
  case False
  then obtain ctx i where "handleRequest env sv w rq = check_rules env sv ctx w
      (rq\<lparr>rq_RawDestAddr := (rq_RawDestAddr rq)\<lparr>as_IP := i\<rparr>\<rparr>)"
    using assms by (auto simp: handleRequest_def Let_def split: prod.splits sum.splits bool.splits)
  with assms check_rules_runs[of env sv ctx w "rq\<lparr>rq_RawDestAddr := (rq_RawDestAddr rq)\<lparr>as_IP := i\<rparr>\<rparr>"] show ?thesis by simp
qed

fun authenticated :: "authenticator \<Rightarrow> string \<Rightarrow> AuthContext \<Rightarrow> bool" where
  "authenticated NoAuthAuthenticator userAddr ac \<longleftrightarrow> ac_Method ac = MethodNoAuth"
| "authenticated (UserPassAuthenticator cs) userAddr ac \<longleftrightarrow>
     (\<exists>u p. cs u p userAddr \<and> ac_Method ac = MethodUserPassAuth \<and>
        ac_Payload ac = [''username'' \<mapsto> u, ''password'' \<mapsto> p])"

lemma Authenticate_ok:
  "fst (Authenticate a r w userAddr) = Inr (ac, r') \<Longrightarrow> authenticated a userAddr ac"
  by (cases a) (auto simp: Let_def split: prod.splits bool.splits sum.splits if_splits,
      (intro exI conjI, assumption, rule refl)+)

lemma authenticate_ok:
  "authenticate auths r w userAddr ms = (Inr (ac, r'), w') \<Longrightarrow>
   \<exists>a \<in> set auths. authenticated a userAddr ac"
proof (cases "select_auth auths ms")
  case (Some a)
  assume "authenticate auths r w userAddr ms = (Inr (ac, r'), w')"
  with Some have "fst (Authenticate a r w userAddr) = Inr (ac, r')" by (simp add: authenticate_def)
  then show ?thesis using Authenticate_ok select_auth_Some[OF Some] by blast
qed (simp add: authenticate_def)

lemma ServeConn_handles:
  assumes "snd (snd (ServeConn env sv laddr raddr r w)) \<noteq> []"
  obtains mr r1 ac r2 w2 h r3 where "ParseMethodRequest r = Inr (mr, r1)" "mr_Ver mr = VersionSocks5"
    "authenticate (sv_authMethods sv) r1 w (if raddr = NilAddr then '''' else addr_String raddr) (mr_Methods mr) =
      (Inr (ac, r2), w2)"
    "st_ParseRequest r2 = Inr (h, r3)"
    "ServeConn env sv laddr raddr r w = handleRequest env sv w2 \<lparr>rq_Request = h, rq_AuthContext = Some ac,
       rq_LocalAddr = laddr, rq_RemoteAddr = raddr, rq_DestAddr = None, rq_RawDestAddr = req_DstAddr h, rq_Reader = r3\<rparr>"
proof -
  let ?ua = "if raddr = NilAddr then '''' else addr_String raddr"
  obtain mr r1 where mr: "ParseMethodRequest r = Inr (mr, r1)" "mr_Ver mr = VersionSocks5"
    using assms by (auto simp: ServeConn_def split: sum.splits prod.splits if_splits)
  obtain ac r2 w2 where ac: "authenticate (sv_authMethods sv) r1 w ?ua (mr_Methods mr) = (Inr (ac, r2), w2)"
    using assms mr by (auto simp: ServeConn_def Let_def split: sum.splits prod.splits)
  obtain h r3 where h: "st_ParseRequest r2 = Inr (h, r3)"
    using assms mr ac
    by (auto simp: ServeConn_def Let_def ParseRequest_def split: sum.splits prod.splits if_splits bool.splits)
  have "ServeConn env sv laddr raddr r w = handleRequest env sv w2 \<lparr>rq_Request = h, rq_AuthContext = Some ac,
      rq_LocalAddr = laddr, rq_RemoteAddr = raddr, rq_DestAddr = None, rq_RawDestAddr = req_DstAddr h, rq_Reader = r3\<rparr>"
    using assms mr ac h
    by (auto simp: ServeConn_def Let_def ParseRequest_def split: prod.splits if_splits bool.splits)
  with that mr ac h show thesis by blast
qed

lemma ServeConn_runs:
  assumes "snd (snd (ServeConn env sv laddr raddr r w)) \<noteq> []"
  obtains mr r1 ac r2 w2 h r3 ctx1 ctx2 rq where "ParseMethodRequest r = Inr (mr, r1)" "mr_Ver mr = VersionSocks5"
    "authenticate (sv_authMethods sv) r1 w (if raddr = NilAddr then '''' else addr_String raddr) (mr_Methods mr) =
      (Inr (ac, r2), w2)"
    "st_ParseRequest r2 = Inr (h, r3)" "sv_rules sv ctx1 rq = (ctx2, True)"
    "ServeConn env sv laddr raddr r w = run_command env sv ctx2 w2 rq"
    "rq_Request rq = h" "rq_AuthContext rq = Some ac" "rq_RemoteAddr rq = raddr" "rq_DestAddr rq \<noteq> None"
proof -
  obtain mr r1 ac r2 w2 h r3 where S: "ParseMethodRequest r = Inr (mr, r1)" "mr_Ver mr = VersionSocks5"
    "authenticate (sv_authMethods sv) r1 w (if raddr = NilAddr then '''' else addr_String raddr) (mr_Methods mr) =
      (Inr (ac, r2), w2)"
    "st_ParseRequest r2 = Inr (h, r3)"
    and s: "ServeConn env sv laddr raddr r w = handleRequest env sv w2 \<lparr>rq_Request = h, rq_AuthContext = Some ac,
      rq_LocalAddr = laddr, rq_RemoteAddr = raddr, rq_DestAddr = None, rq_RawDestAddr = req_DstAddr h, rq_Reader = r3\<rparr>"
    using assms by (rule ServeConn_handles)
  let ?rq = "\<lparr>rq_Request = h, rq_AuthContext = Some ac, rq_LocalAddr = laddr, rq_RemoteAddr = raddr,
    rq_DestAddr = None, rq_RawDestAddr = req_DstAddr h, rq_Reader = r3\<rparr>"
  from handleRequest_runs[of env sv w2 ?rq] assms[unfolded s] obtain ctx1 ctx2 rq' where
    "sv_rules sv ctx1 rq' = (ctx2, True)" "handleRequest env sv w2 ?rq = run_command env sv ctx2 w2 rq'"
    "rq_Request rq' = h" "rq_AuthContext rq' = Some ac" "rq_RemoteAddr rq' = raddr" "rq_DestAddr rq' \<noteq> None"
    by auto
  then show thesis using that S s by metis
qed

text \<open>Without a rewriter the dialed address is the client's, with the resolver's answer for a name.\<close>

lemma check_rules_target:
  assumes "plain_server env sv" "sv_rewriter sv = None" "EDial ''tcp'' d \<in> set (snd (snd (check_rules env sv ctx w rq)))"
  shows "d = AddrSpec_String (rq_RawDestAddr rq)"
proof -
  let ?rq = "rq\<lparr>rq_DestAddr := Some (rq_RawDestAddr rq)\<rparr>"
  obtain ctx' where "sv_rules sv ctx ?rq = (ctx', True)"
    using assms(2,3) by (auto simp: check_rules_def Let_def split: prod.splits bool.splits)
  then have "EDial ''tcp'' d \<in> set (snd (snd (run_command env sv ctx' w ?rq)))"
    using assms(2,3) by (simp add: check_rules_def Let_def)
  from run_command_dials[OF assms(1) this] show ?thesis by simp
qed

lemma ServeConn_target:
  assumes "plain_server env sv" "sv_rewriter sv = None" "EDial ''tcp'' d \<in> set (snd (snd (ServeConn env sv laddr raddr r w)))"
  obtains h a where "wf_request h" "a = req_DstAddr h" "as_FQDN a = '''' \<Longrightarrow> d = AddrSpec_String a"
    "as_FQDN a \<noteq> '''' \<Longrightarrow> \<exists>i. snd (sv_resolver sv (env_background env) (as_FQDN a)) = Inr i \<and> d = AddrSpec_String (a\<lparr>as_IP := i\<rparr>)"
proof -
  have "snd (snd (ServeConn env sv laddr raddr r w)) \<noteq> []" using assms(3) by auto
  then obtain mr r1 ac r2 w2 h r3 where S: "ParseMethodRequest r = Inr (mr, r1)" "mr_Ver mr = VersionSocks5"
    "authenticate (sv_authMethods sv) r1 w (if raddr = NilAddr then '''' else addr_String raddr) (mr_Methods mr) =
      (Inr (ac, r2), w2)"
    "st_ParseRequest r2 = Inr (h, r3)"
    and s: "ServeConn env sv laddr raddr r w = handleRequest env sv w2 \<lparr>rq_Request = h, rq_AuthContext = Some ac,
      rq_LocalAddr = laddr, rq_RemoteAddr = raddr, rq_DestAddr = None, rq_RawDestAddr = req_DstAddr h, rq_Reader = r3\<rparr>"
    by (rule ServeConn_handles)
  let ?rq = "\<lparr>rq_Request = h, rq_AuthContext = Some ac, rq_LocalAddr = laddr, rq_RemoteAddr = raddr,
    rq_DestAddr = None, rq_RawDestAddr = req_DstAddr h, rq_Reader = r3\<rparr>" and ?a = "req_DstAddr h"
  have wf: "wf_request h" using S(4) by (simp add: request_codec.parse_iff)
  have d: "EDial ''tcp'' d \<in> set (snd (snd (handleRequest env sv w2 ?rq)))" using assms(3) unfolding s .
  show thesis
  proof (cases "as_FQDN ?a = ''''")
    case True
    then have "EDial ''tcp'' d \<in> set (snd (snd (check_rules env sv (env_background env) w2 ?rq)))"
      using d by (simp add: handleRequest_def Let_def)
    from check_rules_target[OF assms(1,2) this] that[OF wf refl] True show thesis by simp
  next
    case False
    then obtain ctx i where i: "sv_resolver sv (env_background env) (as_FQDN ?a) = (ctx, Inr i)"
      using d by (auto simp: handleRequest_def Let_def split: prod.splits sum.splits bool.splits)
    then have "EDial ''tcp'' d \<in> set (snd (snd (check_rules env sv ctx w2 (?rq\<lparr>rq_RawDestAddr := ?a\<lparr>as_IP := i\<rparr>\<rparr>))))"
      using d False by (simp add: handleRequest_def Let_def)
    from check_rules_target[OF assms(1,2) this] i that[OF wf refl] False show thesis by simp
  qed
qed

lemma ServeConn_dials:
  assumes "plain_server env sv" "EDial ''tcp'' d \<in> set (snd (snd (ServeConn env sv laddr raddr r w)))"
  shows "\<exists>mr r1 ac r2 w2 h r3 ctx rq. ParseMethodRequest r = Inr (mr, r1) \<and> mr_Ver mr = VersionSocks5 \<and>
    authenticate (sv_authMethods sv) r1 w (if raddr = NilAddr then '''' else addr_String raddr) (mr_Methods mr) =
      (Inr (ac, r2), w2) \<and>
    st_ParseRequest r2 = Inr (h, r3) \<and> req_Command h = CommandConnect \<and>
    snd (sv_rules sv ctx rq) \<and> rq_Request rq = h \<and> rq_AuthContext rq = Some ac \<and>
    rq_RemoteAddr rq = raddr \<and> map_option AddrSpec_String (rq_DestAddr rq) = Some d"
proof -
  have "snd (snd (ServeConn env sv laddr raddr r w)) \<noteq> []" using assms(2) by auto
  then obtain mr r1 ac r2 w2 h r3 ctx1 ctx2 rq where S: "ParseMethodRequest r = Inr (mr, r1)" "mr_Ver mr = VersionSocks5"
    "authenticate (sv_authMethods sv) r1 w (if raddr = NilAddr then '''' else addr_String raddr) (mr_Methods mr) =
      (Inr (ac, r2), w2)"
    "st_ParseRequest r2 = Inr (h, r3)" "sv_rules sv ctx1 rq = (ctx2, True)"
    "ServeConn env sv laddr raddr r w = run_command env sv ctx2 w2 rq"
    "rq_Request rq = h" "rq_AuthContext rq = Some ac" "rq_RemoteAddr rq = raddr" "rq_DestAddr rq \<noteq> None"
    by (rule ServeConn_runs)
  have "req_Command h = CommandConnect \<and> map_option AddrSpec_String (rq_DestAddr rq) = Some d"
    using run_command_dials[OF assms(1), of d ctx2 w2 rq] assms(2) S(6,7,10) by auto
  then show ?thesis using S by (metis snd_conv)
qed

text \<open>A target connection that was opened came from the dial callback, called with the client's request.\<close>

lemma ServeConn_opens:
  assumes "plain_server env sv" "sv_dialWithRequest sv = Some f"
    and "\<And>ctx w rq. ECloseTarget \<notin> set (snd (snd (env_associate env ctx w rq)))"
    and "ECloseTarget \<in> set (snd (snd (ServeConn env sv laddr raddr r w)))"
  obtains mr :: MethodRequest and r1 ac r2 w2 ctx1 ctx2 rq dest t where
    "authenticate (sv_authMethods sv) r1 w (if raddr = NilAddr then '''' else addr_String raddr) (mr_Methods mr) =
      (Inr (ac, r2), w2)"
    "sv_rules sv ctx1 rq = (ctx2, True)" "rq_AuthContext rq = Some ac" "rq_RemoteAddr rq = raddr"
    "rq_DestAddr rq = Some dest" "f ctx2 ''tcp'' (AddrSpec_String dest) rq = Inr t"
proof -
  have "snd (snd (ServeConn env sv laddr raddr r w)) \<noteq> []" using assms(4) by auto
  then obtain mr r1 ac r2 w2 h r3 ctx1 ctx2 rq where S: "ParseMethodRequest r = Inr (mr, r1)" "mr_Ver mr = VersionSocks5"
    "authenticate (sv_authMethods sv) r1 w (if raddr = NilAddr then '''' else addr_String raddr) (mr_Methods mr) =
      (Inr (ac, r2), w2)"
    "st_ParseRequest r2 = Inr (h, r3)" "sv_rules sv ctx1 rq = (ctx2, True)"
    "ServeConn env sv laddr raddr r w = run_command env sv ctx2 w2 rq"
    "rq_Request rq = h" "rq_AuthContext rq = Some ac" "rq_RemoteAddr rq = raddr" "rq_DestAddr rq \<noteq> None"
    by (rule ServeConn_runs)
  obtain dest where d: "rq_DestAddr rq = Some dest" using S(10) by blast
  have "\<exists>t. f ctx2 ''tcp'' (AddrSpec_String dest) rq = Inr t"
    using assms(1-4) d unfolding S(6)
    by (auto simp: run_command_def Let_def plain_server_def dispatch_plain handleConnect_def handleBind_def
        split: sum.splits prod.splits bool.splits if_splits)
  then show thesis using that S(3,5,8,9) d by blast
qed

subsection \<open>What the server promises\<close>

text \<open>
  C16. A server without user hooks dials a TCP target only for a client that negotiated one of the
  server's methods and passed it (for user/password: the store accepted exactly the pair in the
  authentication context), that sent a well-formed CONNECT request, and only when the rule set
  allowed that request, with that context and remote address, for the address that is dialed.
\<close>

theorem dial_only_after_checks:
  assumes "plain_server env sv" "EDial ''tcp'' d \<in> set (snd (snd (ServeConn env sv laddr raddr r w)))"
  shows "\<exists>a ac h ctx rq. a \<in> set (sv_authMethods sv) \<and>
    authenticated a (if raddr = NilAddr then '''' else addr_String raddr) ac \<and>
    wf_request h \<and> req_Command h = CommandConnect \<and> snd (sv_rules sv ctx rq) \<and> rq_Request rq = h \<and>
    rq_AuthContext rq = Some ac \<and> rq_RemoteAddr rq = raddr \<and>
    map_option AddrSpec_String (rq_DestAddr rq) = Some d"
proof -
  obtain mr :: MethodRequest and r1 ac r2 w2 h r3 ctx rq where S:
    "authenticate (sv_authMethods sv) r1 w (if raddr = NilAddr then '''' else addr_String raddr) (mr_Methods mr) =
      (Inr (ac, r2), w2)"
    "st_ParseRequest r2 = Inr (h, r3)" "req_Command h = CommandConnect" "snd (sv_rules sv ctx rq)"
    "rq_Request rq = h" "rq_AuthContext rq = Some ac" "rq_RemoteAddr rq = raddr"
    "map_option AddrSpec_String (rq_DestAddr rq) = Some d"
    using ServeConn_dials[OF assms] by blast
  have "wf_request h" using S(2) by (simp add: request_codec.parse_iff)
  then show ?thesis using S authenticate_ok[OF S(1)] by blast
qed

text \<open>A client without credentials that connects to 127.0.0.1:80.\<close>

definition demo_server :: "unit Server" where
  "demo_server = NewServer (\<lambda>ctx n. (ctx, Inl ''no such host''))
     [WithRule (PermitCommand_Allow \<lparr>EnableConnect = True, EnableBind = False, EnableAssociate = False\<rparr>)]"

definition demo_socks_env :: "unit socks_env" where
  "demo_socks_env = \<lparr>env_dial = (\<lambda>n a. Inr (TCPAddr [10, 0, 0, 1] 4000)), env_proxies = [None, None],
     env_background = (), env_associate = (\<lambda>ctx w rq. (None, w, []))\<rparr>"

definition demo_bytes :: "byte list" where
  "demo_bytes = [5, 1, 0, 5, 1, 0, 1, 127, 0, 0, 1, 0, 80]"

lemma demo_serve:
  "ServeConn demo_socks_env demo_server (TCPAddr [10, 0, 0, 9] 1080) (TCPAddr [192, 0, 2, 7] 999) demo_bytes
      \<lparr>w_out = [], w_ok = None\<rparr> =
   (None, \<lparr>w_out = [5, 0, 5, 0, 0, 1, 10, 0, 0, 1, 15, 160], w_ok = None\<rparr>,
    [EDial ''tcp'' ''127.0.0.1:80'', ECloseTarget])"
  by code_simp

theorem dial_only_after_checks_witness:
  "\<exists>h. wf_request h \<and> req_Command h = CommandConnect \<and>
     (\<exists>ctx rq. snd (sv_rules demo_server ctx rq) \<and> rq_Request rq = h \<and>
        map_option AddrSpec_String (rq_DestAddr rq) = Some ''127.0.0.1:80'')"
proof -
  have plain: "plain_server demo_socks_env demo_server"
    by (simp add: plain_server_def demo_socks_env_def demo_server_def NewServer_def WithRule_def Let_def)
  have d: "EDial ''tcp'' ''127.0.0.1:80'' \<in> set (snd (snd (ServeConn demo_socks_env demo_server
      (TCPAddr [10, 0, 0, 9] 1080) (TCPAddr [192, 0, 2, 7] 999) demo_bytes \<lparr>w_out = [], w_ok = None\<rparr>)))"
    unfolding demo_serve by simp
  show ?thesis using dial_only_after_checks[OF plain d] by blast
qed

end
