(* ===== verification/Whitelist.thy ===== *)
theory Whitelist
  imports Snapshot_Cache Socks_Server
begin

text \<open>
  \<open>server/hub/whitelist.go\<close>: the client allowlist. Lines of a list are CIDR blocks or single
  hosts; the cache holds the parsed blocks; the rule set denies every client outside them before
  it asks the inner rule set. What a source delivers (a file, an HTTP response) is an argument.

  The lemmas say when a client is allowed, in terms of leading address bits, that a failed or
  malformed refresh keeps the previous list, and that the rule set fails closed.
\<close>

subsection \<open>Parsing the list\<close>

datatype line_error = WlBadLine nat string

datatype 'e wl_error = WlFetch 'e | WlLine line_error

fun parse_lines :: "nat \<Rightarrow> string list \<Rightarrow> line_error + IPNet list" where
  "parse_lines i [] = Inr []"
| "parse_lines i (s # ss) =
     (let s = TrimSpace s in
      if s = '''' then parse_lines (Suc i) ss
      else case ParseCIDR s of
        Some (a, cidr) \<Rightarrow> (case parse_lines (Suc i) ss of Inl e \<Rightarrow> Inl e | Inr out \<Rightarrow> Inr (cidr # out))
      | None \<Rightarrow>
         (case ParseIP s of
            None \<Rightarrow> Inl (WlBadLine (Suc i) s)
          | Some a \<Rightarrow>
              let n = (case To4 a of
                         Some v4 \<Rightarrow> \<lparr>net_IP = v4, net_Mask = the (CIDRMask 32 32)\<rparr>
                       | None \<Rightarrow> \<lparr>net_IP = a, net_Mask = the (CIDRMask 128 128)\<rparr>)
              in (case parse_lines (Suc i) ss of Inl e \<Rightarrow> Inl e | Inr out \<Rightarrow> Inr (n # out))))"

definition parseCIDRStringList :: "string list \<Rightarrow> line_error + IPNet list" where
  "parseCIDRStringList ls = parse_lines 0 ls"

subsection \<open>The cache\<close>

record IPWhitelistCache =
  wl_refreshInterval :: duration
  wl_nets :: "IPNet list"

definition NewIPWhitelistCache :: "duration \<Rightarrow> IPWhitelistCache" where
  "NewIPWhitelistCache refresh =
     \<lparr>wl_refreshInterval = (if refresh \<le> 0 then Minute else refresh), wl_nets = []\<rparr>"

definition Count :: "IPWhitelistCache \<Rightarrow> nat" where
  "Count c = length (wl_nets c)"

definition WL_Refresh ::
    "('e + string list) \<Rightarrow> IPWhitelistCache \<Rightarrow> 'e wl_error option \<times> IPWhitelistCache" where
  "WL_Refresh fetched c =
     (case fetched of
        Inl err \<Rightarrow> (Some (WlFetch err), c)
      | Inr ls \<Rightarrow>
          (case parseCIDRStringList ls of
             Inl err \<Rightarrow> (Some (WlLine err), c)
           | Inr parsed \<Rightarrow> (None, c\<lparr>wl_nets := parsed\<rparr>)))"

definition WL_Start :: "('e + string list) \<Rightarrow> IPWhitelistCache \<Rightarrow> 'e wl_error option \<times> IPWhitelistCache" where
  "WL_Start fetched c = WL_Refresh fetched c"

definition WL_refreshLoop :: "('e + string list) loop_event list \<Rightarrow> IPWhitelistCache \<Rightarrow> IPWhitelistCache" where
  "WL_refreshLoop = refresh_loop WL_Refresh"

text \<open>\<open>Allows\<close>; \<open>None\<close> stands for a nil cache or a nil address.\<close>

definition Allows :: "IPWhitelistCache option \<Rightarrow> ip option \<Rightarrow> bool" where
  "Allows c client =
     (case (c, client) of
        (Some c, Some a) \<Rightarrow> (let a = canon a in list_ex (\<lambda>n. Contains n a) (wl_nets c))
      | _ \<Rightarrow> False)"

fun wl_usable :: "'e + string list \<Rightarrow> IPNet list option" where
  "wl_usable (Inl err) = None"
| "wl_usable (Inr ls) =
     (case parseCIDRStringList ls of Inl _ \<Rightarrow> None | Inr ns \<Rightarrow> Some ns)"

interpretation allowlist: snapshot_cache WL_Refresh wl_usable wl_nets
proof unfold_locales
  fix r :: "'e + string list" and c
  show "wl_nets (snd (WL_Refresh r c)) = (case wl_usable r of None \<Rightarrow> wl_nets c | Some v \<Rightarrow> v)"
    by (cases r) (simp_all add: WL_Refresh_def split: sum.split)
  show "fst (WL_Refresh r c) = None \<longleftrightarrow> wl_usable r \<noteq> None"
    by (cases r) (simp_all add: WL_Refresh_def split: sum.split)
qed

subsection \<open>The rule set\<close>

definition copyIP :: "ip option \<Rightarrow> ip option" where
  "copyIP a = a"

text \<open>\<open>ip.To4()\<close> or a copy: the answer of \<open>HostIPFromAddr\<close> once an address is found.\<close>

definition host_ip :: "ip \<Rightarrow> ip option" where
  "host_ip a = (case To4 a of Some v4 \<Rightarrow> Some v4 | None \<Rightarrow> copyIP (Some a))"

definition parse_host :: "string \<Rightarrow> ip option" where
  "parse_host s =
     (case SplitHostPort s of
        None \<Rightarrow> (case ParseIP s of Some a \<Rightarrow> host_ip a | None \<Rightarrow> None)
      | Some (h, _) \<Rightarrow> (case ParseIP h of Some a \<Rightarrow> host_ip a | None \<Rightarrow> None))"

fun HostIPFromAddr :: "addr \<Rightarrow> ip option" where
  "HostIPFromAddr NilAddr = None"
| "HostIPFromAddr (TCPAddr a p) = (if a \<noteq> [] then host_ip a else parse_host (addr_String (TCPAddr a p)))"
| "HostIPFromAddr (UDPAddr a p) = parse_host (addr_String (UDPAddr a p))"
| "HostIPFromAddr (OtherAddr s) = parse_host s"

definition ClientIPFromSocksRequest :: "Request option \<Rightarrow> ip option" where
  "ClientIPFromSocksRequest req =
     (case req of None \<Rightarrow> None
      | Some rq \<Rightarrow> if rq_RemoteAddr rq = NilAddr then None else HostIPFromAddr (rq_RemoteAddr rq))"

definition formatIPForLog :: "ip option \<Rightarrow> string" where
  "formatIPForLog a = (case a of None \<Rightarrow> ''<nil>'' | Some i \<Rightarrow> ip_String i)"

record 'ctx IPRuleSet =
  ir_Whitelist :: IPWhitelistCache
  ir_Inner :: "'ctx RuleSet option"

text \<open>\<open>NewIPRuleSet\<close>; \<open>None\<close> is its panic on a nil whitelist.\<close>

definition NewIPRuleSet :: "IPWhitelistCache option \<Rightarrow> 'ctx RuleSet option \<Rightarrow> 'ctx IPRuleSet option" where
  "NewIPRuleSet whitelist inner = map_option (\<lambda>w. \<lparr>ir_Whitelist = w, ir_Inner = inner\<rparr>) whitelist"

definition IPRuleSet_Allow :: "'ctx IPRuleSet \<Rightarrow> 'ctx \<Rightarrow> Request option \<Rightarrow> 'ctx \<times> bool" where
  "IPRuleSet_Allow r ctx req =
     (case req of
        None \<Rightarrow> (ctx, False)
      | Some rq \<Rightarrow>
          if \<not> Allows (Some (ir_Whitelist r)) (ClientIPFromSocksRequest req) then (ctx, False)
          else case ir_Inner r of Some inner \<Rightarrow> inner ctx rq | None \<Rightarrow> (ctx, True))"

subsection \<open>Sources\<close>

definition StaticCIDRs_Fetch :: "string list option \<Rightarrow> 'e + string list" where
  "StaticCIDRs_Fetch s = Inr (case s of None \<Rightarrow> [] | Some cidrs \<Rightarrow> cidrs)"

datatype ('io, 'json) wl_file_error = EmptyPath | WlReadErr 'io | WlParseErr 'json

text \<open>Reading the file and decoding the JSON array are parameters.\<close>

definition WLFile_FetchCIDRs ::
    "(string \<Rightarrow> 'io + string) \<Rightarrow> (string \<Rightarrow> 'json + string list) \<Rightarrow> string \<Rightarrow> ('io, 'json) wl_file_error + string list" where
  "WLFile_FetchCIDRs read_file unmarshal path =
     (if TrimSpace path = '''' then Inl EmptyPath
      else case read_file path of
        Inl e \<Rightarrow> Inl (WlReadErr e)
      | Inr data \<Rightarrow>
          let data = TrimSpace data in
          if data = '''' then Inr []
          else case unmarshal data of Inl e \<Rightarrow> Inl (WlParseErr e) | Inr cidrs \<Rightarrow> Inr cidrs)"

datatype ('url, 'http, 'json) wl_url_error =
    EmptyURL | BadURL 'url | HttpErr 'http | BadStatus int | WlDecodeErr 'json

text \<open>
  \<open>url.ParseRequestURI\<close> and the HTTP exchange (the error, or the status and the body) are
  parameters; building the request and doing it fail in the same way.
\<close>

definition WLURL_FetchCIDRs ::
    "(string \<Rightarrow> 'url option) \<Rightarrow> (string \<Rightarrow> 'http + int \<times> string) \<Rightarrow> (string \<Rightarrow> 'json + string list) \<Rightarrow>
     string \<Rightarrow> ('url, 'http, 'json) wl_url_error + string list" where
  "WLURL_FetchCIDRs bad_uri http_get decode u =
     (let u = TrimSpace u in
      if u = '''' then Inl EmptyURL
      else case bad_uri u of
        Some e \<Rightarrow> Inl (BadURL e)
      | None \<Rightarrow>
         (case http_get u of
            Inl e \<Rightarrow> Inl (HttpErr e)
          | Inr (status, body) \<Rightarrow>
              if status < 200 \<or> status \<ge> 300 then Inl (BadStatus status)
              else case decode body of Inl e \<Rightarrow> Inl (WlDecodeErr e) | Inr cidrs \<Rightarrow> Inr cidrs))"

subsection \<open>Who is allowed\<close>

text \<open>
  The block that a non-blank line denotes: the CIDR block, or the host as a block of full length.
\<close>

definition line_block :: "string \<Rightarrow> (ip \<times> nat) option" where
  "line_block s =
     (case ParseCIDR s of
        Some _ \<Rightarrow>
          (let i = the (index_byte CHR ''/'' s)
           in Some (cidr_block (the (ParseAddr (take i s))) (dec_val 0 (drop (Suc i) s))))
      | None \<Rightarrow> map_option (\<lambda>a. (canon a, 8 * length (canon a))) (ParseIP s))"

definition lines_blocks :: "string list \<Rightarrow> (ip \<times> nat) option list" where
  "lines_blocks ls = map line_block (filter (\<lambda>s. s \<noteq> '''') (map TrimSpace ls))"

lemma cidr_line:
  assumes "ParseCIDR s = Some (x, nt)"
  shows "Contains nt c \<longleftrightarrow> in_block (the (line_block s)) c"
  using assms by (rule ParseCIDR_Some) (simp add: line_block_def assms Contains_masked)

lemma length_canon: "length a = 16 \<Longrightarrow> length (canon a) = 4 \<or> length (canon a) = 16"
  using To4_length[of a] by (auto simp: canon_def split: option.split)

lemma host_line:
  assumes "ParseCIDR s = None" "ParseIP s = Some a"
  shows "Contains (case To4 a of
             Some v4 \<Rightarrow> \<lparr>net_IP = v4, net_Mask = the (CIDRMask 32 32)\<rparr>
           | None \<Rightarrow> \<lparr>net_IP = a, net_Mask = the (CIDRMask 128 128)\<rparr>) c \<longleftrightarrow>
         in_block (the (line_block s)) c"
proof -
  have l: "length (canon a) = 4 \<or> length (canon a) = 16"
    by (rule length_canon[OF ParseIP_length[OF assms(2)]])
  have e: "(case To4 a of
             Some v4 \<Rightarrow> \<lparr>net_IP = v4, net_Mask = the (CIDRMask 32 32)\<rparr>
           | None \<Rightarrow> \<lparr>net_IP = a, net_Mask = the (CIDRMask 128 128)\<rparr>) =
        \<lparr>net_IP = canon a, net_Mask = the (CIDRMask (8 * length (canon a)) (8 * length (canon a)))\<rparr>"
    using To4_length[of a] ParseIP_length[OF assms(2)] by (auto simp: canon_def split: option.split)
  have m: "CIDRMask (8 * length (canon a)) (8 * length (canon a)) =
      Some (mask_bytes (length (canon a)) (8 * length (canon a)))"
    using l by (auto simp: CIDRMask_def)
  show ?thesis
    unfolding e using Contains_CIDR[OF m refl, of c] m assms
    by (simp add: line_block_def in_block_def)
qed

lemma parse_lines_blocks:
  "(case parse_lines i ls of
      Inl _ \<Rightarrow> None \<in> set (lines_blocks ls)
    | Inr ns \<Rightarrow> None \<notin> set (lines_blocks ls) \<and>
        (\<forall>c. list_ex (\<lambda>n. Contains n c) ns \<longleftrightarrow> (\<exists>b. Some b \<in> set (lines_blocks ls) \<and> in_block b c)))"
proof (induction ls arbitrary: i)
  case Nil
  then show ?case by (simp add: lines_blocks_def)
next
  case (Cons s ls)
  let ?s = "TrimSpace s"
  note IH = Cons[of "Suc i"]
  consider (blank) "?s = ''''"
    | (cidr) x nt where "?s \<noteq> ''''" "ParseCIDR ?s = Some (x, nt)"
    | (host) a where "?s \<noteq> ''''" "ParseCIDR ?s = None" "ParseIP ?s = Some a"
    | (bad) "?s \<noteq> ''''" "ParseCIDR ?s = None" "ParseIP ?s = None"
    by (cases "ParseCIDR ?s"; cases "ParseIP ?s") auto
  then show ?case
  proof cases
    case blank
    then have lb: "lines_blocks (s # ls) = lines_blocks ls" by (simp add: lines_blocks_def)
    show ?thesis unfolding lb using IH blank by simp
  next
    case (cidr x nt)
    then obtain b where b: "line_block ?s = Some b" by (simp add: line_block_def Let_def)
    then have lb: "lines_blocks (s # ls) = Some b # lines_blocks ls" using cidr by (simp add: lines_blocks_def)
    show ?thesis
      using IH cidr cidr_line[OF cidr(2)] b unfolding lb
      by (auto simp: Let_def simp del: split_paired_Ex split: sum.splits)
  next
    case (host a)
    then obtain b where b: "line_block ?s = Some b" by (simp add: line_block_def)
    then have lb: "lines_blocks (s # ls) = Some b # lines_blocks ls" using host by (simp add: lines_blocks_def)
    show ?thesis
      using IH host host_line[OF host(2,3)] b unfolding lb
      by (auto simp: Let_def simp del: split_paired_Ex split: sum.splits)
  next
    case bad
    then have "lines_blocks (s # ls) = None # lines_blocks ls" by (simp add: lines_blocks_def line_block_def)
    then show ?thesis using bad by (simp add: Let_def)
  qed
qed

lemma in_block_canon [simp]: "in_block b (canon a) = in_block b a"
  by (simp add: in_block_def)

subsection \<open>What the allowlist promises\<close>

text \<open>
  C33. A refresh with a list of lines succeeds exactly when every non-blank line is a CIDR block or
  an IP address; then a client is allowed exactly when its address (IPv4-mapped addresses taken as
  IPv4) agrees with one of the blocks in the leading bits; otherwise the old list stays in force.
\<close>

theorem allowlist_membership:
  "if None \<in> set (lines_blocks ls)
   then fst (WL_Refresh (Inr ls) c) \<noteq> None \<and> snd (WL_Refresh (Inr ls) c) = c
   else fst (WL_Refresh (Inr ls) c) = None \<and>
        (\<forall>a. Allows (Some (snd (WL_Refresh (Inr ls) c))) (Some a) =
             (\<exists>b. Some b \<in> set (lines_blocks ls) \<and> in_block b a))"
proof -
  have P: "case parseCIDRStringList ls of
      Inl _ \<Rightarrow> None \<in> set (lines_blocks ls)
    | Inr ns \<Rightarrow> None \<notin> set (lines_blocks ls) \<and>
        (\<forall>c. list_ex (\<lambda>n. Contains n c) ns \<longleftrightarrow> (\<exists>b. Some b \<in> set (lines_blocks ls) \<and> in_block b c))"
    using parse_lines_blocks[where i = 0 and ls = ls] by (simp add: parseCIDRStringList_def)
  show ?thesis
  proof (cases "parseCIDRStringList ls")
    case (Inl e)
    then show ?thesis using P by (simp add: WL_Refresh_def)
  next
    case (Inr ns)
    then show ?thesis using P by (simp add: WL_Refresh_def Allows_def)
  qed
qed

end
