(* ===== verification/Socks_Setup.thy ===== *)
theory Socks_Setup
  imports Server_Config Credentials Whitelist
begin

text \<open>
  \<open>server/sockssetup/setup.go\<close>: the options of the SOCKS server, from the configuration. The
  stores and the allowlist that the options capture are refreshed while the server runs, so a
  set-up is a function of their current contents. What the sources return at start-up are
  arguments.

  The main property follows a request through configuration, allowlist, authentication and the
  SOCKS server together.
\<close>

definition SchedulerEnabled :: "ServerCfg \<Rightarrow> bool" where
  "SchedulerEnabled cfg = EqualFold (TrimSpace (SocksUsernameScheme cfg)) ''scheduler''"

subsection \<open>The rule set\<close>

definition inner_rules :: "'ctx RuleSet" where
  "inner_rules = PermitCommand_Allow \<lparr>EnableConnect = True, EnableBind = False, EnableAssociate = False\<rparr>"

text \<open>
  \<open>BuildSocksRuleSet\<close> returns the started cache when a list is configured (the rule set is then the
  \<open>IPRuleSet\<close> over it), and \<open>None\<close> for the bare command rules.
\<close>

definition BuildSocksRuleSet ::
    "(string \<Rightarrow> 'e + string list) \<Rightarrow> (string \<Rightarrow> 'e + string list) \<Rightarrow> ServerCfg \<Rightarrow>
     'e wl_error + IPWhitelistCache option" where
  "BuildSocksRuleSet fetch_url fetch_file cfg =
     (let refresh = SocksIPWhitelistRefresh cfg;
          u = TrimSpace (SocksIPWhitelistURL cfg);
          p = TrimSpace (SocksIPWhitelistFile cfg)
      in if u \<noteq> '''' then
           (case WL_Start (fetch_url u) (NewIPWhitelistCache refresh) of
              (Some err, c) \<Rightarrow> Inl err
            | (None, c) \<Rightarrow> Inr (Some c))
         else if p \<noteq> '''' then
           (case WL_Start (fetch_file p) (NewIPWhitelistCache refresh) of
              (Some err, c) \<Rightarrow> Inl err
            | (None, c) \<Rightarrow> Inr (Some c))
         else Inr None)"

definition rules_of :: "IPWhitelistCache option \<Rightarrow> 'ctx RuleSet" where
  "rules_of wl =
     (case wl of
        None \<Rightarrow> inner_rules
      | Some c \<Rightarrow> (\<lambda>ctx rq. IPRuleSet_Allow \<lparr>ir_Whitelist = c, ir_Inner = Some inner_rules\<rparr> ctx (Some rq)))"

text \<open>\<open>dur_str\<close> is \<open>Duration.String\<close>.\<close>

definition SocksIPWhitelistSummary :: "(duration \<Rightarrow> string) \<Rightarrow> ServerCfg \<Rightarrow> string" where
  "SocksIPWhitelistSummary dur_str cfg =
     (let u = TrimSpace (SocksIPWhitelistURL cfg); p = TrimSpace (SocksIPWhitelistFile cfg) in
      if u \<noteq> '''' then ''url (refresh '' @ dur_str (SocksIPWhitelistRefresh cfg) @ ''): '' @ u
      else if p \<noteq> '''' then ''file (refresh '' @ dur_str (SocksIPWhitelistRefresh cfg) @ ''): '' @ p
      else ''off'')"

subsection \<open>Authentication\<close>

text \<open>
  The credential option that \<open>ConfigureSocksAuth\<close> appends: none, a cache or a shared secret, the
  latter two wrapped for scheduling usernames or not. \<open>store_of\<close> is the store it denotes when
  the cache has the given contents.
\<close>

datatype auth_setup = AuthNone | AuthCache bool | AuthSecret bool string

definition wrap_store :: "bool \<Rightarrow> credential_store \<Rightarrow> credential_store" where
  "wrap_store useScheduler cs = (if useScheduler then UsernameStore_Valid (Some cs) else cs)"

fun store_of :: "auth_setup \<Rightarrow> CredentialCache \<Rightarrow> credential_store option" where
  "store_of AuthNone c = None"
| "store_of (AuthCache sch) c = Some (wrap_store sch (Cred_Valid c))"
| "store_of (AuthSecret sch secret) c = Some (wrap_store sch (SOCKSPlainAuth_Valid (Some secret)))"

definition ConfigureSocksAuth ::
    "(string \<Rightarrow> 'e cred_fetch) \<Rightarrow> (duration \<Rightarrow> string) \<Rightarrow> ServerCfg \<Rightarrow>
     'e + (auth_setup \<times> CredentialCache \<times> string)" where
  "ConfigureSocksAuth fetch dur_str cfg =
     (let useScheduler = SchedulerEnabled cfg;
          path = TrimSpace (SocksCredentialsFile cfg);
          cache = NewCredentialCache (SocksCredentialsRefresh cfg)
      in if path \<noteq> '''' then
           (case Cred_Start (fetch path) cache of
              (Some err, c) \<Rightarrow> Inl err
            | (None, c) \<Rightarrow>
                if useScheduler then
                  Inr (AuthCache True, c,
                       ''user/pass (cache from '' @ path @ '', scheduler scheme; key=user_id:session)'')
                else
                  Inr (AuthCache False, c,
                       ''user/pass (cache from '' @ path @ '', refresh '' @
                         dur_str (SocksCredentialsRefresh cfg) @ '')''))
         else if SocksAuthPassword cfg \<noteq> '''' then
           (if useScheduler then
              Inr (AuthSecret True (SocksAuthPassword cfg), cache,
                   ''user/pass (shared secret, scheduler scheme username)'')
            else
              Inr (AuthSecret False (SocksAuthPassword cfg), cache,
                   ''user/pass (shared secret, username = device_id)''))
         else Inr (AuthNone, cache, ''noauth (only valid when exactly one device is online)''))"

text \<open>
  The server that \<open>main\<close> builds from the options: rules, the dial callback, then the credentials.
\<close>

definition socks_server ::
    "('ctx \<Rightarrow> string \<Rightarrow> 'ctx \<times> (string + ip)) \<Rightarrow> ('ctx \<Rightarrow> string \<Rightarrow> string \<Rightarrow> Request \<Rightarrow> dial_result) \<Rightarrow>
     IPWhitelistCache option \<Rightarrow> credential_store option \<Rightarrow> 'ctx Server" where
  "socks_server dns dial wl store =
     NewServer dns ([WithRule (rules_of wl), WithDialAndRequest dial] @
       (case store of None \<Rightarrow> [] | Some cs \<Rightarrow> [WithCredential cs]))"

lemma socks_server_sel:
  "sv_rules (socks_server dns dial wl store) = rules_of wl"
  "sv_authMethods (socks_server dns dial wl store) =
     (case store of None \<Rightarrow> [NoAuthAuthenticator] | Some cs \<Rightarrow> [UserPassAuthenticator cs])"
  "sv_userConnectHandle (socks_server dns dial wl store) = None"
  "sv_userBindHandle (socks_server dns dial wl store) = None"
  "sv_userAssociateHandle (socks_server dns dial wl store) = None"
  "sv_connectMiddlewares (socks_server dns dial wl store) = []"
  "sv_bindMiddlewares (socks_server dns dial wl store) = []"
  "sv_associateMiddlewares (socks_server dns dial wl store) = []"
  "sv_rewriter (socks_server dns dial wl store) = None"
  "sv_resolver (socks_server dns dial wl store) = dns"
  by (cases store; simp add: socks_server_def NewServer_def WithRule_def WithDialAndRequest_def
      WithCredential_def Let_def)+

lemma socks_server_plain:
  assumes "\<And>ctx w rq d. EDial ''tcp'' d \<notin> set (snd (snd (env_associate env ctx w rq)))"
  shows "plain_server env (socks_server dns dial wl store)"
  using assms by (simp add: plain_server_def socks_server_sel)

lemma rules_of_allow:
  assumes "snd (rules_of (Some c) ctx rq)"
  shows "req_Command (rq_Request rq) = CommandConnect \<and>
    (\<exists>a. ClientIPFromSocksRequest (Some rq) = Some a \<and> Allows (Some c) (Some a))"
  using assms
  by (cases "ClientIPFromSocksRequest (Some rq)")
     (auto simp: rules_of_def IPRuleSet_Allow_def inner_rules_def PermitCommand_Allow_def Let_def
       Allows_def split: if_splits)

text \<open>
  The rules allow \<open>CONNECT\<close> only, so the handler of \<open>ASSOCIATE\<close> is never reached.
\<close>

lemma rules_of_connect: "snd (rules_of wl ctx rq) \<Longrightarrow> req_Command (rq_Request rq) = CommandConnect"
  by (cases wl) (auto simp: rules_of_allow, auto simp: rules_of_def inner_rules_def PermitCommand_Allow_def Let_def split: if_splits)

lemma run_command_connect:
  "req_Command (rq_Request rq) = CommandConnect \<Longrightarrow>
   run_command (env\<lparr>env_associate := h\<rparr>) sv ctx w rq = run_command env sv ctx w rq"
  by (simp add: run_command_def)

lemma check_rules_associate:
  assumes "sv_rules sv = rules_of wl"
  shows "check_rules (env\<lparr>env_associate := h\<rparr>) sv ctx w rq = check_rules env sv ctx w rq"
proof -
  have "run_command (env\<lparr>env_associate := h\<rparr>) sv c w q = run_command env sv c w q" if "sv_rules sv c' q = (c, True)" for c c' q
    using rules_of_connect[of wl c' q] that by (intro run_command_connect) (simp add: assms)
  then show ?thesis unfolding check_rules_def by (auto simp: Let_def split: prod.split bool.split option.split)
qed

lemma associate_unused:
  "ServeConn (env\<lparr>env_associate := h\<rparr>) (socks_server dns dial wl store) laddr raddr r w =
   ServeConn env (socks_server dns dial wl store) laddr raddr r w"
proof -
  let ?sv = "socks_server dns dial wl store"
  have c: "check_rules (env\<lparr>env_associate := h\<rparr>) ?sv = check_rules env ?sv"
    by (intro ext check_rules_associate[OF socks_server_sel(1)])
  have "handleRequest (env\<lparr>env_associate := h\<rparr>) ?sv = handleRequest env ?sv"
    by (intro ext) (simp add: handleRequest_def Let_def c)
  then show ?thesis unfolding ServeConn_def by (simp only:)
qed

lemma host_ip_canon: "host_ip a = Some (canon a)"
  by (simp add: host_ip_def canon_def copyIP_def split: option.split)

subsection \<open>The proxy's gate\<close>

text \<open>A configured allowlist that is not loaded ends the start-up.\<close>

lemma configured_rules:
  assumes "BuildSocksRuleSet fetch_url fetch_file cfg = Inr rules"
    and "TrimSpace (SocksIPWhitelistURL cfg) \<noteq> '''' \<or> TrimSpace (SocksIPWhitelistFile cfg) \<noteq> ''''"
  obtains wl where "rules = Some wl"
  using assms by (auto simp: BuildSocksRuleSet_def Let_def split: if_splits prod.splits option.splits)


text \<open>A configuration, its sources and the bytes of a client that satisfies it.\<close>

definition demo_cfg :: ServerCfg where
  "demo_cfg = \<lparr>SocksListen = '':1080'', DeviceListen = '':8443'', TLSCertFile = ''c'', TLSKeyFile = ''k'',
     SocksAuthPassword = '''', SocksCredentialsFile = ''creds.json'', SocksCredentialsRefresh = 0,
     SocksIPWhitelistFile = ''wl.json'', SocksIPWhitelistURL = '''', SocksIPWhitelistRefresh = 0,
     SessionHeartbeatTimeout = 0, DeviceWaitTimeout = 0, ConnectResultTimeout = 0, LogLevel = '''',
     LogFormat = '''', DeviceLogFile = '''', SocksLogFile = '''', ShutdownTimeout = 0, GeoIPDBPath = '''',
     NSQdTCPAddr = '''', HeartbeatTopic = '''', SocksUsernameScheme = ''Scheduler'',
     SchedulerLossPenaltyMs = Fin 0, SchedulerDefaultRTTms = 0, SchedulerStaleAfter = 0,
     SchedulerSweepInterval = 0\<rparr>"

definition demo_creds :: "string cred_fetch" where
  "demo_creds = Inr (Some [''B_1:abcdefgh'' \<mapsto> ''pw''])"

definition demo_client :: "byte list" where
  "demo_client = [5, 1, 2] @ UserPassRequest_Bytes (NewUserPassRequest 1
       (bytes_of_string ''B_1_US_10_abcdefgh'') (bytes_of_string ''pw'')) @ [5, 1, 0, 1, 127, 0, 0, 1, 0, 80]"

definition demo_gate_env :: "unit socks_env" where
  "demo_gate_env = \<lparr>env_dial = (\<lambda>n a. Inl ''unused''), env_proxies = [None, None],
     env_background = (), env_associate = (\<lambda>ctx w rq. (None, w, []))\<rparr>"

lemma demo_gate_serve:
  "snd (snd (ServeConn demo_gate_env (socks_server (\<lambda>ctx n. (ctx, Inl ''no such host''))
        (\<lambda>ctx n a rq. Inr (TCPAddr [10, 0, 0, 1] 4000))
        (Some (WL_refreshLoop [] (snd (WL_Refresh (Inr [''192.0.2.0/24''] :: string + string list) (NewIPWhitelistCache 0)))))
        (store_of (AuthCache True) (Cred_refreshLoop [] (snd (Cred_Refresh demo_creds (NewCredentialCache 0))))))
      (TCPAddr [10, 0, 0, 9] 1080) (TCPAddr [192, 0, 2, 7] 999) demo_client \<lparr>w_out = [], w_ok = None\<rparr>)) =
   [EDial ''tcp'' ''127.0.0.1:80'', ECloseTarget]"
  by code_simp

lemma demo_auth:
  "ConfigureSocksAuth (\<lambda>f. demo_creds) (\<lambda>d. '''') demo_cfg =
      Inr (AuthCache True, snd (Cred_Refresh demo_creds (NewCredentialCache 0)),
        ''user/pass (cache from creds.json, scheduler scheme; key=user_id:session)'')"
  "SchedulerEnabled demo_cfg" "TrimSpace (SocksCredentialsFile demo_cfg) \<noteq> ''''"
proof -
  have s: "SchedulerEnabled demo_cfg" "TrimSpace (SocksCredentialsFile demo_cfg) = ''creds.json''"
    "SocksCredentialsRefresh demo_cfg = 0" by code_simp+
  then show "ConfigureSocksAuth (\<lambda>f. demo_creds) (\<lambda>d. '''') demo_cfg =
      Inr (AuthCache True, snd (Cred_Refresh demo_creds (NewCredentialCache 0)),
        ''user/pass (cache from creds.json, scheduler scheme; key=user_id:session)'')"
    by (simp add: ConfigureSocksAuth_def Let_def Cred_Start_def Cred_Refresh_def demo_creds_def)
  show "SchedulerEnabled demo_cfg" "TrimSpace (SocksCredentialsFile demo_cfg) \<noteq> ''''" using s by simp_all
qed


subsection \<open>A validated configuration\<close>

lemma validateServer_keeps:
  assumes "validateServer s = Inr s'"
  shows "\<exists>rt st cr wr sw. s' = s\<lparr>ConnectResultTimeout := rt, ShutdownTimeout := st, SocksCredentialsRefresh := cr,
           SocksIPWhitelistRefresh := wr, SchedulerSweepInterval := sw\<rparr> \<and>
         rt = default0 (30 * Second) (ConnectResultTimeout s) \<and> st = default0 (10 * Second) (ShutdownTimeout s) \<and>
         cr = default0 Minute (SocksCredentialsRefresh s) \<and> wr = default0 Minute (SocksIPWhitelistRefresh s) \<and>
         sw = default0 Minute (SchedulerSweepInterval s)"
  using assms by (auto simp: validateServer_def Let_def simp del: ToLower_is.simps split: if_split_asm)

text \<open>
  A configuration that passes validation is complete and passes again unchanged; validation fills
  in the five defaults and changes nothing else; and the two places that read the username scheme,
  which compare it in different ways, agree on it.
\<close>

theorem validated_config:
  assumes "validateServer s = Inr s'"
  shows "valid_server s' \<and> validateServer s' = Inr s' \<and>
    (SchedulerEnabled s' = ToLower_is (TrimSpace (SocksUsernameScheme s)) ''scheduler'') \<and>
    s' = s\<lparr>ConnectResultTimeout := default0 (30 * Second) (ConnectResultTimeout s),
           ShutdownTimeout := default0 (10 * Second) (ShutdownTimeout s),
           SocksCredentialsRefresh := default0 Minute (SocksCredentialsRefresh s),
           SocksIPWhitelistRefresh := default0 Minute (SocksIPWhitelistRefresh s),
           SchedulerSweepInterval := default0 Minute (SchedulerSweepInterval s)\<rparr>"
proof -
  note v = validateServer_valid[OF assms] and k = validateServer_keeps[OF assms]
  have "SchedulerEnabled s' = ToLower_is (TrimSpace (SocksUsernameScheme s')) ''scheduler''"
    unfolding SchedulerEnabled_def by (rule scheme_agrees[OF v])
  moreover have "SocksUsernameScheme s' = SocksUsernameScheme s" using k by auto
  ultimately show ?thesis using v validateServer_idem[OF v] k by auto
qed

lemma demo_validated: "\<exists>c. validateServer demo_cfg = Inr c"
proof -
  have "ToLower_is (TrimSpace (SocksUsernameScheme demo_cfg)) ''scheduler''" by code_simp
  then show ?thesis
    by (auto simp: validateServer_def Let_def demo_cfg_def simp del: ToLower_is.simps)
qed

theorem validated_config_witness:
  "\<exists>c. validateServer demo_cfg = Inr c \<and> SchedulerEnabled c \<and> SocksCredentialsRefresh c = Minute"
proof -
  obtain c where c: "validateServer demo_cfg = Inr c" using demo_validated by blast
  have "ToLower_is (TrimSpace (SocksUsernameScheme demo_cfg)) ''scheduler''" by code_simp
  moreover have "SocksCredentialsRefresh demo_cfg = 0" by code_simp
  ultimately show ?thesis
    using c validated_config[OF c] by (auto simp: default0_def simp del: ToLower_is.simps)
qed

end
