(* ===== verification/Registry.thy ===== *)
theory Registry
  imports Step_System Go_Sort
begin

text \<open>
  \<open>server/hub/registry.go\<close>: the map from device ids to yamux sessions. A session is a pointer;
  the model keeps the set of sessions on which \<open>Close\<close> was called. Each method runs under the
  registry's lock; \<open>CloseAll\<close> copies the sessions under the lock and closes them afterwards;
  \<open>WaitSession\<close> polls the registry, so its argument is what it meets at each poll.
\<close>

datatype sess_ptr = NilSess | Sess nat

record Registry =
  reg_sessions :: "string \<rightharpoonup> sess_ptr"
  reg_closed :: "nat set"

definition NewRegistry :: Registry where
  "NewRegistry = \<lparr>reg_sessions = Map.empty, reg_closed = {}\<rparr>"

fun sess_Close :: "sess_ptr \<Rightarrow> Registry \<Rightarrow> Registry" where
  "sess_Close NilSess r = r"
| "sess_Close (Sess n) r = r\<lparr>reg_closed := insert n (reg_closed r)\<rparr>"

text \<open>The walks over the map take the order of the keys as an argument.\<close>

definition ListOnline :: "string list \<Rightarrow> Registry \<Rightarrow> string list" where
  "ListOnline ids r = SortStrings ids"

definition OnlineSet :: "Registry \<Rightarrow> string set" where
  "OnlineSet r = dom (reg_sessions r)"

definition OnlineCount :: "Registry \<Rightarrow> nat" where
  "OnlineCount r = map_len (reg_sessions r)"

datatype resolve_error = NoDeviceOnline | MultipleDevices "string list"

definition ResolveDeviceForDial :: "string list \<Rightarrow> string \<Rightarrow> Registry \<Rightarrow> resolve_error + string" where
  "ResolveDeviceForDial ids socksUser r =
     (let u = TrimSpace socksUser in
      if u \<noteq> '''' then Inr u
      else if map_len (reg_sessions r) = 0 then Inl NoDeviceOnline
      else if map_len (reg_sessions r) = 1 then Inr (hd ids)
      else Inl (MultipleDevices (SortStrings ids)))"

definition Put :: "string \<Rightarrow> sess_ptr \<Rightarrow> Registry \<Rightarrow> Registry" where
  "Put deviceID sess r =
     (let r = (case reg_sessions r deviceID of
                 Some old \<Rightarrow> if old \<noteq> NilSess then sess_Close old r else r
               | None \<Rightarrow> r)
      in r\<lparr>reg_sessions := (reg_sessions r)(deviceID \<mapsto> sess)\<rparr>)"

definition Remove :: "string \<Rightarrow> sess_ptr \<Rightarrow> Registry \<Rightarrow> Registry" where
  "Remove deviceID sess r =
     (case reg_sessions r deviceID of
        Some cur \<Rightarrow> if cur = sess then r\<lparr>reg_sessions := (reg_sessions r)(deviceID := None)\<rparr> else r
      | None \<Rightarrow> r)"

definition Get :: "string \<Rightarrow> Registry \<Rightarrow> sess_ptr \<times> bool" where
  "Get deviceID r = (case reg_sessions r deviceID of Some s \<Rightarrow> (s, True) | None \<Rightarrow> (NilSess, False))"

text \<open>The sessions that \<open>CloseAll\<close> copied are closed one by one, while others may act.\<close>

definition CloseAll_copy :: "string list \<Rightarrow> Registry \<Rightarrow> sess_ptr list" where
  "CloseAll_copy ids r = List.map_filter (reg_sessions r) ids"

fun CloseAll_close :: "sess_ptr list \<Rightarrow> Registry \<Rightarrow> Registry" where
  "CloseAll_close [] r = r"
| "CloseAll_close (s # ss) r = CloseAll_close ss (sess_Close s r)"

definition CloseAll :: "string list \<Rightarrow> Registry \<Rightarrow> Registry" where
  "CloseAll ids r = CloseAll_close (CloseAll_copy ids r) r"

definition trySession :: "string \<Rightarrow> Registry \<Rightarrow> (sess_ptr \<times> string) option" where
  "trySession wantID r = (case reg_sessions r wantID of None \<Rightarrow> None | Some s \<Rightarrow> Some (s, wantID))"

text \<open>
  What the \<open>select\<close> of \<open>WaitSession\<close> receives after an unsuccessful poll: the cancellation, or a
  tick, after which the registry is in the given state. The result is \<open>None\<close> while it waits.
\<close>

datatype wait_event = WaitCancelled | WaitTick Registry

datatype wait_error = EmptyDeviceID | WaitCtxErr

fun wait_loop :: "string \<Rightarrow> Registry \<Rightarrow> wait_event list \<Rightarrow> (wait_error + sess_ptr \<times> string) option" where
  "wait_loop wantID r evs =
     (case trySession wantID r of
        Some res \<Rightarrow> Some (Inr res)
      | None \<Rightarrow>
          (case evs of
             [] \<Rightarrow> None
           | WaitCancelled # evs \<Rightarrow> Some (Inl WaitCtxErr)
           | WaitTick r # evs \<Rightarrow> wait_loop wantID r evs))"

definition WaitSession :: "string \<Rightarrow> Registry \<Rightarrow> wait_event list \<Rightarrow> (wait_error + sess_ptr \<times> string) option" where
  "WaitSession wantID r evs =
     (let wantID = TrimSpace wantID in
      if wantID = '''' then Some (Inl EmptyDeviceID) else wait_loop wantID r evs)"

subsection \<open>Histories\<close>

text \<open>
  What device goroutines do to the registry; \<open>CallClose\<close> is the closing of one session that
  \<open>CloseAll\<close> copied, or of a session by its own goroutine.
\<close>

datatype reg_call = CallPut string nat | CallRemove string nat | CallCloseSess nat

fun reg_exec :: "reg_call \<Rightarrow> Registry \<Rightarrow> Registry" where
  "reg_exec (CallPut d s) r = Put d (Sess s) r"
| "reg_exec (CallRemove d s) r = Remove d (Sess s) r"
| "reg_exec (CallCloseSess s) r = sess_Close (Sess s) r"

definition reg_step :: "Registry \<Rightarrow> reg_call \<Rightarrow> Registry \<Rightarrow> bool" where
  "reg_step r c r' \<longleftrightarrow> r' = reg_exec c r"

lemma reg_sessions_sess_Close [simp]: "reg_sessions (sess_Close s r) = reg_sessions r"
  by (cases s) auto

lemma reg_sessions_Put [simp]: "reg_sessions (Put d s r) = (reg_sessions r)(d \<mapsto> s)"
  by (simp add: Put_def Let_def split: option.split)

lemma reg_sessions_Remove:
  "reg_sessions (Remove d s r) d' =
     (if d' = d \<and> reg_sessions r d = Some s then None else reg_sessions r d')"
  by (simp add: Remove_def split: option.split)

lemma reg_closed_mono: "reg_closed r \<subseteq> reg_closed (reg_exec c r)"
proof (cases c)
  case (CallPut d s)
  then show ?thesis
    by (cases "reg_sessions r d"; cases "the (reg_sessions r d)") (auto simp: Put_def Let_def)
next
  case (CallRemove d s)
  then show ?thesis by (auto simp: Remove_def split: option.split)
qed auto

lemma Put_closes: "reg_sessions r d = Some (Sess s) \<Longrightarrow> s \<in> reg_closed (Put d s' r)"
  by (simp add: Put_def Let_def)

text \<open>The finitely many devices, all with real sessions.\<close>

definition reg_inv :: "Registry \<Rightarrow> bool" where
  "reg_inv r \<longleftrightarrow> finite (dom (reg_sessions r)) \<and> NilSess \<notin> ran (reg_sessions r)"

lemma reg_inv_New: "reg_inv NewRegistry"
  by (simp add: reg_inv_def NewRegistry_def)

lemma reg_inv_step: "reg_inv r \<Longrightarrow> reg_step r c r' \<Longrightarrow> reg_inv r'"
proof -
  assume inv: "reg_inv r" and st: "reg_step r c r'"
  then have r': "r' = reg_exec c r" by (simp add: reg_step_def)
  show "reg_inv r'"
  proof (cases c)
    case (CallPut d s)
    then show ?thesis using inv by (auto simp: r' reg_inv_def ran_def split: if_splits)
  next
    case (CallRemove d s)
    then have "dom (reg_sessions r') \<subseteq> dom (reg_sessions r)" "ran (reg_sessions r') \<subseteq> ran (reg_sessions r)"
      by (auto simp: r' reg_sessions_Remove dom_def ran_def split: if_splits)
    then show ?thesis using inv finite_subset by (auto simp: reg_inv_def)
  next
    case (CallCloseSess s)
    then show ?thesis using inv by (simp add: r' reg_inv_def)
  qed
qed

interpretation registry: step_system "\<lambda>r. r = NewRegistry" reg_step reg_inv
  by unfold_locales (auto simp: reg_inv_New intro: reg_inv_step)

interpretation registered: keeping_system "\<lambda>r. r = NewRegistry" reg_step reg_inv
    "\<lambda>c. (\<forall>s'. c \<noteq> CallPut d s') \<and> c \<noteq> CallRemove d s" "\<lambda>r. reg_sessions r d = Some (Sess s)" for d s
proof unfold_locales
  fix r c r'
  assume "reg_sessions r d = Some (Sess s)" "(\<forall>s'. c \<noteq> CallPut d s') \<and> c \<noteq> CallRemove d s" "reg_step r c r'"
  then show "reg_sessions r' d = Some (Sess s)"
    by (cases c) (auto simp: reg_step_def reg_sessions_Remove)
qed

interpretation closed: keeping_system "\<lambda>r. r = NewRegistry" reg_step reg_inv
    "\<lambda>c. True" "\<lambda>r. s \<in> reg_closed r" for s
  using reg_closed_mono by unfold_locales (auto simp: reg_step_def)

interpretation accounted: keeping_system "\<lambda>r. r = NewRegistry" reg_step reg_inv
    "\<lambda>c. c \<noteq> CallRemove d s" "\<lambda>r. reg_sessions r d = Some (Sess s) \<or> s \<in> reg_closed r" for d s
proof unfold_locales
  fix r c r'
  assume A: "reg_sessions r d = Some (Sess s) \<or> s \<in> reg_closed r" "c \<noteq> CallRemove d s" "reg_step r c r'"
  show "reg_sessions r' d = Some (Sess s) \<or> s \<in> reg_closed r'"
  proof (cases "s \<in> reg_closed r")
    case True
    then show ?thesis using A(3) reg_closed_mono by (auto simp: reg_step_def)
  next
    case False
    then show ?thesis
      using A Put_closes by (cases c) (auto simp: reg_step_def reg_sessions_Remove)
  qed
qed

subsection \<open>Waiting for a session\<close>

text \<open>The states of the registry that the polls meet before the cancellation.\<close>

fun polls :: "Registry \<Rightarrow> wait_event list \<Rightarrow> Registry list" where
  "polls r [] = [r]"
| "polls r (WaitCancelled # evs) = [r]"
| "polls r (WaitTick r' # evs) = r # polls r' evs"

lemma wait_loop_polls:
  "wait_loop d r evs =
     (case filter (\<lambda>r. reg_sessions r d \<noteq> None) (polls r evs) of
        q # qs \<Rightarrow> Some (Inr (the (reg_sessions q d), d))
      | [] \<Rightarrow> if WaitCancelled \<in> set evs then Some (Inl WaitCtxErr) else None)"
  by (induction r evs rule: polls.induct) (auto simp: trySession_def split: option.splits)

lemma wait_loop_found:
  assumes "wait_loop d r evs = Some (Inr (s, d'))"
  shows "d' = d \<and> (\<exists>q \<in> set (polls r evs). reg_sessions q d = Some s)"
proof -
  obtain q qs where q: "filter (\<lambda>r. reg_sessions r d \<noteq> None) (polls r evs) = q # qs"
    using assms unfolding wait_loop_polls by (auto split: list.splits if_splits)
  then have "q \<in> set (filter (\<lambda>r. reg_sessions r d \<noteq> None) (polls r evs))" by simp
  then obtain x where "q \<in> set (polls r evs)" "reg_sessions q d = Some x" by auto
  then show ?thesis using assms unfolding wait_loop_polls q by auto
qed

subsection \<open>What the registry promises\<close>

lemma history_reg_inv: "run reg_step NewRegistry calls r \<Longrightarrow> reg_inv r"
  by (rule registry.history_inv) simp

text \<open>
  C8. The last registration wins: after a device registers session \<open>s\<close>, lookups return \<open>s\<close>
  whatever else happens to other devices and however often older sessions are removed late, until
  the device registers again or \<open>s\<close> itself is removed; the session it replaced is closed. And no
  session is ever lost: one that was registered and not removed is current or has been closed.
\<close>

theorem last_registration_wins:
  assumes "run reg_step NewRegistry before r" "run reg_step (Put d (Sess s) r) later r'"
    and "\<And>s'. CallPut d s' \<notin> set later" "CallRemove d s \<notin> set later"
  shows "Get d r' = (Sess s, True) \<and>
    (\<forall>old. reg_sessions r d = Some (Sess old) \<longrightarrow> old \<in> reg_closed r') \<and>
    (\<forall>e q. CallPut e q \<in> set before \<and> CallRemove e q \<notin> set before \<longrightarrow>
       reg_sessions r e = Some (Sess q) \<or> q \<in> reg_closed r)"
proof (intro conjI allI impI)
  have inv: "reg_inv r" by (rule history_reg_inv[OF assms(1)])
  have inv': "reg_inv (Put d (Sess s) r)"
    by (rule reg_inv_step[OF inv, of "CallPut d s"]) (simp add: reg_step_def)
  have "reg_sessions r' d = Some (Sess s)"
    by (rule registered.run_keeps[OF assms(2) inv']) (use assms(3,4) in auto)
  then show "Get d r' = (Sess s, True)" by (simp add: Get_def)
  show "old \<in> reg_closed r'" if "reg_sessions r d = Some (Sess old)" for old
    by (rule closed.run_keeps[OF assms(2) inv' Put_closes[OF that]]) simp
next
  fix e q assume q: "CallPut e q \<in> set before \<and> CallRemove e q \<notin> set before"
  then obtain xs ys where xs: "before = xs @ CallPut e q # ys" by (meson split_list)
  then obtain m where m: "run reg_step NewRegistry xs m" "run reg_step (Put e (Sess q) m) ys r"
    using assms(1) by (auto simp: run_append reg_step_def)
  have inv: "reg_inv (Put e (Sess q) m)"
    by (rule reg_inv_step[OF history_reg_inv[OF m(1)], of "CallPut e q"]) (simp add: reg_step_def)
  show "reg_sessions r e = Some (Sess q) \<or> q \<in> reg_closed r"
    by (rule accounted.run_keeps[OF m(2) inv]) (use q xs in auto)
qed

theorem last_registration_wins_witness:
  "Get ''d1'' (Remove ''d1'' (Sess 1) (Put ''d1'' (Sess 2) (Put ''d1'' (Sess 1) NewRegistry))) = (Sess 2, True)"
  using last_registration_wins[of "[CallPut ''d1'' 1]" "Put ''d1'' (Sess 1) NewRegistry" "''d1''" 2
      "[CallRemove ''d1'' 1]" "Remove ''d1'' (Sess 1) (Put ''d1'' (Sess 2) (Put ''d1'' (Sess 1) NewRegistry))"]
  by (simp add: reg_step_def)

text \<open>
  Which device a SOCKS connection goes to: the non-blank username; without one the only device
  online; otherwise an error that lists all devices in ascending order, whatever the map order.
\<close>

theorem ResolveDeviceForDial_correct:
  assumes "enumerates ids (reg_sessions r)"
  shows "ResolveDeviceForDial ids u r =
    (if TrimSpace u \<noteq> '''' then Inr (TrimSpace u)
     else if OnlineSet r = {} then Inl NoDeviceOnline
     else if (\<exists>d. OnlineSet r = {d}) then Inr (the_elem (OnlineSet r))
     else Inl (MultipleDevices (sorted_list_of_set (OnlineSet r))))"
proof -
  have len: "length ids = map_len (reg_sessions r)" by (rule enumerates_len[OF assms])
  have ids: "set ids = OnlineSet r" "distinct ids" using assms by (auto simp: enumerates_def OnlineSet_def)
  have zero: "map_len (reg_sessions r) = 0 \<longleftrightarrow> OnlineSet r = {}"
    using ids unfolding len[symmetric] by (metis length_0_conv set_empty)
  have one: "map_len (reg_sessions r) = 1 \<longleftrightarrow> (\<exists>d. OnlineSet r = {d})"
    using ids unfolding len[symmetric] by (metis One_nat_def card_1_singleton_iff distinct_card)
  have hd: "hd ids = the_elem (OnlineSet r)" if "OnlineSet r = {d}" for d
  proof -
    have "length ids = 1" using len one that by metis
    then obtain x where "ids = [x]" by (cases ids) auto
    then show ?thesis unfolding ids(1)[symmetric] by simp
  qed
  have sorted: "SortStrings ids = sorted_list_of_set (OnlineSet r)"
    by (simp add: SortStrings_keys[OF assms] OnlineSet_def)
  show ?thesis
    unfolding ResolveDeviceForDial_def Let_def zero one sorted
    by (intro if_cong refl arg_cong[of _ _ Inr]) (use hd in blast)
qed

theorem ResolveDeviceForDial_correct_witness:
  "ResolveDeviceForDial [''d7''] '''' (Put ''d7'' (Sess 0) NewRegistry) = Inr ''d7''"
  using ResolveDeviceForDial_correct[of "[''d7'']" "Put ''d7'' (Sess 0) NewRegistry" "''''"]
  by (simp add: enumerates_def OnlineSet_def NewRegistry_def)

end
