(* ===== verification/Protocol.thy ===== *)
theory Protocol
  imports Go_Float
begin

text \<open>
  \<open>common/protocol/envelope.go\<close> and \<open>common/protocol/heartbeat/event.go\<close>: the messages between
  server, devices and admin. On the control and connect streams every message is one line of JSON;
  \<open>encoding/json\<close> is a pair of arguments. A stream that is read is the text that arrives before it
  ends; a reader returns the rest. A writer is a function that appends or fails.
\<close>

record Envelope =
  env_Type :: string
  env_ID :: string
  env_DeviceID :: string
  env_OK :: bool
  env_Message :: string
  env_Network :: string
  env_Address :: string
  env_Ts :: int
  env_CurTs :: int
  env_AvgRTT :: "int option"
  env_NetType :: string
  env_LossRate :: "f64 option"

text \<open>The zero value, which the composite literals of the code extend.\<close>

definition zero_Envelope :: Envelope where
  "zero_Envelope = \<lparr>env_Type = '''', env_ID = '''', env_DeviceID = '''', env_OK = False, env_Message = '''',
     env_Network = '''', env_Address = '''', env_Ts = 0, env_CurTs = 0, env_AvgRTT = None,
     env_NetType = '''', env_LossRate = None\<rparr>"

definition TypeRegister :: string where "TypeRegister = ''register''"
definition TypeRegisterAck :: string where "TypeRegisterAck = ''register_ack''"
definition TypeHeartbeat :: string where "TypeHeartbeat = ''heartbeat''"
definition TypeHeartbeatAck :: string where "TypeHeartbeatAck = ''heartbeat_ack''"
definition TypeConnect :: string where "TypeConnect = ''connect''"
definition TypeConnectResult :: string where "TypeConnectResult = ''connect_result''"

named_theorems envelope_types "the message types"

lemmas message_types [envelope_types] =
  TypeRegister_def TypeRegisterAck_def TypeHeartbeat_def TypeHeartbeatAck_def TypeConnect_def
  TypeConnectResult_def

subsection \<open>Lines\<close>

abbreviation newline :: char where "newline \<equiv> CHR 0x0A"

datatype 'e line_io_error = LineMarshal 'e | LineWrite | LineEOF | LineJSON 'e

text \<open>\<open>bufio.Reader.ReadBytes\<close>: the text up to and including the delimiter, and the rest.\<close>

fun ReadBytes :: "char \<Rightarrow> string \<Rightarrow> (string \<times> string) option" where
  "ReadBytes d [] = None"
| "ReadBytes d (c # cs) =
     (if c = d then Some ([c], cs)
      else case ReadBytes d cs of None \<Rightarrow> None | Some (l, r) \<Rightarrow> Some (c # l, r))"

type_synonym 'e marshal_fun = "Envelope \<Rightarrow> 'e + string"
type_synonym 'e unmarshal_fun = "string \<Rightarrow> 'e + Envelope"

definition WriteLine ::
    "'e marshal_fun \<Rightarrow> (string \<Rightarrow> 'w \<Rightarrow> bool \<times> 'w) \<Rightarrow> Envelope \<Rightarrow> 'w \<Rightarrow> 'e line_io_error option \<times> 'w" where
  "WriteLine marshal wr v w =
     (case marshal v of
        Inl e \<Rightarrow> (Some (LineMarshal e), w)
      | Inr b \<Rightarrow>
          (case wr (b @ [newline]) w of
             (False, w) \<Rightarrow> (Some LineWrite, w)
           | (True, w) \<Rightarrow> (None, w)))"

definition ReadLine :: "'e unmarshal_fun \<Rightarrow> string \<Rightarrow> ('e line_io_error + Envelope) \<times> string" where
  "ReadLine unmarshal r =
     (case ReadBytes newline r of
        None \<Rightarrow> (Inl LineEOF, [])
      | Some (line, r) \<Rightarrow>
          if length line = 0 then (Inl LineEOF, r)
          else let line = (if last line = newline then butlast line else line)
               in (case unmarshal line of Inl e \<Rightarrow> (Inl (LineJSON e), r) | Inr env \<Rightarrow> (Inr env, r)))"

lemma ReadBytes_line: "newline \<notin> set l \<Longrightarrow> ReadBytes newline (l @ newline # r) = Some (l @ [newline], r)"
  by (induction l) auto

lemma ReadBytes_None: "newline \<notin> set r \<longleftrightarrow> ReadBytes newline r = None"
  by (induction r) (auto split: option.splits)

lemma ReadBytes_Some: "ReadBytes newline s = Some (l, r) \<Longrightarrow> s = l @ r \<and> l \<noteq> [] \<and> last l = newline"
proof (induction s arbitrary: l)
  case (Cons c cs)
  then show ?case by (auto split: if_splits option.splits)
qed simp

lemma ReadLine_line:
  "newline \<notin> set l \<Longrightarrow>
   ReadLine unmarshal (l @ newline # r) = ((case unmarshal l of Inl e \<Rightarrow> Inl (LineJSON e) | Inr v \<Rightarrow> Inr v), r)"
  by (simp add: ReadLine_def ReadBytes_line split: sum.split)

text \<open>
  What a codec promises for a message: it encodes, in one line, and decodes to itself.
\<close>

definition codec_ok :: "'e marshal_fun \<Rightarrow> 'e unmarshal_fun \<Rightarrow> Envelope \<Rightarrow> bool" where
  "codec_ok marshal unmarshal v \<longleftrightarrow>
     (case marshal v of Inl e \<Rightarrow> False | Inr b \<Rightarrow> newline \<notin> set b \<and> unmarshal b = Inr v)"

lemma codec_okE:
  assumes "codec_ok marshal unmarshal v"
  obtains b where "marshal v = Inr b" "newline \<notin> set b" "unmarshal b = Inr v"
  using assms by (auto simp: codec_ok_def split: sum.splits)

text \<open>The plain text writer: it accepts everything and keeps it.\<close>

definition append_out :: "string \<Rightarrow> string \<Rightarrow> bool \<times> string" where
  "append_out s w = (True, w @ s)"

fun write_all :: "'e marshal_fun \<Rightarrow> Envelope list \<Rightarrow> string \<Rightarrow> 'e line_io_error option \<times> string" where
  "write_all marshal [] w = (None, w)"
| "write_all marshal (v # vs) w =
     (case WriteLine marshal append_out v w of
        (Some e, w) \<Rightarrow> (Some e, w)
      | (None, w) \<Rightarrow> write_all marshal vs w)"

fun read_all :: "'e unmarshal_fun \<Rightarrow> nat \<Rightarrow> string \<Rightarrow> ('e line_io_error + Envelope) list \<times> string" where
  "read_all unmarshal 0 r = ([], r)"
| "read_all unmarshal (Suc n) r =
     (case ReadLine unmarshal r of (v, r) \<Rightarrow>
        (case read_all unmarshal n r of (vs, r) \<Rightarrow> (v # vs, r)))"

lemma WriteLine_append:
  assumes "codec_ok marshal unmarshal v"
  obtains b where "WriteLine marshal append_out v w = (None, w @ b @ [newline])"
    "newline \<notin> set b" "unmarshal b = Inr v"
  using codec_okE[OF assms] by (metis (no_types, lifting) WriteLine_def append_out_def case_prod_conv sum.case(2) bool.case(1))

lemma write_all_text:
  assumes "\<And>v. v \<in> set vs \<Longrightarrow> codec_ok marshal unmarshal v"
  shows "\<exists>bs. write_all marshal vs w = (None, w @ concat (map (\<lambda>b. b @ [newline]) bs)) \<and>
    list_all2 (\<lambda>b v. newline \<notin> set b \<and> unmarshal b = Inr v) bs vs"
  using assms
proof (induction vs arbitrary: w)
  case Nil
  then show ?case by simp
next
  case (Cons v vs)
  have "codec_ok marshal unmarshal v" using Cons.prems by simp
  from WriteLine_append[OF this, of w] obtain b where
    b: "WriteLine marshal append_out v w = (None, w @ b @ [newline])" "newline \<notin> set b" "unmarshal b = Inr v"
    by blast
  have "\<And>x. x \<in> set vs \<Longrightarrow> codec_ok marshal unmarshal x" using Cons.prems by simp
  from Cons.IH[OF this, of "w @ b @ [newline]"] obtain bs where
    "write_all marshal vs (w @ b @ [newline]) =
       (None, (w @ b @ [newline]) @ concat (map (\<lambda>b. b @ [newline]) bs))"
    "list_all2 (\<lambda>b v. newline \<notin> set b \<and> unmarshal b = Inr v) bs vs" by blast
  with b show ?case by (intro exI[of _ "b # bs"]) simp
qed

lemma read_all_text:
  "list_all2 (\<lambda>b v. newline \<notin> set b \<and> unmarshal b = Inr v) bs vs \<Longrightarrow>
   read_all unmarshal (length vs) (concat (map (\<lambda>b. b @ [newline]) bs) @ rest) = (map Inr vs, rest)"
  by (induction bs vs rule: list_all2_induct) (simp_all add: ReadLine_line)

text \<open>
  Messages written to a stream one after the other are read back one by one, in order, and what
  follows them on the stream is left for the next reader, when the JSON codec maps each of them to
  one line and back.
\<close>

theorem envelopes_survive:
  assumes "\<And>v. v \<in> set vs \<Longrightarrow> codec_ok marshal unmarshal v"
  shows "fst (write_all marshal vs '''') = None \<and>
    read_all unmarshal (length vs) (snd (write_all marshal vs '''') @ rest) = (map Inr vs, rest)"
  using write_all_text[of vs marshal unmarshal "''''", OF assms] read_all_text by fastforce

text \<open>A codec for the registration messages, with the text that \<open>encoding/json\<close> gives them.\<close>

definition demo_register :: Envelope where
  "demo_register = zero_Envelope\<lparr>env_Type := TypeRegister, env_DeviceID := ''dev-1''\<rparr>"

definition demo_ack :: Envelope where
  "demo_ack = zero_Envelope\<lparr>env_Type := TypeRegisterAck, env_OK := True\<rparr>"

definition demo_marshal :: "unit marshal_fun" where
  "demo_marshal v =
     (if v = demo_register then Inr ''{\"type\":\"register\",\"device_id\":\"dev-1\"}''
      else if v = demo_ack then Inr ''{\"type\":\"register_ack\",\"ok\":true}'' else Inl ())"

definition demo_unmarshal :: "unit unmarshal_fun" where
  "demo_unmarshal s =
     (if s = ''{\"type\":\"register\",\"device_id\":\"dev-1\"}'' then Inr demo_register
      else if s = ''{\"type\":\"register_ack\",\"ok\":true}'' then Inr demo_ack else Inl ())"

lemma demo_distinct: "demo_ack \<noteq> demo_register"
  by (simp add: demo_ack_def demo_register_def zero_Envelope_def envelope_types)

lemma demo_codec: "codec_ok demo_marshal demo_unmarshal demo_register"
    "codec_ok demo_marshal demo_unmarshal demo_ack"
  by (simp_all add: codec_ok_def demo_marshal_def demo_unmarshal_def demo_distinct)

theorem envelopes_survive_witness:
  "read_all demo_unmarshal 2 (snd (write_all demo_marshal [demo_register, demo_ack] '''') @ ''x'') =
     ([Inr demo_register, Inr demo_ack], ''x'')"
  using envelopes_survive[of "[demo_register, demo_ack]" demo_marshal demo_unmarshal "''x''"] demo_codec
  by (auto simp: numeral_2_eq_2)

subsection \<open>Heartbeat events\<close>

record Geo =
  geo_Country :: string
  geo_CountryName :: string
  geo_Region :: string
  geo_RegionCode :: string
  geo_City :: string

definition zero_Geo :: Geo where
  "zero_Geo = \<lparr>geo_Country = '''', geo_CountryName = '''', geo_Region = '''', geo_RegionCode = '''', geo_City = ''''\<rparr>"

record Event =
  evt_DeviceID :: string
  evt_RemoteIP :: string
  evt_NetType :: string
  evt_CurTsMs :: int
  evt_ServerRecvMs :: int
  evt_AvgRTTms :: "int option"
  evt_LossRate :: "f64 option"
  evt_Geo :: Geo

definition heartbeat_Topic :: string where "heartbeat_Topic = ''device.heartbeat''"

definition Geo_IsZero :: "Geo \<Rightarrow> bool" where
  "Geo_IsZero g \<longleftrightarrow> g = zero_Geo"

text \<open>\<open>enc\<close> and \<open>dec\<close> are \<open>encoding/json\<close> on the alias type, which has no methods.\<close>

definition Geo_MarshalJSON :: "(Geo \<Rightarrow> 'e + string) \<Rightarrow> Geo \<Rightarrow> 'e + string" where
  "Geo_MarshalJSON enc g = (if Geo_IsZero g then Inr ''null'' else enc g)"

definition Geo_UnmarshalJSON :: "(string \<Rightarrow> 'e + Geo) \<Rightarrow> string \<Rightarrow> 'e + Geo" where
  "Geo_UnmarshalJSON dec b =
     (let s = TrimSpace b in if s = '''' \<or> s = ''null'' then Inr zero_Geo else dec b)"

lemma trimmed_null: "trimmed ''null''"
  by code_simp

lemma Geo_roundtrip:
  assumes "enc g = Inr b" "dec b = Inr g" "TrimSpace b \<noteq> ''''" "TrimSpace b \<noteq> ''null''"
  shows "\<exists>b'. Geo_MarshalJSON enc g = Inr b' \<and> Geo_UnmarshalJSON dec b' = Inr g"
  using assms by (auto simp: Geo_MarshalJSON_def Geo_UnmarshalJSON_def Geo_IsZero_def Let_def trimmed_null)

end
