(* ===== verification/Go_Encoding.thy ===== *)
theory Go_Encoding
  imports Go_Net
begin

text \<open>
  Go's \<open>encoding/hex\<close> and \<open>encoding/base64\<close> (\<open>StdEncoding\<close>), as the program uses them. Encoders are
  total; a decoder returns \<open>None\<close> where Go returns an error. Base64 decoding ignores CR and LF, wants
  the padding and nothing after it, and does not check the unused bits of the last group.
\<close>

subsection \<open>Digits\<close>

definition nth_char :: "string \<Rightarrow> nat \<Rightarrow> char" where
  "nth_char alphabet n = alphabet ! n"

fun index_of :: "nat \<Rightarrow> string \<Rightarrow> char \<Rightarrow> nat option" where
  "index_of n [] c = None"
| "index_of n (x # xs) c = (if x = c then Some n else index_of (Suc n) xs c)"

lemma index_of_nth: "distinct xs \<Longrightarrow> i < length xs \<Longrightarrow> index_of n xs (xs ! i) = Some (n + i)"
proof (induction xs arbitrary: n i)
  case (Cons x xs)
  then show ?case by (cases i) (auto simp: nth_Cons')
qed simp

definition hex_digits :: string where
  "hex_digits = ''0123456789abcdef''"

definition b64_digits :: string where
  "b64_digits = ''ABCDEFGHIJKLMNOPQRSTUVWXYZabcdefghijklmnopqrstuvwxyz0123456789+/''"

lemma digits_distinct: "distinct hex_digits" "distinct b64_digits"
  "length hex_digits = 16" "length b64_digits = 64"
  by code_simp+

subsection \<open>Hexadecimal\<close>

definition byte_of :: "nat \<Rightarrow> byte" where
  "byte_of n = of_nat n"

lemma byte_of_unat [simp]: "byte_of (unat b) = b"
  by (simp add: byte_of_def)

lemma unat_byte_of: "n < 256 \<Longrightarrow> unat (byte_of n) = n"
  by (simp add: byte_of_def unsigned_of_nat take_bit_eq_mod)

fun hex_encode :: "byte list \<Rightarrow> string" where
  "hex_encode [] = ''''"
| "hex_encode (b # bs) = hex_digits ! (unat b div 16) # hex_digits ! (unat b mod 16) # hex_encode bs"

definition hex_val :: "char \<Rightarrow> nat option" where
  "hex_val c = index_of 0 hex_digits (to_lower c)"

fun hex_decode :: "string \<Rightarrow> byte list option" where
  "hex_decode [] = Some []"
| "hex_decode [c] = None"
| "hex_decode (c # d # cs) =
     (case (hex_val c, hex_val d, hex_decode cs) of
        (Some x, Some y, Some bs) \<Rightarrow> Some (byte_of (16 * x + y) # bs)
      | _ \<Rightarrow> None)"

lemma to_lower_hex: "list_all (\<lambda>c. to_lower c = c) hex_digits"
  by code_simp

lemma hex_val_digit: "n < 16 \<Longrightarrow> hex_val (hex_digits ! n) = Some n"
  using to_lower_hex index_of_nth[of hex_digits n 0] digits_distinct
  by (simp add: hex_val_def list_all_length)

lemma hex_roundtrip: "hex_decode (hex_encode bs) = Some bs"
proof (induction bs)
  case (Cons b bs)
  have "unat b div 16 < 16" "unat b mod 16 < 16" by (simp_all add: less_mult_imp_div_less)
  then show ?case using Cons by (simp add: hex_val_digit)
qed simp

lemma length_hex_encode [simp]: "length (hex_encode bs) = 2 * length bs"
  by (induction bs) simp_all

subsection \<open>Base64\<close>

fun b64_encode :: "byte list \<Rightarrow> string" where
  "b64_encode [] = ''''"
| "b64_encode [a] =
     (let v = 16 * unat a in [b64_digits ! (v div 64), b64_digits ! (v mod 64), CHR ''='', CHR ''=''])"
| "b64_encode [a, b] =
     (let v = 1024 * unat a + 4 * unat b in
      [b64_digits ! (v div 4096), b64_digits ! (v div 64 mod 64), b64_digits ! (v mod 64), CHR ''=''])"
| "b64_encode (a # b # c # bs) =
     (let v = 65536 * unat a + 256 * unat b + unat c in
      b64_digits ! (v div 262144) # b64_digits ! (v div 4096 mod 64) # b64_digits ! (v div 64 mod 64) #
      b64_digits ! (v mod 64) # b64_encode bs)"

definition b64_val :: "char \<Rightarrow> nat option" where
  "b64_val c = index_of 0 b64_digits c"

fun b64_quanta :: "string \<Rightarrow> byte list option" where
  "b64_quanta [] = Some []"
| "b64_quanta (p # q # r # s # cs) =
     (case (b64_val p, b64_val q) of
        (Some x, Some y) \<Rightarrow>
          if r = CHR ''='' then
            (if s = CHR ''='' \<and> cs = [] then Some [byte_of ((64 * x + y) div 16)] else None)
          else if s = CHR ''='' then
            (case b64_val r of
               Some z \<Rightarrow>
                 if cs = [] then
                   (let v = 4096 * x + 64 * y + z in Some [byte_of (v div 1024), byte_of (v div 4 mod 256)])
                 else None
             | None \<Rightarrow> None)
          else
            (case (b64_val r, b64_val s, b64_quanta cs) of
               (Some z, Some w, Some bs) \<Rightarrow>
                 (let v = 262144 * x + 4096 * y + 64 * z + w in
                  Some (byte_of (v div 65536) # byte_of (v div 256 mod 256) # byte_of (v mod 256) # bs))
             | _ \<Rightarrow> None)
      | _ \<Rightarrow> None)"
| "b64_quanta _ = None"

definition b64_decode :: "string \<Rightarrow> byte list option" where
  "b64_decode s = b64_quanta (filter (\<lambda>c. c \<noteq> CHR 0x0A \<and> c \<noteq> CHR 0x0D) s)"

lemma b64_val_digit: "n < 64 \<Longrightarrow> b64_val (b64_digits ! n) = Some n"
  using index_of_nth[of b64_digits n 0] digits_distinct by (simp add: b64_val_def)

lemma b64_alphabet: "list_all (\<lambda>c. c \<noteq> CHR ''='' \<and> c \<noteq> CHR 0x0A \<and> c \<noteq> CHR 0x0D) b64_digits"
  by code_simp

lemma b64_digit: "n < 64 \<Longrightarrow> b64_digits ! n \<noteq> CHR ''='' \<and> b64_digits ! n \<noteq> CHR 0x0A \<and> b64_digits ! n \<noteq> CHR 0x0D"
  using b64_alphabet digits_distinct by (simp add: list_all_length)

lemma b64_split:
  fixes v :: nat
  shows "262144 * (v div 262144) + 4096 * (v div 4096 mod 64) + 64 * (v div 64 mod 64) + v mod 64 = v"
    and "4096 * (v div 4096) + 64 * (v div 64 mod 64) + v mod 64 = v"
    and "64 * (v div 64) + v mod 64 = v"
proof -
  have a: "v = 64 * (v div 64) + v mod 64" by simp
  have b: "v div 64 = 64 * (v div 64 div 64) + v div 64 mod 64" by simp
  have c: "v div 64 div 64 = 64 * (v div 64 div 64 div 64) + v div 64 div 64 mod 64" by simp
  have e: "v div 4096 = v div 64 div 64" "v div 262144 = v div 64 div 64 div 64" by (simp_all add: div_mult2_eq[symmetric])
  show "64 * (v div 64) + v mod 64 = v" by simp
  show "4096 * (v div 4096) + 64 * (v div 64 mod 64) + v mod 64 = v" unfolding e using a b by linarith
  show "262144 * (v div 262144) + 4096 * (v div 4096 mod 64) + 64 * (v div 64 mod 64) + v mod 64 = v"
    unfolding e using a b c by linarith
qed

lemma b64_bytes:
  fixes a b c :: nat
  assumes "a < 256" "b < 256" "c < 256"
  shows "(65536 * a + 256 * b + c) div 65536 = a" "(65536 * a + 256 * b + c) div 256 mod 256 = b"
    "(65536 * a + 256 * b + c) mod 256 = c" "(1024 * a + 4 * b) div 1024 = a" "(1024 * a + 4 * b) div 4 mod 256 = b"
    "(65536 * a + 256 * b + c) div 262144 < 64" "(1024 * a + 4 * b) div 4096 < 64" "16 * a div 64 < 64"
proof -
  have e: "65536 * a + 256 * b + c = 65536 * a + (256 * b + c)" "65536 * a + 256 * b + c = 256 * (256 * a + b) + c"
    "1024 * a + 4 * b = 4 * (256 * a + b)" by simp_all
  have l: "256 * b + c < 65536" "4 * b < 1024" using assms by linarith+
  show "(65536 * a + 256 * b + c) div 65536 = a" unfolding e(1) using l(1) by (simp add: div_mult_self4)
  have "(256 * (256 * a + b) + c) div 256 = 256 * a + b" using assms(3) by (simp add: div_mult_self4)
  then show "(65536 * a + 256 * b + c) div 256 mod 256 = b" unfolding e(2) using assms(2) by simp
  have "(256 * (256 * a + b) + c) mod 256 = c"
    using assms(3) by (simp only: mod_mult_self4 mod_less)
  then show "(65536 * a + 256 * b + c) mod 256 = c" unfolding e(2) .
  show "(1024 * a + 4 * b) div 1024 = a" using l(2) by (simp add: div_mult_self4)
  have "4 * (256 * a + b) div 4 = 256 * a + b" by simp
  then show "(1024 * a + 4 * b) div 4 mod 256 = b" unfolding e(3) using assms(2) by simp
  show "(65536 * a + 256 * b + c) div 262144 < 64" "(1024 * a + 4 * b) div 4096 < 64" "16 * a div 64 < 64"
    by (rule less_mult_imp_div_less; use assms in linarith)+
qed

lemma b64_encode_clean: "\<forall>c \<in> set (b64_encode bs). c \<noteq> CHR 0x0A \<and> c \<noteq> CHR 0x0D"
proof (induction bs rule: b64_encode.induct)
  case (2 a)
  have "16 * unat a div 64 < 64" by (rule b64_bytes(8)[of _ 0 0]) simp_all
  then show ?case using b64_digit by (simp add: Let_def)
next
  case (3 a b)
  have "(1024 * unat a + 4 * unat b) div 4096 < 64" by (rule b64_bytes(7)[of _ _ 0]) simp_all
  then show ?case using b64_digit by (simp add: Let_def)
next
  case (4 a b c bs)
  have "(65536 * unat a + 256 * unat b + unat c) div 262144 < 64" by (rule b64_bytes(6)) simp_all
  then show ?case using b64_digit 4 by (simp add: Let_def)
qed simp

lemma b64_quanta_encode: "b64_quanta (b64_encode bs) = Some bs"
proof (induction bs rule: b64_encode.induct)
  case (2 a)
  define v where "v = 16 * unat a"
  have "v div 64 < 64" unfolding v_def by (rule b64_bytes(8)[of _ 0 0]) simp_all
  moreover have "byte_of (v div 16) = a" by (simp add: v_def)
  ultimately show ?case
    unfolding b64_encode.simps Let_def v_def[symmetric] by (simp add: b64_val_digit b64_split(3))
next
  case (3 a b)
  let ?v = "1024 * unat a + 4 * unat b"
  have "?v div 4096 < 64" by (rule b64_bytes(7)[of _ _ 0]) simp_all
  moreover have "?v div 1024 = unat a" "?v div 4 mod 256 = unat b"
    by (rule b64_bytes(4)[of _ _ 0] b64_bytes(5)[of _ _ 0]; simp)+
  ultimately show ?case
    using b64_digit[of "?v mod 64"] by (simp add: Let_def b64_val_digit b64_split(2))
next
  case (4 a b c bs)
  let ?v = "65536 * unat a + 256 * unat b + unat c"
  have "?v div 262144 < 64" by (rule b64_bytes(6)) simp_all
  moreover have "?v div 65536 = unat a" "?v div 256 mod 256 = unat b" "?v mod 256 = unat c"
    by (rule b64_bytes; simp)+
  ultimately show ?case
    using b64_digit[of "?v mod 64"] b64_digit[of "?v div 64 mod 64"] 4
    by (simp add: Let_def b64_val_digit b64_split(1))
qed simp

lemma b64_roundtrip: "b64_decode (b64_encode bs) = Some bs"
proof -
  have "filter (\<lambda>c. c \<noteq> CHR 0x0A \<and> c \<noteq> CHR 0x0D) (b64_encode bs) = b64_encode bs"
    using b64_encode_clean[of bs] by (simp add: filter_id_conv)
  then show ?thesis by (simp only: b64_decode_def b64_quanta_encode)
qed

lemma b64_encode_empty [simp]: "b64_encode bs = '''' \<longleftrightarrow> bs = []"
  by (cases bs rule: b64_encode.cases) (simp_all add: Let_def)

end
