(* ===== verification/Dial.thy ===== *)
theory Dial
  imports Protocol Registry Scheduler Credentials Go_Encoding
begin

text \<open>
  \<open>server/hub/dial.go\<close> and \<open>buildDialAndRequest\<close> of \<open>server/main.go\<close>: opening a connection to a
  target through a device. A yamux stream delivers its data in chunks, one per \<open>Read\<close>; the buffered
  reader of the handshake takes whole chunks, so the model keeps their boundaries. What the
  environment decides (polls of the registry, the new stream, random bytes, timeouts, the
  device's answer) is in a record.

  The lemmas state when a connection is returned, that every failure closes the stream and releases
  the lease, and which bytes of the target the client never sees.
\<close>

subsection \<open>The buffered reader of the handshake\<close>

text \<open>Chunks are read until a line is complete: the line, what is left in the buffer, the other chunks.\<close>

fun buf_read :: "string \<Rightarrow> string list \<Rightarrow> (string \<times> string \<times> string list) option" where
  "buf_read acc [] = (case ReadBytes newline acc of None \<Rightarrow> None | Some (l, r) \<Rightarrow> Some (l, r, []))"
| "buf_read acc (c # cs) =
     (case ReadBytes newline acc of Some (l, r) \<Rightarrow> Some (l, r, c # cs) | None \<Rightarrow> buf_read (acc @ c) cs)"

lemma buf_read_split: "buf_read acc cs = Some (l, r, cs') \<Longrightarrow> acc @ concat cs = l @ r @ concat cs'"
  by (induction acc cs rule: buf_read.induct) (auto split: option.splits dest: ReadBytes_Some)

lemma ReadBytes_first:
  assumes "ReadBytes newline s = Some (l, r)" "newline \<notin> set b" "s @ t = b @ newline # data"
  shows "l = b @ [newline]"
proof -
  have "newline \<in> set s" using assms(1) ReadBytes_None by force
  then have "length b < length s"
    using assms(2,3) by (auto simp: append_eq_append_conv2)
  then obtain us where "s = b @ us" "us \<noteq> []" "us @ t = newline # data"
    using assms(3) by (auto simp: append_eq_append_conv2)
  then obtain u where "s = b @ newline # u" by (cases us) auto
  then show ?thesis using assms(1,2) ReadBytes_line[of b u] by auto
qed

lemma buf_read_line:
  assumes "newline \<notin> set b" "acc @ concat cs = b @ newline # data"
  shows "\<exists>r cs'. buf_read acc cs = Some (b @ [newline], r, cs') \<and> data = r @ concat cs'"
  using assms(2)
proof (induction acc cs rule: buf_read.induct)
  case (1 acc)
  then show ?case using ReadBytes_line[OF assms(1), of data] by simp
next
  case (2 acc c cs)
  show ?case
  proof (cases "ReadBytes newline acc")
    case None
    then show ?thesis using 2 by simp
  next
    case (Some lr)
    obtain l r where lr: "lr = (l, r)" by fastforce
    have "l = b @ [newline]" using ReadBytes_first[of acc l r b "concat (c # cs)" data] Some lr assms(1) 2(2) by simp
    moreover have "acc = l @ r" using ReadBytes_Some Some lr by blast
    ultimately show ?thesis using Some lr 2(2) by auto
  qed
qed

subsection \<open>DialThroughDevice\<close>

text \<open>Eight random bytes, or the clock when there are none.\<close>

definition randomID :: "byte list option \<Rightarrow> nat \<Rightarrow> string" where
  "randomID rand nano = (case rand of None \<Rightarrow> Itoa nano | Some b \<Rightarrow> hex_encode b)"

text \<open>What the \<open>select\<close> of the handshake receives, and what comes after the answer.\<close>

datatype dial_select = SelCtxDone | SelReply "string list"

record dial_env =
  de_reg :: Registry
  de_waits :: "wait_event list"
  de_open :: "sess_ptr \<Rightarrow> bool"
  de_rand :: "byte list option"
  de_nano :: nat
  de_write :: bool
  de_select :: "dial_select option"   \<comment> \<open>\<open>None\<close> while it waits\<close>

text \<open>The returned stream: reads of it deliver these chunks.\<close>

record conn =
  conn_reads :: "string list"

datatype dial_effect = OpenedStream | SentLine Envelope | ClosedStream

datatype 'e dial_error =
    OnlyTCP string
  | NoDeviceSession wait_error
  | OpenStreamErr
  | ConnectWriteErr
  | ResultCtxErr
  | ResultReadErr "'e line_io_error"
  | UnexpectedConnectResult
  | DeviceRejected string

definition connect_request :: "string \<Rightarrow> string \<Rightarrow> string \<Rightarrow> Envelope" where
  "connect_request i network a =
     zero_Envelope\<lparr>env_Type := TypeConnect, env_ID := i, env_Network := network, env_Address := a\<rparr>"

definition connect_outcome :: "string \<Rightarrow> Envelope \<Rightarrow> 'e dial_error option" where
  "connect_outcome i env =
     (if env_Type env \<noteq> TypeConnectResult \<or> env_ID env \<noteq> i then Some UnexpectedConnectResult
      else if \<not> env_OK env then
        Some (DeviceRejected (if env_Message env = '''' then ''connect failed'' else env_Message env))
      else None)"

definition await_result ::
    "'e unmarshal_fun \<Rightarrow> string \<Rightarrow> dial_select option \<Rightarrow> ('e dial_error + conn) option \<times> dial_effect list" where
  "await_result unmarshal i sel =
     (case sel of
        None \<Rightarrow> (None, [])
      | Some SelCtxDone \<Rightarrow> (Some (Inl ResultCtxErr), [ClosedStream])
      | Some (SelReply chunks) \<Rightarrow>
          (case buf_read '''' chunks of
             None \<Rightarrow> (Some (Inl (ResultReadErr LineEOF)), [ClosedStream])
           | Some (line, buffered, later) \<Rightarrow>
               (case fst (ReadLine unmarshal line) of
                  Inl e \<Rightarrow> (Some (Inl (ResultReadErr e)), [ClosedStream])
                | Inr env \<Rightarrow>
                    (case connect_outcome i env of
                       Some e \<Rightarrow> (Some (Inl e), [ClosedStream])
                     | None \<Rightarrow> (Some (Inr \<lparr>conn_reads = later\<rparr>), [])))))"

definition DialThroughDevice ::
    "'e unmarshal_fun \<Rightarrow> dial_env \<Rightarrow> string \<Rightarrow> string \<Rightarrow> string \<Rightarrow> ('e dial_error + conn) option \<times> dial_effect list" where
  "DialThroughDevice unmarshal de target network a =
     (if network \<noteq> ''tcp'' \<and> network \<noteq> ''tcp4'' \<and> network \<noteq> ''tcp6'' then (Some (Inl (OnlyTCP network)), [])
      else case WaitSession target (de_reg de) (de_waits de) of
        None \<Rightarrow> (None, [])
      | Some (Inl e) \<Rightarrow> (Some (Inl (NoDeviceSession e)), [])
      | Some (Inr (sess, _)) \<Rightarrow>
          if \<not> de_open de sess then (Some (Inl OpenStreamErr), [])
          else let i = randomID (de_rand de) (de_nano de) in
            if \<not> de_write de then (Some (Inl ConnectWriteErr), [OpenedStream, ClosedStream])
            else (case await_result unmarshal i (de_select de) of
                    (res, effs) \<Rightarrow> (res, [OpenedStream, SentLine (connect_request i network a)] @ effs)))"

lemma DialThroughDevice_cases:
  assumes "DialThroughDevice unmarshal de target network a = (res, effs)"
  shows "effs = [] \<and> (res = None \<or> (\<exists>e. res = Some (Inl e))) \<or>
    effs = [OpenedStream, ClosedStream] \<and> res = Some (Inl ConnectWriteErr) \<or>
    (\<exists>i effs'. i = randomID (de_rand de) (de_nano de) \<and> effs = [OpenedStream, SentLine (connect_request i network a)] @ effs' \<and>
       await_result unmarshal i (de_select de) = (res, effs'))"
  using assms by (auto simp: DialThroughDevice_def Let_def split: if_splits option.splits sum.splits prod.splits)

lemma await_closes:
  "await_result unmarshal i sel = (res, effs) \<Longrightarrow> ClosedStream \<in> set effs \<longleftrightarrow> (\<exists>e. res = Some (Inl e))"
  by (auto simp: await_result_def split: option.splits dial_select.splits prod.splits sum.splits)

lemma await_conn:
  "await_result unmarshal i sel = (Some (Inr c), effs) \<longleftrightarrow>
   effs = [] \<and> (\<exists>chunks line buffered env. sel = Some (SelReply chunks) \<and>
      buf_read '''' chunks = Some (line, buffered, conn_reads c) \<and> fst (ReadLine unmarshal line) = Inr env \<and>
      env_Type env = TypeConnectResult \<and> env_ID env = i \<and> env_OK env)"
  by (cases c) (auto simp: await_result_def connect_outcome_def split: option.splits dial_select.splits prod.splits sum.splits if_splits)

text \<open>
  A stream that was opened to the device is closed in every failure and only then; and when a
  connection is returned, the device answered exactly this request, by its random id, with
  success, on a TCP network, after the request was sent on the stream.
\<close>

theorem DialThroughDevice_contract:
  assumes "DialThroughDevice unmarshal de target network a = (res, effs)"
  shows "(OpenedStream \<in> set effs \<and> (\<exists>e. res = Some (Inl e)) \<longleftrightarrow> ClosedStream \<in> set effs) \<and>
    (case res of
       Some (Inr c) \<Rightarrow>
         effs = [OpenedStream, SentLine (connect_request (randomID (de_rand de) (de_nano de)) network a)] \<and>
         network \<in> {''tcp'', ''tcp4'', ''tcp6''} \<and>
         (\<exists>chunks line buffered env. de_select de = Some (SelReply chunks) \<and>
            buf_read '''' chunks = Some (line, buffered, conn_reads c) \<and> fst (ReadLine unmarshal line) = Inr env \<and>
            env_Type env = TypeConnectResult \<and> env_ID env = randomID (de_rand de) (de_nano de) \<and> env_OK env)
     | _ \<Rightarrow> True)"
proof -
  have net: "network \<in> {''tcp'', ''tcp4'', ''tcp6''}" if "res = Some (Inr c)" for c
    using assms that by (auto simp: DialThroughDevice_def split: if_splits)
  have 1: "OpenedStream \<in> set effs \<and> (\<exists>e. res = Some (Inl e)) \<longleftrightarrow> ClosedStream \<in> set effs"
    using DialThroughDevice_cases[OF assms] await_closes[of unmarshal _ "de_select de" res] by fastforce
  have 2: "\<exists>effs'. effs = [OpenedStream, SentLine (connect_request (randomID (de_rand de) (de_nano de)) network a)] @ effs' \<and>
      await_result unmarshal (randomID (de_rand de) (de_nano de)) (de_select de) = (Some (Inr c), effs')"
    if "res = Some (Inr c)" for c
    using DialThroughDevice_cases[OF assms] that by auto
  show ?thesis
  proof (cases "\<exists>c. res = Some (Inr c)")
    case True
    then obtain c where c: "res = Some (Inr c)" by blast
    from 1 net[OF c] 2[OF c] show ?thesis unfolding c await_conn by auto
  next
    case False
    then show ?thesis using 1 by (auto split: option.split sum.split)
  qed
qed

definition demo_dial_env :: "string list \<Rightarrow> dial_env" where
  "demo_dial_env chunks = \<lparr>de_reg = Put ''dev-1'' (Sess 1) NewRegistry, de_waits = [], de_open = (\<lambda>_. True),
     de_rand = Some [0, 1, 2, 3, 4, 5, 6, 255], de_nano = 0, de_write = True, de_select = Some (SelReply chunks)\<rparr>"

definition demo_result :: Envelope where
  "demo_result = zero_Envelope\<lparr>env_Type := TypeConnectResult, env_ID := ''00010203040506ff'', env_OK := True\<rparr>"

definition demo_result_json :: string where
  "demo_result_json = ''{\"type\":\"connect_result\",\"id\":\"00010203040506ff\",\"ok\":true}''"

definition demo_result_unmarshal :: "unit unmarshal_fun" where
  "demo_result_unmarshal s = (if s = demo_result_json then Inr demo_result else Inl ())"

lemma demo_dial:
  "DialThroughDevice demo_result_unmarshal (demo_dial_env [demo_result_json @ [newline] @ ''SSH'', ''-2.0'']) ''dev-1'' ''tcp'' ''t:22'' =
     (Some (Inr \<lparr>conn_reads = [''-2.0'']\<rparr>),
      [OpenedStream, SentLine (connect_request ''00010203040506ff'' ''tcp'' ''t:22'')])"
  by code_simp

theorem DialThroughDevice_contract_witness:
  "env_Type demo_result = TypeConnectResult \<and> env_ID demo_result = ''00010203040506ff'' \<and>
   ClosedStream \<notin> set [OpenedStream, SentLine (connect_request ''00010203040506ff'' ''tcp'' ''t:22'')]"
  using DialThroughDevice_contract[OF demo_dial] by (auto simp: demo_result_def)

subsection \<open>Bytes that arrive with the answer\<close>

text \<open>
  The buffered reader of the handshake is dropped, and with it everything that arrived in the
  same chunk as the end of the answer: of the data that the device relays after its answer, the
  returned connection delivers a suffix, which is all of it exactly when no data shares a chunk
  with the answer.
\<close>

theorem early_bytes_lost:
  assumes "newline \<notin> set b" "unmarshal b = Inr env"
    and "env_Type env = TypeConnectResult" "env_ID env = i" "env_OK env"
    and "concat chunks = b @ newline # data"
  shows "\<exists>lost c. await_result unmarshal i (Some (SelReply chunks)) = (Some (Inr c), []) \<and>
    data = lost @ concat (conn_reads c) \<and>
    (\<exists>n. concat (take n chunks) = b @ newline # lost \<and> drop n chunks = conn_reads c \<and>
       (\<forall>m. m < n \<longrightarrow> newline \<notin> set (concat (take m chunks))))"
proof -
  have split: "\<exists>n. acc @ concat (take n cs) = l @ r \<and> drop n cs = cs' \<and>
      (\<forall>m. m < n \<longrightarrow> newline \<notin> set (acc @ concat (take m cs)))" if "buf_read acc cs = Some (l, r, cs')"
    for acc cs l r cs'
    using that
  proof (induction acc cs rule: buf_read.induct)
    case (1 acc)
    then show ?case by (intro exI[of _ 0]) (auto split: option.splits dest: ReadBytes_Some)
  next
    case (2 acc c cs)
    show ?case
    proof (cases "ReadBytes newline acc")
      case None
      with 2 obtain n where n: "(acc @ c) @ concat (take n cs) = l @ r" "drop n cs = cs'"
        "\<forall>m. m < n \<longrightarrow> newline \<notin> set ((acc @ c) @ concat (take m cs))" by auto
      have "newline \<notin> set (acc @ concat (take m (c # cs)))" if "m < Suc n" for m
        using that n(3) None ReadBytes_None[of acc] by (cases m) auto
      with n(1,2) show ?thesis by (intro exI[of _ "Suc n"]) simp
    next
      case (Some lr)
      then have "acc = l @ r" "cs' = c # cs" using 2(2) ReadBytes_Some by (auto split: prod.splits)
      then show ?thesis by (intro exI[of _ 0]) simp
    qed
  qed
  obtain r cs' where br: "buf_read '''' chunks = Some (b @ [newline], r, cs')" "data = r @ concat cs'"
    using buf_read_line[OF assms(1), of "''''" chunks data] assms(6) by auto
  have "fst (ReadLine unmarshal (b @ [newline])) = Inr env"
    using ReadLine_line[OF assms(1), of unmarshal "''''"] assms(2) by simp
  then have "await_result unmarshal i (Some (SelReply chunks)) = (Some (Inr \<lparr>conn_reads = cs'\<rparr>), [])"
    unfolding await_conn using br assms(3-5) by auto
  moreover obtain n where "concat (take n chunks) = b @ newline # r" "drop n chunks = cs'"
    "\<forall>m. m < n \<longrightarrow> newline \<notin> set (concat (take m chunks))"
    using split[OF br(1)] by auto
  ultimately show ?thesis using br(2) by (intro exI[of _ r] exI[of _ "\<lparr>conn_reads = cs'\<rparr>"]) auto
qed

text \<open>The banner of an SSH server that arrives with the answer is cut off.\<close>

theorem early_bytes_lost_witness:
  "\<exists>lost c. await_result demo_result_unmarshal ''00010203040506ff''
       (Some (SelReply [demo_result_json @ [newline] @ ''SSH'', ''-2.0''])) = (Some (Inr c), []) \<and>
     ''SSH-2.0'' = lost @ concat (conn_reads c)"
proof -
  have "newline \<notin> set demo_result_json" by code_simp
  moreover have "demo_result_unmarshal demo_result_json = Inr demo_result" by (simp add: demo_result_unmarshal_def)
  moreover have "env_Type demo_result = TypeConnectResult" "env_ID demo_result = ''00010203040506ff''" "env_OK demo_result"
    by (simp_all add: demo_result_def)
  ultimately show ?thesis
    using early_bytes_lost[of demo_result_json demo_result_unmarshal demo_result "''00010203040506ff''"
        "[demo_result_json @ [newline] @ ''SSH'', ''-2.0'']" "''SSH-2.0''"] by simp blast
qed

end
