(* ===== verification/Dial_Request.thy ===== *)
theory Dial_Request
  imports Dial
begin

text \<open>
  \<open>buildDialAndRequest\<close> of \<open>server/main.go\<close>: how a \<open>CONNECT\<close> of the SOCKS server becomes a stream of
  a device, in the two username schemes. While the device is dialed, other goroutines call the
  methods of the lease table. The lemmas show that the handle which the scheduler gave out is
  released on every failure, and held by the returned connection otherwise.
\<close>

subsection \<open>Handles under the calls of others\<close>

definition handle_kept :: "nat \<Rightarrow> lease_call \<Rightarrow> bool" where
  "handle_kept n c \<longleftrightarrow> c \<noteq> CallClose (LeaseHandle n)"

lemma sweep_loop_handles [simp]: "sl_handles (snd (sweep_loop now sl n us)) = sl_handles sl"
  by (induction now sl n us rule: sweep_loop.induct) (simp_all split: option.split)

lemma sl_handles_new: "sl_handles (snd (new_handle a sl)) = (sl_handles sl)(sl_hnext sl \<mapsto> \<lparr>h_lease = a, h_closed = False\<rparr>)"
  by (simp add: new_handle_def)

lemma Acquire_handles:
  assumes "leases_inv sl" "sl_handles sl n = Some lh"
  shows "sl_handles (snd (Acquire now1 now2 u d c ttl sl)) n = Some lh"
proof (cases "claim_device now1 u d sl")
  case (Inl e)
  then show ?thesis using assms by (simp add: Acquire_def)
next
  case (Inr sl1)
  have "sl_handles (drop_old u sl1) = sl_handles sl" "sl_hnext (drop_old u sl1) = sl_hnext sl"
    using Inr by (auto simp: claim_device_def drop_old_def split: option.splits if_splits)
  moreover have "n \<noteq> sl_hnext sl" using assms by (auto simp: leases_inv_def store_fresh_def)
  ultimately show ?thesis
    using Inr assms(2) by (simp add: Acquire_def Let_def insert_lease_def new_handle_def)
qed

lemma step_keeps_handle:
  assumes "leases_inv sl" "sl_handles sl n = Some lh" "handle_kept n oper" "lease_step sl oper sl'"
  shows "sl_handles sl' n = Some lh"
proof (cases oper)
  case (CallAcquireRef a)
  have "n \<noteq> sl_hnext sl" using assms(1,2) by (auto simp: leases_inv_def store_fresh_def)
  then show ?thesis using CallAcquireRef assms(2,4) by (auto simp: AcquireRef_cases sl_handles_new)
next
  case (CallClose h)
  then show ?thesis using assms(2-4)
    by (cases h) (auto simp: handle_kept_def Handle_Close_set simp del: Handle_Close.simps(2) split: option.split)
qed (use assms in \<open>auto simp: Acquire_handles Sweep_def\<close>)

text \<open>A handle's record, once closed, never changes; an open one stays open until it is closed.\<close>

interpretation handle_life: keeping_system "\<lambda>sl. sl = NewLeases" lease_step leases_inv
    "handle_kept n" "\<lambda>sl. sl_handles sl n = Some lh" for n lh
  by unfold_locales (rule step_keeps_handle)

lemma open_handle_record:
  "n \<in> open_handles sl a \<longleftrightarrow> sl_handles sl n = Some \<lparr>h_lease = a, h_closed = False\<rparr>"
proof (cases "sl_handles sl n")
  case (Some lh)
  have "lh = \<lparr>h_lease = a, h_closed = False\<rparr> \<longleftrightarrow> h_lease lh = a \<and> \<not> h_closed lh" by (cases lh) auto
  with Some show ?thesis by (simp add: open_handles_def)
qed (simp add: open_handles_def)

lemma closed_not_open: "n \<notin> open_handles (Handle_Close (LeaseHandle n) sl) a"
  by (simp only: open_handles_Close) simp

subsection \<open>The callback\<close>

datatype 'e request_error = ReqResolve resolve_error | ReqPick sched_error | ReqDial "'e dial_error"

text \<open>
  The result is \<open>None\<close> while it waits. \<open>resolve\<close>, \<open>pick\<close> and \<open>dial\<close> are \<open>Registry.ResolveDeviceForDial\<close>,
  \<open>Scheduler.Pick\<close> and \<open>DialThroughDevice\<close> in their environments; \<open>others\<close> is what the other goroutines
  do to the lease table during the dial.
\<close>

definition buildDialAndRequest ::
    "(string \<Rightarrow> StickyLeases \<Rightarrow> (sched_error + string \<times> Handle) \<times> StickyLeases) option \<Rightarrow>
     (string \<Rightarrow> resolve_error + string) \<Rightarrow> (string \<Rightarrow> ('e dial_error + conn) option) \<Rightarrow>
     (StickyLeases \<Rightarrow> StickyLeases) \<Rightarrow> (string \<rightharpoonup> string) option \<Rightarrow> StickyLeases \<Rightarrow>
     ('e request_error + conn \<times> 'x leasedConn option) option \<times> StickyLeases" where
  "buildDialAndRequest sched resolve dial others payload sl =
     (let user = SOCKS5Username payload in
      case sched of
        None \<Rightarrow>
          (case resolve user of
             Inl e \<Rightarrow> (Some (Inl (ReqResolve e)), sl)
           | Inr targetID \<Rightarrow>
               (case dial targetID of
                  None \<Rightarrow> (None, sl)
                | Some (Inl e) \<Rightarrow> (Some (Inl (ReqDial e)), sl)
                | Some (Inr c) \<Rightarrow> (Some (Inr (c, None)), sl)))
      | Some pick \<Rightarrow>
          (case pick user sl of
             (Inl e, sl) \<Rightarrow> (Some (Inl (ReqPick e)), sl)
           | (Inr (deviceID, h), sl) \<Rightarrow>
               (case dial deviceID of
                  None \<Rightarrow> (None, others sl)
                | Some (Inl e) \<Rightarrow> (Some (Inl (ReqDial e)), Handle_Close h (others sl))
                | Some (Inr c) \<Rightarrow> (Some (Inr (c, WrapConn (Some h))), others sl))))"

text \<open>
  C5. In the scheduler scheme, whatever other goroutines do to the lease table in the meantime short
  of closing this very handle: if the dial fails, the handle that the scheduler gave out has been
  closed, so it no longer counts on any lease; if it succeeds, the handle is still open on its lease
  and owned by the returned connection, and closing that connection releases it. The table stays
  consistent.
\<close>

theorem dial_releases_handle:
  fixes lc :: "'x leasedConn"
  assumes "run lease_step NewLeases calls sl" "walks_ok ev" "only_calls ev"
    and "Pick (ScoredSelector_Pick s) ev (SOCKS5Username payload) sl = (Inr (d, h), sl1)" "h = LeaseHandle n"
    and "run lease_step sl1 later (others sl1)" "\<And>c. c \<in> set later \<Longrightarrow> handle_kept n c"
    and "buildDialAndRequest (Some (Pick (ScoredSelector_Pick s) ev)) resolve dial others payload sl = (Some res, sl')"
  shows "leases_inv sl' \<and>
    (case res of
       Inl e \<Rightarrow> (\<exists>x. e = ReqDial x \<and> dial d = Some (Inl x)) \<and> (\<forall>a. n \<notin> open_handles sl' a)
     | Inr (c, w) \<Rightarrow>
         dial d = Some (Inr c) \<and> (\<exists>a. n \<in> open_handles sl' a) \<and>
         (\<exists>lc. w = Some (lc :: 'x leasedConn) \<and> \<not> lc_closed lc \<and>
            (\<forall>a err. n \<notin> open_handles (snd (snd (leasedConn_Close err (lc, sl')))) a)))"
proof -
  have inv: "leases_inv sl1" and "\<exists>tok. holds (UserKey tok) d h sl1"
    using scored.Pick_ok[OF history_leases_inv[OF assms(1)] assms(2-4)] assms(5) by auto
  then obtain a where "n \<in> open_handles sl1 a" using assms(5) by (auto simp: holds_def)
  then have rec: "sl_handles (others sl1) n = Some \<lparr>h_lease = a, h_closed = False\<rparr>"
    using handle_life.run_keeps[OF assms(6) inv _ assms(7)] by (simp add: open_handle_record)
  have inv': "leases_inv (others sl1)" using leases.run_inv[OF assms(6) inv] .
  consider (fail) x where "dial d = Some (Inl x)" "res = Inl (ReqDial x)" "sl' = Handle_Close h (others sl1)"
    | (ok) c where "dial d = Some (Inr c)" "res = Inr (c, WrapConn (Some h))" "sl' = others sl1"
    using assms(4,8) by (auto simp: buildDialAndRequest_def Let_def split: option.splits sum.splits)
  then show ?thesis
  proof cases
    case fail
    then show ?thesis using leases_inv_Close[OF inv', of h] assms(5) closed_not_open[of n]
      by (simp del: Handle_Close.simps)
  next
    case ok
    then show ?thesis
      using inv' rec assms(5) closed_not_open[of n]
      by (auto simp: open_handle_record WrapConn_def leasedConn_Close_def simp del: Handle_Close.simps)
  qed
qed

text \<open>A device that cannot be reached: the handle of the pick is closed again.\<close>

theorem dial_releases_handle_witness:
  "\<exists>sl'. buildDialAndRequest (Some (Pick (ScoredSelector_Pick NewScoredSelector) (demo_env 50))) (\<lambda>_. Inl NoDeviceOnline)
       (\<lambda>_. Some (Inl OpenStreamErr)) (\<lambda>sl. sl) (Some [''username'' \<mapsto> ''B_1__10_abcdefgh'']) demo_table =
     (Some (Inl (ReqDial OpenStreamErr)) :: (unit request_error + conn \<times> unit leasedConn option) option, sl') \<and>
     (\<forall>a. 1 \<notin> open_handles sl' a)"
proof -
  have "TrimSpace ''B_1__10_abcdefgh'' = ''B_1__10_abcdefgh''" by code_simp
  then have u: "SOCKS5Username (Some [''username'' \<mapsto> ''B_1__10_abcdefgh'']) = ''B_1__10_abcdefgh''"
    by (simp add: SOCKS5Username_def)
  let ?pick = "Pick (ScoredSelector_Pick NewScoredSelector) (demo_env 50)" and ?p = "Some [''username'' \<mapsto> ''B_1__10_abcdefgh'']"
  let ?sl = "snd (AcquireRef 0 demo_table)"
  have p: "?pick (SOCKS5Username ?p) demo_table = (Inr (''d1'', LeaseHandle 1), ?sl)"
    unfolding u by (rule demo_sticky_pick)
  have b: "buildDialAndRequest (Some ?pick) (\<lambda>_. Inl NoDeviceOnline) (\<lambda>_. Some (Inl OpenStreamErr)) (\<lambda>sl. sl) ?p demo_table =
     (Some (Inl (ReqDial OpenStreamErr)) :: (unit request_error + conn \<times> unit leasedConn option) option,
      Handle_Close (LeaseHandle 1) ?sl)"
    using p by (simp add: buildDialAndRequest_def Let_def del: Handle_Close.simps)
  have r: "run lease_step ?sl [] ?sl" by simp
  have "\<forall>a. 1 \<notin> open_handles (Handle_Close (LeaseHandle 1) ?sl) a"
    using dial_releases_handle[OF demo_table_run demo_env_ok(1) alone_only_calls[OF demo_env_ok(2)] p refl r _ b]
    by (simp del: Handle_Close.simps)
  with b show ?thesis by blast
qed

end
