(* ===== verification/Device_Session.thy ===== *)
theory Device_Session
  imports Protocol Registry Go_Net
begin

text \<open>
  \<open>server/hub/device.go\<close>: one device connection, from the TLS handshake to its end. The session is
  a state machine: its goroutine reads the control stream, the watchdog goroutine looks at the
  clock, and other goroutines call the registry at any time. An event carries what the step reads
  from its environment: the line or the error, the clock and whether the write succeeds.

  The lemmas describe the registry after a session, the acknowledgements and the records passed
  on, and when the watchdog closes the connection.
\<close>

record HeartbeatRecord =
  hr_DeviceID :: string
  hr_RemoteIP :: string
  hr_NetType :: string
  hr_CurTsMs :: int
  hr_ServerRecvMs :: int
  hr_AvgRTTms :: "int option"
  hr_LossRate :: "f64 option"

definition parseRemoteHost :: "string \<Rightarrow> string" where
  "parseRemoteHost a = (case SplitHostPort a of None \<Rightarrow> a | Some (host, port) \<Rightarrow> host)"

record DevSession =
  ds_reg :: Registry
  ds_lastBeat :: gotime
  ds_cancelled :: bool            \<comment> \<open>the context of the session\<close>
  ds_rawClosed :: bool
  ds_returned :: bool
  ds_out :: "Envelope list"       \<comment> \<open>the lines written to the control stream\<close>
  ds_sink :: "HeartbeatRecord list" \<comment> \<open>the records handed to the sink's goroutines\<close>

text \<open>The parameters of a session: its yamux session, its device, the timeout and the sink.\<close>

record DevParams =
  dp_sess :: nat
  dp_id :: string
  dp_remoteIP :: string
  dp_timeout :: duration
  dp_has_sink :: bool

datatype dev_event =
    CtrlErr
  | CtrlLine Envelope gotime int bool   \<comment> \<open>message, clock, its milliseconds, whether the ack is written\<close>
  | WatchTick gotime
  | Others reg_call

definition heartbeat_ack :: "Envelope \<Rightarrow> Envelope" where
  "heartbeat_ack env = zero_Envelope\<lparr>env_Type := TypeHeartbeatAck, env_Ts := env_Ts env, env_CurTs := env_CurTs env\<rparr>"

definition heartbeat_record :: "DevParams \<Rightarrow> Envelope \<Rightarrow> int \<Rightarrow> HeartbeatRecord" where
  "heartbeat_record p env recvMs =
     \<lparr>hr_DeviceID = dp_id p, hr_RemoteIP = dp_remoteIP p, hr_NetType = env_NetType env,
      hr_CurTsMs = env_CurTs env, hr_ServerRecvMs = recvMs, hr_AvgRTTms = env_AvgRTT env,
      hr_LossRate = env_LossRate env\<rparr>"

text \<open>The deferred calls, last one first: \<open>cancel\<close>, \<open>reg.Remove\<close>, \<open>sess.Close\<close>, \<open>raw.Close\<close>.\<close>

definition dev_return :: "DevParams \<Rightarrow> DevSession \<Rightarrow> DevSession" where
  "dev_return p s =
     (let s = s\<lparr>ds_cancelled := True\<rparr>;
          s = s\<lparr>ds_reg := Remove (dp_id p) (Sess (dp_sess p)) (ds_reg s)\<rparr>;
          s = s\<lparr>ds_reg := sess_Close (Sess (dp_sess p)) (ds_reg s)\<rparr>
      in s\<lparr>ds_rawClosed := True, ds_returned := True\<rparr>)"

definition dev_heartbeat :: "DevParams \<Rightarrow> Envelope \<Rightarrow> gotime \<Rightarrow> int \<Rightarrow> bool \<Rightarrow> DevSession \<Rightarrow> DevSession" where
  "dev_heartbeat p env now recvMs write_ok s =
     (let s = s\<lparr>ds_lastBeat := now\<rparr>;
          s = (if write_ok then s\<lparr>ds_out := ds_out s @ [heartbeat_ack env]\<rparr> else s)
      in if dp_has_sink p then s\<lparr>ds_sink := ds_sink s @ [heartbeat_record p env recvMs]\<rparr> else s)"

definition watchdog :: "DevParams \<Rightarrow> gotime \<Rightarrow> DevSession \<Rightarrow> DevSession" where
  "watchdog p now s =
     (if dp_timeout p > 0 \<and> \<not> ds_cancelled s then
        if time_Sub now (ds_lastBeat s) > dp_timeout p then s\<lparr>ds_rawClosed := True, ds_cancelled := True\<rparr> else s
      else s)"

fun dev_step :: "DevParams \<Rightarrow> dev_event \<Rightarrow> DevSession \<Rightarrow> DevSession" where
  "dev_step p CtrlErr s = (if ds_returned s then s else dev_return p s)"
| "dev_step p (CtrlLine env now recvMs ok) s =
     (if ds_returned s then s
      else if env_Type env = TypeHeartbeat then dev_heartbeat p env now recvMs ok s else s)"
| "dev_step p (WatchTick now) s = watchdog p now s"
| "dev_step p (Others c) s = s\<lparr>ds_reg := reg_exec c (ds_reg s)\<rparr>"

fun dev_run :: "DevParams \<Rightarrow> dev_event list \<Rightarrow> DevSession \<Rightarrow> DevSession" where
  "dev_run p [] s = s"
| "dev_run p (e # es) s = dev_run p es (dev_step p e s)"

text \<open>
  What the set-up meets: a failure of \<open>yamux.Server\<close>, of the first stream or of its first line, or
  that line and whether the answer is written.
\<close>

datatype dev_setup = YamuxServerErr | AcceptStreamErr | FirstLineErr | FirstLine Envelope bool

definition dev_initial :: "Registry \<Rightarrow> gotime \<Rightarrow> DevSession" where
  "dev_initial r now = \<lparr>ds_reg = r, ds_lastBeat = now, ds_cancelled = False, ds_rawClosed = False,
     ds_returned = False, ds_out = [], ds_sink = []\<rparr>"

definition register_refused :: Envelope where
  "register_refused = zero_Envelope\<lparr>env_Type := TypeRegisterAck, env_OK := False,
     env_Message := ''expected register with device_id''\<rparr>"

definition register_accepted :: Envelope where
  "register_accepted = zero_Envelope\<lparr>env_Type := TypeRegisterAck, env_OK := True\<rparr>"

text \<open>Leaving before the registration closes the session, if there is one, and the connection.\<close>

definition dev_abort :: "nat option \<Rightarrow> DevSession \<Rightarrow> DevSession" where
  "dev_abort sess s =
     (case sess of None \<Rightarrow> s | Some n \<Rightarrow> s\<lparr>ds_reg := sess_Close (Sess n) (ds_reg s)\<rparr>)
       \<lparr>ds_rawClosed := True, ds_returned := True\<rparr>"

text \<open>\<open>ServeDevice\<close> for the session \<open>sess\<close> of a connection from \<open>remote\<close>.\<close>

definition ServeDevice ::
    "nat \<Rightarrow> string \<Rightarrow> duration \<Rightarrow> bool \<Rightarrow> dev_setup \<Rightarrow> gotime \<Rightarrow> dev_event list \<Rightarrow> Registry \<Rightarrow> DevSession" where
  "ServeDevice sess remote timeout has_sink su now evs r =
     (let s = dev_initial r now in
      case su of
        YamuxServerErr \<Rightarrow> dev_abort None s
      | AcceptStreamErr \<Rightarrow> dev_abort (Some sess) s
      | FirstLineErr \<Rightarrow> dev_abort (Some sess) s
      | FirstLine first ok \<Rightarrow>
          if env_Type first \<noteq> TypeRegister \<or> env_DeviceID first = '''' then
            dev_abort (Some sess) (if ok then s\<lparr>ds_out := [register_refused]\<rparr> else s)
          else if \<not> ok then dev_abort (Some sess) s
          else
            dev_run \<lparr>dp_sess = sess, dp_id = env_DeviceID first, dp_remoteIP = parseRemoteHost remote,
                     dp_timeout = timeout, dp_has_sink = has_sink\<rparr> evs
              (s\<lparr>ds_out := [register_accepted], ds_reg := Put (env_DeviceID first) (Sess sess) r\<rparr>))"

subsection \<open>The registry after a session\<close>

fun others :: "dev_event list \<Rightarrow> reg_call list" where
  "others [] = []"
| "others (Others c # es) = c # others es"
| "others (_ # es) = others es"

text \<open>The calls of other sessions.\<close>

fun foreign :: "nat \<Rightarrow> reg_call \<Rightarrow> bool" where
  "foreign n (CallPut d s) = (s \<noteq> n)"
| "foreign n (CallRemove d s) = (s \<noteq> n)"
| "foreign n (CallCloseSess s) = True"

definition reg_execs :: "reg_call list \<Rightarrow> Registry \<Rightarrow> Registry" where
  "reg_execs cs r = fold reg_exec cs r"

text \<open>\<open>same_but n r q\<close>: \<open>r\<close> is \<open>q\<close> without the bindings to session \<open>n\<close>.\<close>

definition same_but :: "nat \<Rightarrow> Registry \<Rightarrow> Registry \<Rightarrow> bool" where
  "same_but n r q \<longleftrightarrow> (\<forall>d. reg_sessions r d =
     (if reg_sessions q d = Some (Sess n) then None else reg_sessions q d))"

lemma same_but_exec:
  assumes "same_but n r q" "foreign n c"
  shows "same_but n (reg_exec c r) (reg_exec c q)"
proof (cases c)
  case (CallRemove d s)
  then show ?thesis using assms by (simp add: same_but_def reg_sessions_Remove)
qed (use assms in \<open>auto simp: same_but_def\<close>)

lemma dev_step_sel [simp]:
  "ds_reg (watchdog p now s) = ds_reg s"
  "ds_returned (watchdog p now s) = ds_returned s"
  "ds_reg (dev_heartbeat p env now recvMs ok s) = ds_reg s"
  "ds_returned (dev_heartbeat p env now recvMs ok s) = ds_returned s"
  "ds_returned (dev_return p s)"
  "ds_rawClosed (dev_return p s)"
  by (simp_all add: watchdog_def dev_heartbeat_def dev_return_def Let_def)

lemma dev_run_returned: "ds_returned s \<Longrightarrow> ds_returned (dev_run p es s)"
proof (induction es arbitrary: s)
  case (Cons e es)
  then show ?case by (cases e) auto
qed simp

lemma dev_run_returned_iff: "ds_returned (dev_run p es s) \<longleftrightarrow> ds_returned s \<or> CtrlErr \<in> set es"
proof (induction es arbitrary: s)
  case (Cons e es)
  then show ?case by (cases e) auto
qed simp

lemma dev_run_closed: "ds_rawClosed s \<Longrightarrow> ds_rawClosed (dev_run p es s)"
proof (induction es arbitrary: s)
  case (Cons e es)
  have "ds_rawClosed (dev_step p e s)"
    using Cons.prems by (cases e) (auto simp: watchdog_def dev_heartbeat_def Let_def)
  then show ?case using Cons.IH by simp
qed simp

lemma reg_closed_run: "reg_closed (ds_reg s) \<subseteq> reg_closed (ds_reg (dev_run p es s))"
proof (induction es arbitrary: s)
  case (Cons e es)
  have "reg_closed (ds_reg s) \<subseteq> reg_closed (ds_reg (dev_step p e s))"
    using reg_closed_mono[of "ds_reg s"]
    by (cases e) (auto simp: dev_return_def Let_def Remove_def split: option.split)
  with Cons.IH[of "dev_step p e s"] show ?case by auto
qed simp

text \<open>Once the session has returned, only the other goroutines act on the registry.\<close>

lemma dev_run_after:
  assumes "ds_returned s" "same_but n (ds_reg s) q" "\<And>c. c \<in> set (others es) \<Longrightarrow> foreign n c"
  shows "same_but n (ds_reg (dev_run p es s)) (reg_execs (others es) q)"
  using assms
proof (induction es arbitrary: s q)
  case Nil
  then show ?case by (simp add: reg_execs_def)
next
  case (Cons e es)
  show ?case
  proof (cases "\<exists>c. e = Others c")
    case True
    then obtain c where e: "e = Others c" by blast
    then have "same_but n (ds_reg (dev_step p e s)) (reg_exec c q)"
      using Cons.prems by (simp add: same_but_exec)
    with Cons.IH[of "dev_step p e s" "reg_exec c q"] Cons.prems e show ?thesis
      by (simp add: reg_execs_def)
  next
    case False
    then have "ds_reg (dev_step p e s) = ds_reg s" "ds_returned (dev_step p e s)" "others (e # es) = others es"
      using Cons.prems(1) by (cases e; simp)+
    with Cons.IH[of "dev_step p e s" q] Cons.prems show ?thesis by simp
  qed
qed

lemma dev_run_registry:
  assumes "\<not> ds_returned s" "CtrlErr \<in> set es" "\<And>c. c \<in> set (others es) \<Longrightarrow> foreign (dp_sess p) c"
    and "\<And>d. d \<noteq> dp_id p \<Longrightarrow> reg_sessions (ds_reg s) d \<noteq> Some (Sess (dp_sess p))"
  shows "same_but (dp_sess p) (ds_reg (dev_run p es s)) (reg_execs (others es) (ds_reg s)) \<and>
    ds_rawClosed (dev_run p es s) \<and> dp_sess p \<in> reg_closed (ds_reg (dev_run p es s))"
  using assms
proof (induction es arbitrary: s)
  case Nil
  then show ?case by simp
next
  case (Cons e es)
  have fin: ?case if e: "e = CtrlErr"
  proof -
    have "same_but (dp_sess p) (ds_reg (dev_return p s)) (ds_reg s)"
      unfolding same_but_def
    proof
      fix d
      show "reg_sessions (ds_reg (dev_return p s)) d =
        (if reg_sessions (ds_reg s) d = Some (Sess (dp_sess p)) then None else reg_sessions (ds_reg s) d)"
        using Cons.prems(4)[of d]
        by (cases "d = dp_id p") (auto simp: dev_return_def Let_def reg_sessions_Remove)
    qed
    then have "same_but (dp_sess p) (ds_reg (dev_run p es (dev_return p s))) (reg_execs (others es) (ds_reg s))"
      using Cons.prems(3) e by (intro dev_run_after) auto
    moreover have "dp_sess p \<in> reg_closed (ds_reg (dev_return p s))"
      by (simp add: dev_return_def Let_def)
    then have "dp_sess p \<in> reg_closed (ds_reg (dev_run p es (dev_return p s)))"
      using reg_closed_run by blast
    ultimately show ?thesis using Cons.prems(1) e dev_run_closed[of "dev_return p s" p es] by simp
  qed
  have oth: ?case if e: "e = Others c" for c
  proof -
    have "reg_sessions (reg_exec c (ds_reg s)) d \<noteq> Some (Sess (dp_sess p))" if "d \<noteq> dp_id p" for d
      using Cons.prems(3)[of c] Cons.prems(4)[OF that] e
      by (cases c) (auto simp: reg_sessions_Remove)
    then show ?thesis using Cons.IH[of "dev_step p e s"] Cons.prems e by (simp add: reg_execs_def)
  qed
  show ?case
  proof (cases e)
    case (CtrlLine env now recvMs ok)
    then have k: "\<not> ds_returned (dev_step p e s)" "ds_reg (dev_step p e s) = ds_reg s" "others (e # es) = others es"
      using Cons.prems(1) by simp_all
    have "CtrlErr \<in> set es" using Cons.prems(2) CtrlLine by simp
    from Cons.IH[OF k(1) this, unfolded k(2)] Cons.prems(3,4) show ?thesis
      unfolding k(3) dev_run.simps by blast
  next
    case (WatchTick now)
    then show ?thesis using Cons.IH[of "dev_step p e s"] Cons.prems by simp
  qed (use fin oth in auto)
qed

text \<open>
  C10. When the session of a registered device has ended, its connection and its yamux session are
  closed, and the registry is what the calls of all other goroutines alone would have made of the
  registration, without this session: a newer registration of the same device, before or after the
  end, is untouched, and no binding to the dead session is left.
\<close>

theorem session_cleanup:
  fixes sess remote timeout has_sink now r
  assumes "env_Type first = TypeRegister" "env_DeviceID first \<noteq> ''''" "CtrlErr \<in> set evs"
    and "\<And>c. c \<in> set (others evs) \<Longrightarrow> foreign sess c"
    and "\<And>d. reg_sessions r d \<noteq> Some (Sess sess)"
  defines "s \<equiv> ServeDevice sess remote timeout has_sink (FirstLine first True) now evs r"
  shows "ds_returned s \<and> ds_rawClosed s \<and> sess \<in> reg_closed (ds_reg s) \<and>
    same_but sess (ds_reg s) (reg_execs (others evs) (Put (env_DeviceID first) (Sess sess) r))"
proof -
  let ?p = "\<lparr>dp_sess = sess, dp_id = env_DeviceID first, dp_remoteIP = parseRemoteHost remote,
             dp_timeout = timeout, dp_has_sink = has_sink\<rparr>"
  let ?s = "(dev_initial r now)\<lparr>ds_out := [register_accepted], ds_reg := Put (env_DeviceID first) (Sess sess) r\<rparr>"
  have s: "s = dev_run ?p evs ?s" using assms(1,2) by (simp add: s_def ServeDevice_def Let_def)
  have "ds_returned s" using assms(3) by (simp add: s dev_run_returned_iff)
  moreover have "same_but (dp_sess ?p) (ds_reg (dev_run ?p evs ?s)) (reg_execs (others evs) (ds_reg ?s)) \<and>
    ds_rawClosed (dev_run ?p evs ?s) \<and> dp_sess ?p \<in> reg_closed (ds_reg (dev_run ?p evs ?s))"
    using assms(3-5) by (intro dev_run_registry) (auto simp: dev_initial_def)
  ultimately show ?thesis by (simp add: s)
qed

text \<open>The device comes back with session 8 while session 7 is still being served.\<close>

theorem session_cleanup_witness:
  "reg_sessions (ds_reg (ServeDevice 7 ''192.0.2.7:999'' (90 * Second) True (FirstLine demo_register True) 0
      [WatchTick Second, Others (CallPut ''dev-1'' 8), CtrlErr] NewRegistry)) ''dev-1'' = Some (Sess 8)"
proof -
  have "env_Type demo_register = TypeRegister" "env_DeviceID demo_register = ''dev-1''"
    by (simp_all add: demo_register_def)
  with session_cleanup[of demo_register "[WatchTick Second, Others (CallPut ''dev-1'' 8), CtrlErr]" 7 NewRegistry
      "''192.0.2.7:999''" "90 * Second" True 0]
  show ?thesis by (simp add: same_but_def reg_execs_def NewRegistry_def)
qed

subsection \<open>Heartbeats\<close>

text \<open>The heartbeats that are read, with clock, milliseconds and fate of the answer.\<close>

fun beats :: "dev_event list \<Rightarrow> (Envelope \<times> gotime \<times> int \<times> bool) list" where
  "beats [] = []"
| "beats (CtrlErr # es) = []"
| "beats (CtrlLine env now recvMs ok # es) =
     (if env_Type env = TypeHeartbeat then (env, now, recvMs, ok) # beats es else beats es)"
| "beats (_ # es) = beats es"

lemma dev_run_idle: "ds_returned s \<Longrightarrow> ds_out (dev_run p es s) = ds_out s \<and> ds_sink (dev_run p es s) = ds_sink s"
proof (induction es arbitrary: s)
  case (Cons e es)
  have "ds_returned (dev_step p e s)" "ds_out (dev_step p e s) = ds_out s" "ds_sink (dev_step p e s) = ds_sink s"
    using Cons.prems by (cases e; simp add: watchdog_def)+
  with Cons.IH show ?case by simp
qed simp

lemma dev_run_beats:
  "\<not> ds_returned s \<Longrightarrow>
   ds_out (dev_run p es s) = ds_out s @ map (\<lambda>(env, _). heartbeat_ack env) (filter (\<lambda>(_, _, _, ok). ok) (beats es)) \<and>
   ds_sink (dev_run p es s) = ds_sink s @
     (if dp_has_sink p then map (\<lambda>(env, _, ms, _). heartbeat_record p env ms) (beats es) else [])"
proof (induction es arbitrary: s)
  case (Cons e es)
  show ?case
  proof (cases e)
    case CtrlErr
    have "ds_out (dev_return p s) = ds_out s \<and> ds_sink (dev_return p s) = ds_sink s"
      by (simp add: dev_return_def Let_def)
    then show ?thesis using Cons.prems CtrlErr dev_run_idle[of "dev_return p s" p es] by simp
  next
    case (CtrlLine env now recvMs ok)
    then show ?thesis using Cons.IH[of "dev_step p e s"] Cons.prems by (simp add: dev_heartbeat_def Let_def)
  next
    case (WatchTick now)
    then show ?thesis using Cons.IH[of "dev_step p e s"] Cons.prems by (simp add: watchdog_def)
  next
    case (Others c)
    then show ?thesis using Cons.IH[of "dev_step p e s"] Cons.prems by simp
  qed
qed simp

text \<open>
  Between registration and the end of the control stream, the device is answered exactly the
  heartbeats it sent, in order, each with its own time stamps (save the answers whose write fails),
  and every heartbeat, answered or not, is passed on with the observed address and the time it
  arrived; other messages are ignored.
\<close>

theorem heartbeats_answered:
  fixes sess remote timeout now evs r
  assumes "env_Type first = TypeRegister" "env_DeviceID first \<noteq> ''''"
  defines "s \<equiv> ServeDevice sess remote timeout True (FirstLine first True) now evs r"
  shows "ds_out s = register_accepted #
      map (\<lambda>(env, _). heartbeat_ack env) (filter (\<lambda>(_, _, _, ok). ok) (beats evs)) \<and>
    map (\<lambda>h. (hr_DeviceID h, hr_RemoteIP h, hr_CurTsMs h, hr_ServerRecvMs h, hr_AvgRTTms h, hr_LossRate h)) (ds_sink s) =
      map (\<lambda>(env, _, ms, _). (env_DeviceID first, parseRemoteHost remote, env_CurTs env, ms, env_AvgRTT env, env_LossRate env))
        (beats evs)"
proof -
  let ?p = "\<lparr>dp_sess = sess, dp_id = env_DeviceID first, dp_remoteIP = parseRemoteHost remote,
             dp_timeout = timeout, dp_has_sink = True\<rparr>"
  let ?s = "(dev_initial r now)\<lparr>ds_out := [register_accepted], ds_reg := Put (env_DeviceID first) (Sess sess) r\<rparr>"
  have s: "s = dev_run ?p evs ?s" using assms(1,2) by (simp add: s_def ServeDevice_def Let_def)
  have "\<not> ds_returned ?s" by (simp add: dev_initial_def)
  from dev_run_beats[OF this, of ?p evs] show ?thesis
    by (simp add: s dev_initial_def heartbeat_record_def split_beta comp_def)
qed

definition demo_heartbeat :: Envelope where
  "demo_heartbeat = zero_Envelope\<lparr>env_Type := TypeHeartbeat, env_CurTs := 1234, env_Ts := 1\<rparr>"

theorem heartbeats_answered_witness:
  "map env_CurTs (ds_out (ServeDevice 7 ''192.0.2.7:999'' (90 * Second) True (FirstLine demo_register True) 0
      [CtrlLine demo_heartbeat Second 5 True, CtrlLine demo_ack Second 6 True, CtrlErr] NewRegistry)) = [0, 1234]"
proof -
  have "env_Type demo_register = TypeRegister" "env_DeviceID demo_register \<noteq> ''''"
    by (simp_all add: demo_register_def)
  note h = heartbeats_answered[OF this, of 7 "''192.0.2.7:999''" "90 * Second" 0
      "[CtrlLine demo_heartbeat Second 5 True, CtrlLine demo_ack Second 6 True, CtrlErr]" NewRegistry]
  have "env_Type demo_ack \<noteq> TypeHeartbeat" "env_Type demo_heartbeat = TypeHeartbeat"
    by (simp_all add: demo_ack_def demo_heartbeat_def envelope_types)
  then show ?thesis
    using h by (simp add: heartbeat_ack_def register_accepted_def zero_Envelope_def demo_heartbeat_def)
qed

subsection \<open>The watchdog\<close>

text \<open>Some tick comes more than the timeout after the latest heartbeat before it.\<close>

fun stale_tick :: "duration \<Rightarrow> gotime \<Rightarrow> dev_event list \<Rightarrow> bool" where
  "stale_tick d t [] = False"
| "stale_tick d t (CtrlErr # es) = False"
| "stale_tick d t (CtrlLine env now recvMs ok # es) =
     stale_tick d (if env_Type env = TypeHeartbeat then now else t) es"
| "stale_tick d t (WatchTick now # es) = (time_Sub now t > d \<or> stale_tick d t es)"
| "stale_tick d t (Others c # es) = stale_tick d t es"

lemma watchdog_closes:
  "\<not> ds_returned s \<Longrightarrow> CtrlErr \<notin> set es \<Longrightarrow> \<not> ds_cancelled s \<Longrightarrow> dp_timeout p > 0 \<Longrightarrow> \<not> ds_rawClosed s \<Longrightarrow>
   ds_rawClosed (dev_run p es s) = stale_tick (dp_timeout p) (ds_lastBeat s) es"
proof (induction "dp_timeout p" "ds_lastBeat s" es arbitrary: s rule: stale_tick.induct)
  case (3 env now recvMs ok es)
  then show ?case by (cases "env_Type env = TypeHeartbeat") (simp_all add: dev_heartbeat_def Let_def)
next
  case (4 now es)
  show ?case
  proof (cases "time_Sub now (ds_lastBeat s) > dp_timeout p")
    case True
    then have "ds_rawClosed (dev_step p (WatchTick now) s)" using 4 by (simp add: watchdog_def)
    with True dev_run_closed show ?thesis by simp
  next
    case False
    then show ?thesis using 4 by (simp add: watchdog_def)
  qed
qed simp_all

lemma no_watchdog:
  "\<not> ds_returned s \<Longrightarrow> CtrlErr \<notin> set es \<Longrightarrow> dp_timeout p \<le> 0 \<Longrightarrow> ds_rawClosed (dev_run p es s) = ds_rawClosed s"
proof (induction es arbitrary: s)
  case (Cons e es)
  then show ?case by (cases e) (auto simp: watchdog_def dev_heartbeat_def Let_def)
qed simp

text \<open>
  While the control stream is intact, the server closes a device's connection exactly when a
  positive timeout is configured and some tick of the watchdog comes more than that timeout after
  the latest heartbeat (after the registration, if there was none): timely heartbeats keep a device
  connected whatever else happens.
\<close>

theorem watchdog_exact:
  assumes "env_Type first = TypeRegister" "env_DeviceID first \<noteq> ''''" "CtrlErr \<notin> set evs"
  shows "ds_rawClosed (ServeDevice sess remote timeout has_sink (FirstLine first True) now evs r) =
    (timeout > 0 \<and> stale_tick timeout now evs)"
proof -
  let ?p = "\<lparr>dp_sess = sess, dp_id = env_DeviceID first, dp_remoteIP = parseRemoteHost remote,
             dp_timeout = timeout, dp_has_sink = has_sink\<rparr>"
  let ?s = "(dev_initial r now)\<lparr>ds_out := [register_accepted], ds_reg := Put (env_DeviceID first) (Sess sess) r\<rparr>"
  have s: "ServeDevice sess remote timeout has_sink (FirstLine first True) now evs r = dev_run ?p evs ?s"
    using assms(1,2) by (simp add: ServeDevice_def Let_def)
  have "\<not> ds_returned ?s" "\<not> ds_cancelled ?s" "\<not> ds_rawClosed ?s" "ds_lastBeat ?s = now"
    by (simp_all add: dev_initial_def)
  with watchdog_closes[of ?s evs ?p] no_watchdog[of ?s evs ?p] assms(3) show ?thesis
    unfolding s by (cases "timeout > 0") simp_all
qed

theorem watchdog_exact_witness:
  "ds_rawClosed (ServeDevice 7 ''192.0.2.7:999'' (90 * Second) True (FirstLine demo_register True) 0
      [WatchTick (60 * Second), CtrlLine demo_heartbeat (80 * Second) 5 True, WatchTick (120 * Second)] NewRegistry)
    = False"
proof -
  have "env_Type demo_register = TypeRegister" "env_DeviceID demo_register \<noteq> ''''"
    by (simp_all add: demo_register_def)
  moreover have "env_Type demo_heartbeat = TypeHeartbeat" by (simp add: demo_heartbeat_def)
  ultimately show ?thesis
    using watchdog_exact[of demo_register "[WatchTick (60 * Second), CtrlLine demo_heartbeat (80 * Second) 5 True,
      WatchTick (120 * Second)]" 7 "''192.0.2.7:999''" "90 * Second" True 0 NewRegistry]
    by (simp add: time_Sub_def)
qed

end
