(* ===== verification/Heartbeat_Sink.thy ===== *)
theory Heartbeat_Sink
  imports Device_Session Pool
begin

text \<open>
  What happens to a heartbeat on the server: \<open>server/geo/geo.go\<close> (the reloadable GeoLite2 reader),
  \<open>server/nsqpub/publisher.go\<close> (the NSQ producer) and \<open>heartbeatSink.OnHeartbeat\<close> of
  \<open>server/main.go\<close>, which enriches the record, updates the scheduler's pool and publishes the event.
  The MaxMind reader and the NSQ producer are arguments.
\<close>

subsection \<open>Geo lookup\<close>

text \<open>The fields of a \<open>geoip2.City\<close> record that the code reads, and of its subdivisions.\<close>

record CityRec =
  city_CountryIso :: string
  city_CountryNames :: "string \<rightharpoonup> string"
  city_CityNames :: "string \<rightharpoonup> string"
  city_Subdivisions :: "(string \<times> (string \<rightharpoonup> string)) list"   \<comment> \<open>ISO code and names\<close>

text \<open>A reader is a reference; \<open>gl_closed\<close> are the readers on which \<open>Close\<close> was called.\<close>

record GeoLite2 =
  gl_path :: string
  gl_reader :: "nat option"
  gl_closed :: "nat list"

type_synonym Lookuper = "ip \<Rightarrow> Geo"

definition NopLookuper :: Lookuper where
  "NopLookuper ip = zero_Geo"

datatype 'e geo_error = GeoPathEmpty | GeoStat 'e | GeoOpen 'e

definition Geo_Open :: "(string \<Rightarrow> 'e option) \<Rightarrow> (string \<Rightarrow> 'e + nat) \<Rightarrow> string \<Rightarrow> 'e geo_error + GeoLite2" where
  "Geo_Open stat open_db path =
     (if path = '''' then Inl GeoPathEmpty
      else case stat path of
        Some e \<Rightarrow> Inl (GeoStat e)
      | None \<Rightarrow> (case open_db path of
                   Inl e \<Rightarrow> Inl (GeoOpen e)
                 | Inr r \<Rightarrow> Inr \<lparr>gl_path = path, gl_reader = Some r, gl_closed = []\<rparr>))"

definition Geo_Reload :: "(string \<Rightarrow> 'e + nat) \<Rightarrow> GeoLite2 \<Rightarrow> 'e option \<times> GeoLite2" where
  "Geo_Reload open_db g =
     (case open_db (gl_path g) of
        Inl e \<Rightarrow> (Some e, g)
      | Inr r \<Rightarrow>
          (let old = gl_reader g; g = g\<lparr>gl_reader := Some r\<rparr>
           in case old of None \<Rightarrow> (None, g) | Some o' \<Rightarrow> (None, g\<lparr>gl_closed := gl_closed g @ [o']\<rparr>)))"

text \<open>\<open>cerr\<close> is what closing the reader returns.\<close>

definition Geo_Close :: "'e option \<Rightarrow> GeoLite2 \<Rightarrow> 'e option \<times> GeoLite2" where
  "Geo_Close cerr g =
     (case gl_reader g of
        None \<Rightarrow> (None, g)
      | Some r \<Rightarrow> (cerr, g\<lparr>gl_reader := None, gl_closed := gl_closed g @ [r]\<rparr>))"

definition str_of :: "string option \<Rightarrow> string" where
  "str_of v = (case v of None \<Rightarrow> '''' | Some s \<Rightarrow> s)"

definition Geo_Lookup :: "(nat \<Rightarrow> ip \<Rightarrow> 'e + CityRec option) \<Rightarrow> GeoLite2 option \<Rightarrow> ip option \<Rightarrow> Geo" where
  "Geo_Lookup city g a =
     (case (g, a) of
        (Some g, Some a) \<Rightarrow>
          (case gl_reader g of
             None \<Rightarrow> zero_Geo
           | Some r \<Rightarrow>
               (case city r a of
                  Inr (Some rec) \<Rightarrow>
                    (let out = zero_Geo\<lparr>geo_Country := city_CountryIso rec,
                                geo_CountryName := str_of (city_CountryNames rec ''en''),
                                geo_City := str_of (city_CityNames rec ''en'')\<rparr>
                     in case city_Subdivisions rec of
                          [] \<Rightarrow> out
                        | (sub_iso, names) # _ \<Rightarrow> out\<lparr>geo_Region := str_of (names ''en''), geo_RegionCode := sub_iso\<rparr>)
                | _ \<Rightarrow> zero_Geo))
      | _ \<Rightarrow> zero_Geo)"

text \<open>Histories of reloads (with what \<open>geoip2.Open\<close> delivers) and closes.\<close>

datatype 'e geo_call = GeoCallReload "'e + nat" | GeoCallClose "'e option"

definition geo_step :: "GeoLite2 \<Rightarrow> 'e geo_call \<Rightarrow> GeoLite2 \<Rightarrow> bool" where
  "geo_step g c g' \<longleftrightarrow>
     (case c of
        GeoCallReload res \<Rightarrow>
          (case res of Inl e \<Rightarrow> True | Inr r \<Rightarrow> gl_reader g \<noteq> Some r \<and> r \<notin> set (gl_closed g)) \<and>
          g' = snd (Geo_Reload (\<lambda>_. res) g)
      | GeoCallClose e \<Rightarrow> g' = snd (Geo_Close e g))"

text \<open>No reader in use is closed, and none is closed twice, when every \<open>Open\<close> returns a new reader.\<close>

definition geo_inv :: "GeoLite2 \<Rightarrow> bool" where
  "geo_inv g \<longleftrightarrow> distinct (gl_closed g) \<and> (\<forall>r. gl_reader g = Some r \<longrightarrow> r \<notin> set (gl_closed g))"

interpretation geo: step_system "\<lambda>g. gl_closed g = []" geo_step geo_inv
proof
  fix g g' :: GeoLite2 and c :: "'e geo_call"
  show "gl_closed g = [] \<Longrightarrow> geo_inv g" by (simp add: geo_inv_def)
  show "geo_inv g \<Longrightarrow> geo_step g c g' \<Longrightarrow> geo_inv g'"
    by (auto simp: geo_inv_def geo_step_def Geo_Reload_def Geo_Close_def Let_def
        split: geo_call.splits sum.splits option.splits)
qed

subsection \<open>The NSQ publisher\<close>

record NSQPublisher =
  np_topic :: string
  np_stopped :: bool
  np_stops :: nat   \<comment> \<open>how often the producer was stopped\<close>

datatype 'e nsq_error = NsqAddrEmpty | NsqProducer 'e | NsqPing 'e

text \<open>\<open>NSQ_New\<close> also returns how often it stopped a producer that it does not return.\<close>

definition NSQ_New :: "(string \<Rightarrow> 'e option) \<Rightarrow> 'e option \<Rightarrow> string \<Rightarrow> string \<Rightarrow> ('e nsq_error + NSQPublisher) \<times> nat" where
  "NSQ_New new_producer ping addr topic =
     (if addr = '''' then (Inl NsqAddrEmpty, 0)
      else let topic = (if topic = '''' then heartbeat_Topic else topic) in
        (case new_producer addr of
           Some e \<Rightarrow> (Inl (NsqProducer e), 0)
         | None \<Rightarrow> (case ping of
                      Some e \<Rightarrow> (Inl (NsqPing e), 1)
                    | None \<Rightarrow> (Inr \<lparr>np_topic = topic, np_stopped = False, np_stops = 0\<rparr>, 0))))"

datatype 'e publish_error = PubCtx 'e | PubMarshal 'e | PubSend 'e

definition NSQ_Publish ::
    "(Event \<Rightarrow> 'e + string) \<Rightarrow> (string \<Rightarrow> string \<Rightarrow> 'e option) \<Rightarrow> 'e option \<Rightarrow> Event \<Rightarrow> NSQPublisher \<Rightarrow>
     'e publish_error option \<times> (string \<times> string) list" where
  "NSQ_Publish marshal send ctx_err evt p =
     (case ctx_err of
        Some e \<Rightarrow> (Some (PubCtx e), [])
      | None \<Rightarrow>
          (case marshal evt of
             Inl e \<Rightarrow> (Some (PubMarshal e), [])
           | Inr body \<Rightarrow>
               (case send (np_topic p) body of
                  Some e \<Rightarrow> (Some (PubSend e), [(np_topic p, body)])
                | None \<Rightarrow> (None, [(np_topic p, body)]))))"

definition NSQ_Close :: "NSQPublisher \<Rightarrow> NSQPublisher" where
  "NSQ_Close p = (if np_stopped p then p else p\<lparr>np_stopped := True, np_stops := Suc (np_stops p)\<rparr>)"

lemma NSQ_Close_idem [simp]: "NSQ_Close (NSQ_Close p) = NSQ_Close p"
  by (simp add: NSQ_Close_def)

subsection \<open>The sink\<close>

definition event_of :: "HeartbeatRecord \<Rightarrow> Event" where
  "event_of r = \<lparr>evt_DeviceID = hr_DeviceID r, evt_RemoteIP = hr_RemoteIP r, evt_NetType = hr_NetType r,
     evt_CurTsMs = hr_CurTsMs r, evt_ServerRecvMs = hr_ServerRecvMs r, evt_AvgRTTms = hr_AvgRTTms r,
     evt_LossRate = hr_LossRate r, evt_Geo = zero_Geo\<rparr>"

definition enrich :: "Lookuper option \<Rightarrow> HeartbeatRecord \<Rightarrow> Event \<Rightarrow> Event" where
  "enrich geo r evt =
     (case geo of
        Some lookup \<Rightarrow>
          if hr_RemoteIP r \<noteq> '''' then
            (case ParseIP (hr_RemoteIP r) of Some a \<Rightarrow> evt\<lparr>evt_Geo := lookup a\<rparr> | None \<Rightarrow> evt)
          else evt
      | None \<Rightarrow> evt)"

definition device_update :: "Event \<Rightarrow> HeartbeatRecord \<Rightarrow> DeviceUpdate" where
  "device_update evt r = \<lparr>du_Country = geo_Country (evt_Geo evt), du_NetType = hr_NetType r,
     du_AvgRTTms = hr_AvgRTTms r, du_LossRate = hr_LossRate r, du_SeenAt = UnixMilli (hr_ServerRecvMs r)\<rparr>"

text \<open>
  \<open>OnHeartbeat\<close> returns its error, the pool and the events handed to the publisher. \<open>pub\<close> is the
  publisher's result for an event, \<open>now\<close> the clock of the pool.
\<close>

definition OnHeartbeat ::
    "Lookuper option \<Rightarrow> (Event \<Rightarrow> 'e option) option \<Rightarrow> gotime \<Rightarrow> HeartbeatRecord \<Rightarrow> DevicePool option \<Rightarrow>
     'e option \<times> DevicePool option \<times> Event list" where
  "OnHeartbeat geo pub now r pool =
     (let evt = enrich geo r (event_of r);
          pool = (case pool of
                    Some p \<Rightarrow> Some (DevicePool_Update p now (hr_DeviceID r) (device_update evt r))
                  | None \<Rightarrow> None)
      in case pub of None \<Rightarrow> (None, pool, []) | Some publish \<Rightarrow> (publish evt, pool, [evt]))"

text \<open>What the lookup yields for a record, and the published event.\<close>

definition geo_of :: "Lookuper \<Rightarrow> HeartbeatRecord \<Rightarrow> Geo" where
  "geo_of lookup r =
     (if hr_RemoteIP r = '''' then zero_Geo
      else case ParseIP (hr_RemoteIP r) of None \<Rightarrow> zero_Geo | Some a \<Rightarrow> lookup a)"

lemma enrich_event: "enrich (Some lookup) r (event_of r) = (event_of r)\<lparr>evt_Geo := geo_of lookup r\<rparr>"
  by (simp add: enrich_def event_of_def geo_of_def split: option.split)

lemma UnixMilli_pos: "0 \<le> ms \<Longrightarrow> \<not> IsZero (UnixMilli ms)"
  by (simp add: UnixMilli_def IsZero_def)

text \<open>
  A heartbeat updates the scheduler's view of its device and of no other: what it reports (and
  the country of the observed address) replaces what was known, what it leaves out stays, and the
  device counts as seen at the time of arrival. This does not depend on the publisher, which gets
  the event with everything that is known; its error is the only one.
\<close>

theorem heartbeat_updates_pool:
  assumes "hr_DeviceID r \<noteq> ''''" "0 \<le> hr_ServerRecvMs r"
    and "OnHeartbeat (Some lookup) (Some pub) now r (Some p) = (err, Some p', evts)"
  shows "evts = [(event_of r)\<lparr>evt_Geo := geo_of lookup r\<rparr>] \<and> err = pub (hd evts) \<and>
    p' = p(hr_DeviceID r \<mapsto>
      (let old = stats_of p (hr_DeviceID r); c = geo_Country (geo_of lookup r) in
       \<lparr>st_country = (if c = '''' then st_country old else c),
        st_netType = (if hr_NetType r = '''' then st_netType old else hr_NetType r),
        st_avgRTT = (case hr_AvgRTTms r of None \<Rightarrow> st_avgRTT old | Some v \<Rightarrow> v),
        st_lossRate = (case hr_LossRate r of None \<Rightarrow> st_lossRate old | Some v \<Rightarrow> v),
        st_hasStats = (st_hasStats old \<or> hr_AvgRTTms r \<noteq> None \<or> hr_LossRate r \<noteq> None),
        st_lastSeen = UnixMilli (hr_ServerRecvMs r)\<rparr>))"
proof -
  let ?e = "(event_of r)\<lparr>evt_Geo := geo_of lookup r\<rparr>"
  have "evts = [?e]" "err = pub ?e"
    and p': "p' = p(hr_DeviceID r \<mapsto> merge_stats (stats_of p (hr_DeviceID r)) now (device_update ?e r))"
    using assms(1,3) by (auto simp: OnHeartbeat_def Let_def enrich_event DevicePool_Update_def)
  moreover have "merge_stats old now (device_update ?e r) =
      (let c = geo_Country (geo_of lookup r) in
       \<lparr>st_country = (if c = '''' then st_country old else c),
        st_netType = (if hr_NetType r = '''' then st_netType old else hr_NetType r),
        st_avgRTT = (case hr_AvgRTTms r of None \<Rightarrow> st_avgRTT old | Some v \<Rightarrow> v),
        st_lossRate = (case hr_LossRate r of None \<Rightarrow> st_lossRate old | Some v \<Rightarrow> v),
        st_hasStats = (st_hasStats old \<or> hr_AvgRTTms r \<noteq> None \<or> hr_LossRate r \<noteq> None),
        st_lastSeen = UnixMilli (hr_ServerRecvMs r)\<rparr>)" for old
    by (rule deviceStats.equality) (simp_all add: device_update_def Let_def UnixMilli_pos[OF assms(2)])
  ultimately show ?thesis by (simp add: Let_def)
qed

definition demo_record :: HeartbeatRecord where
  "demo_record = \<lparr>hr_DeviceID = ''dev-1'', hr_RemoteIP = '''', hr_NetType = ''wifi'', hr_CurTsMs = 1,
     hr_ServerRecvMs = 2, hr_AvgRTTms = Some 40, hr_LossRate = None\<rparr>"

theorem heartbeat_updates_pool_witness:
  "\<exists>p' evts. OnHeartbeat (Some NopLookuper) (Some (\<lambda>_. Some ())) 0 demo_record (Some NewPool) = (Some (), Some p', evts) \<and>
     map_option st_avgRTT (p' ''dev-1'') = Some 40"
proof -
  have d: "hr_DeviceID demo_record = ''dev-1''" "0 \<le> hr_ServerRecvMs demo_record" "hr_AvgRTTms demo_record = Some 40"
    by (simp_all add: demo_record_def)
  obtain p' evts where o: "OnHeartbeat (Some NopLookuper) (Some (\<lambda>_. Some ())) 0 demo_record (Some NewPool) =
      (Some (), Some p', evts)"
    by (simp add: OnHeartbeat_def Let_def)
  have "hr_DeviceID demo_record \<noteq> ''''" using d(1) by simp
  from heartbeat_updates_pool[OF this d(2) o] o d show ?thesis by (simp add: Let_def)
qed

end
