(* ===== verification/Logger.thy ===== *)
theory Logger
  imports Server_Config
begin

text \<open>
  \<open>common/logger/logger.go\<close>: the loggers of the server and the admin service. The parser of level names
  belongs to logrus and is an argument; a logger is its settings, and an entry's data is a map.
\<close>

datatype log_out = LogStdout | LogStderr | LogRotated string nat nat nat bool bool | LogWriter nat

text \<open>\<open>LogRotated file size backups age localtime compress\<close>; the limits are the constants of the file.\<close>

definition rotated :: "string \<Rightarrow> log_out" where
  "rotated path = LogRotated path 1024 5 3 True True"

datatype log_format = FormatJSON | FormatText

record 'lv logger =
  lg_out :: log_out
  lg_format :: log_format
  lg_level :: 'lv
  lg_hooks :: "(string \<times> string) list list"

definition Logger_New :: "(string \<Rightarrow> 'lv option) \<Rightarrow> 'lv \<Rightarrow> string \<Rightarrow> string \<Rightarrow> log_out option \<Rightarrow> 'lv logger" where
  "Logger_New parse_level info_level level format out =
     \<lparr>lg_out = (case out of None \<Rightarrow> LogStdout | Some w \<Rightarrow> w),
       lg_format = (if ToLower_is format ''json'' then FormatJSON else FormatText),
       lg_level = (case parse_level (TrimSpace level) of
                     None \<Rightarrow> info_level
                   | Some lv \<Rightarrow> if level = '''' then info_level else lv),
       lg_hooks = []\<rparr>"

definition Logger_Open :: "string \<Rightarrow> log_out" where
  "Logger_Open path =
     (let trim = TrimSpace path in
      if ToLower_is trim '''' \<or> ToLower_is trim ''stdout'' then LogStdout
      else if ToLower_is trim ''stderr'' then LogStderr
      else if trim = '''' then LogStdout
      else rotated trim)"

text \<open>The closer does something for files only; it closes the file.\<close>

definition closes_file :: "log_out \<Rightarrow> bool" where
  "closes_file w = (case w of LogRotated _ _ _ _ _ _ \<Rightarrow> True | _ \<Rightarrow> False)"

definition WithBaseFields :: "'lv logger \<Rightarrow> (string \<times> string) list \<Rightarrow> 'lv logger" where
  "WithBaseFields l base = l\<lparr>lg_hooks := lg_hooks l @ [base]\<rparr>"

text \<open>The hook; \<open>base\<close> lists the fields in the order in which the loop meets them.\<close>

fun Fire :: "(string \<times> string) list \<Rightarrow> (string \<rightharpoonup> string) \<Rightarrow> (string \<rightharpoonup> string)" where
  "Fire [] data = data"
| "Fire ((k, v) # base) data = Fire base (if data k = None then data(k \<mapsto> v) else data)"

definition Build :: "(string \<Rightarrow> 'lv option) \<Rightarrow> 'lv \<Rightarrow> string \<Rightarrow> string \<Rightarrow> string \<Rightarrow> string \<Rightarrow> 'lv logger" where
  "Build parse_level info_level level format out stream =
     WithBaseFields (Logger_New parse_level info_level level format (Some (Logger_Open out))) [(''stream'', stream)]"

text \<open>Fields of the call site win over base fields, in whatever order the map is walked.\<close>

lemma Fire_fields: "distinct (map fst base) \<Longrightarrow> Fire base data = map_of base ++ data"
proof (induction base data rule: Fire.induct)
  case (2 k v base data)
  have "Fire base (if data k = None then data(k \<mapsto> v) else data) = map_of base ++ (if data k = None then data(k \<mapsto> v) else data)"
    using 2 by simp
  moreover have "map_of base k = None" using 2(2) by (simp add: map_of_eq_None_iff)
  ultimately show ?case by (auto simp: fun_eq_iff map_add_def split: option.split)
qed (simp add: map_add_def)

lemma Fire_order: "distinct (map fst b1) \<Longrightarrow> distinct (map fst b2) \<Longrightarrow> map_of b1 = map_of b2 \<Longrightarrow> Fire b1 data = Fire b2 data"
  by (simp add: Fire_fields)

end
