(* ===== verification/Server_Main.thy ===== *)
theory Server_Main
  imports Socks_Setup Dial_Request Heartbeat_Sink Logger
begin

text \<open>
  \<open>server/main.go\<close>: how the server is put together, and how it stops. What each constructor meets is in a
  record; the boot sequence returns its effects in order, up to the first failure, at which the
  process exits. (\<open>OnHeartbeat\<close> is in \<open>Heartbeat_Sink\<close>, \<open>buildDialAndRequest\<close> in \<open>Dial_Request\<close>.)

  The lemmas show that nobody is served before the allowlist and the credentials are configured, and
  which devices a shutdown waits for.
\<close>

definition nonEmpty :: "string \<Rightarrow> string \<Rightarrow> string" where
  "nonEmpty s fallback = (if s = '''' then fallback else s)"

subsection \<open>Loops of the main goroutines\<close>

datatype sighup_event = HupDone | HupReload "nat option"   \<comment> \<open>the new reader, if it can be opened\<close>

fun watchSIGHUP :: "sighup_event list \<Rightarrow> GeoLite2 \<Rightarrow> GeoLite2" where
  "watchSIGHUP [] g = g"
| "watchSIGHUP (HupDone # es) g = g"
| "watchSIGHUP (HupReload r # es) g =
     watchSIGHUP es (snd (Geo_Reload (\<lambda>_. case r of None \<Rightarrow> Inl () | Some r \<Rightarrow> Inr r) g))"

text \<open>A reload that fails keeps the database that is in use.\<close>

lemma watchSIGHUP_keeps: "gl_reader g = Some r \<Longrightarrow> gl_reader (watchSIGHUP es g) \<noteq> None"
  by (induction es g arbitrary: r rule: watchSIGHUP.induct) (auto simp: Geo_Reload_def Let_def split: option.splits)

datatype accept_event = AcceptConn nat | AcceptClosed | AcceptError

text \<open>The device listener: the connections that are served, and whether the loop goes on.\<close>

fun device_accept_loop :: "accept_event list \<Rightarrow> nat list \<times> bool" where
  "device_accept_loop [] = ([], True)"
| "device_accept_loop (AcceptConn c # es) = (case device_accept_loop es of (cs, on) \<Rightarrow> (c # cs, on))"
| "device_accept_loop (AcceptClosed # es) = ([], False)"
| "device_accept_loop (AcceptError # es) = ([], False)"

text \<open>Any error of \<open>Accept\<close>, also a temporary one, ends the service of new devices for good.\<close>

lemma accept_error_ends:
  "snd (device_accept_loop es) \<longleftrightarrow> (\<forall>e \<in> set es. \<exists>c. e = AcceptConn c)"
  "fst (device_accept_loop (map AcceptConn cs @ AcceptError # es)) = cs"
proof -
  show "snd (device_accept_loop es) \<longleftrightarrow> (\<forall>e \<in> set es. \<exists>c. e = AcceptConn c)"
    by (induction es rule: device_accept_loop.induct) (auto split: prod.splits)
  show "fst (device_accept_loop (map AcceptConn cs @ AcceptError # es)) = cs"
    by (induction cs) (auto split: prod.splits)
qed

subsection \<open>Boot\<close>

text \<open>The settings of the selector: what the configuration sets replaces the default.\<close>

definition boot_selector :: "ServerCfg \<Rightarrow> ScoredSelector" where
  "boot_selector cfg =
     (let sel = NewScoredSelector;
          sel = (if f64_lt (Fin 0) (SchedulerLossPenaltyMs cfg) then sel\<lparr>LossPenaltyMs := SchedulerLossPenaltyMs cfg\<rparr> else sel);
          sel = (if SchedulerDefaultRTTms cfg > 0 then sel\<lparr>DefaultRTTms := SchedulerDefaultRTTms cfg\<rparr> else sel);
          sel = (if SchedulerStaleAfter cfg > 0 then sel\<lparr>StaleAfter := SchedulerStaleAfter cfg\<rparr> else sel)
      in sel)"

datatype boot_effect =
    BootGeo string
  | BootNSQ string
  | BootSweeper duration
  | BootCert
  | BootDeviceListen
  | BootSocksListen
  | BootCloseDeviceListener
  | BootDeviceAccept
  | BootRules
  | BootAuth
  | BootServe

datatype 'e boot_error =
    BootConfigErr config_error
  | BootGeoErr 'e
  | BootNSQErr 'e
  | BootSchedErr new_error
  | BootCertErr 'e
  | BootDeviceListenErr 'e
  | BootSocksListenErr 'e
  | BootRulesErr "'e wl_error"
  | BootAuthErr 'e

record 'e boot_env =
  be_cfg :: "config_error + ServerCfg"
  be_geo :: "'e + GeoLite2"
  be_nsq :: "'e + NSQPublisher"
  be_cert :: "'e option"
  be_devListen :: "'e option"
  be_socksListen :: "'e option"
  be_fetch_url :: "string \<Rightarrow> 'e + string list"
  be_fetch_file :: "string \<Rightarrow> 'e + string list"
  be_fetch_creds :: "string \<Rightarrow> 'e cred_fetch"
  be_dur_str :: "duration \<Rightarrow> string"

record server =
  sv_cfg :: ServerCfg
  sv_geo :: "GeoLite2 option"
  sv_pub :: "NSQPublisher option"
  sv_sched :: "(Registry, ScoredSelector, unit) Scheduler option"
  sv_wl :: "IPWhitelistCache option"
  sv_auth :: auth_setup
  sv_creds :: CredentialCache
  sv_hint :: string

text \<open>
  The boot sequence. Each stage returns its effects and continues, or ends the process; the
  database and the publisher are opened when configured, the scheduler is built for its
  username scheme.
\<close>

definition boot_geo :: "'e boot_env \<Rightarrow> ServerCfg \<Rightarrow> 'e boot_error + (GeoLite2 option \<times> boot_effect list)" where
  "boot_geo be cfg =
     (if GeoIPDBPath cfg = '''' then Inr (None, [])
      else case be_geo be of Inl e \<Rightarrow> Inl (BootGeoErr e) | Inr g \<Rightarrow> Inr (Some g, [BootGeo (GeoIPDBPath cfg)]))"

definition boot_nsq :: "'e boot_env \<Rightarrow> ServerCfg \<Rightarrow> 'e boot_error + (NSQPublisher option \<times> boot_effect list)" where
  "boot_nsq be cfg =
     (if NSQdTCPAddr cfg = '''' then Inr (None, [])
      else case be_nsq be of Inl e \<Rightarrow> Inl (BootNSQErr e) | Inr p \<Rightarrow> Inr (Some p, [BootNSQ (NSQdTCPAddr cfg)]))"

definition boot_sched ::
    "ServerCfg \<Rightarrow> 'e boot_error + ((Registry, ScoredSelector, unit) Scheduler option \<times> boot_effect list)" where
  "boot_sched cfg =
     (if \<not> SchedulerEnabled cfg then Inr (None, [])
      else case Scheduler_New NewScoredSelector ()
             \<lparr>cfg_Lister = Some NewRegistry, cfg_Pool = Some NewPool, cfg_Leases = Some NewLeases,
              cfg_Selector = Some (boot_selector cfg), cfg_Log = Some ()\<rparr> of
             Inl e \<Rightarrow> Inl (BootSchedErr e)
           | Inr s \<Rightarrow> Inr (Some s, [BootSweeper (sweep_every (SchedulerSweepInterval cfg))]))"

text \<open>Certificate and listeners; the last error closes the device listener again.\<close>

definition boot_listen :: "'e boot_env \<Rightarrow> 'e boot_error option \<times> boot_effect list" where
  "boot_listen be =
     (case be_cert be of
        Some e \<Rightarrow> (Some (BootCertErr e), [])
      | None \<Rightarrow>
          (case be_devListen be of
             Some e \<Rightarrow> (Some (BootDeviceListenErr e), [BootCert])
           | None \<Rightarrow>
               (case be_socksListen be of
                  Some e \<Rightarrow> (Some (BootSocksListenErr e), [BootCert, BootDeviceListen, BootCloseDeviceListener])
                | None \<Rightarrow> (None, [BootCert, BootDeviceListen, BootSocksListen, BootDeviceAccept]))))"

definition server_boot :: "'e boot_env \<Rightarrow> ('e boot_error + server) \<times> boot_effect list" where
  "server_boot be =
     (case be_cfg be of
        Inl e \<Rightarrow> (Inl (BootConfigErr e), [])
      | Inr cfg \<Rightarrow>
     (case boot_geo be cfg of
        Inl e \<Rightarrow> (Inl e, [])
      | Inr (geo, eff1) \<Rightarrow>
     (case boot_nsq be cfg of
        Inl e \<Rightarrow> (Inl e, eff1)
      | Inr (pub, eff2) \<Rightarrow>
     (case boot_sched cfg of
        Inl e \<Rightarrow> (Inl e, eff1 @ eff2)
      | Inr (sched, eff3) \<Rightarrow>
     (case boot_listen be of
        (Some e, eff4) \<Rightarrow> (Inl e, eff1 @ eff2 @ eff3 @ eff4)
      | (None, eff4) \<Rightarrow>
     (case BuildSocksRuleSet (be_fetch_url be) (be_fetch_file be) cfg of
        Inl e \<Rightarrow> (Inl (BootRulesErr e), eff1 @ eff2 @ eff3 @ eff4)
      | Inr wl \<Rightarrow>
     (case ConfigureSocksAuth (be_fetch_creds be) (be_dur_str be) cfg of
        Inl e \<Rightarrow> (Inl (BootAuthErr e), eff1 @ eff2 @ eff3 @ eff4 @ [BootRules])
      | Inr (auth, creds, hint) \<Rightarrow>
          (Inr \<lparr>sv_cfg = cfg, sv_geo = geo, sv_pub = pub, sv_sched = sched, sv_wl = wl, sv_auth = auth,
             sv_creds = creds, sv_hint = hint\<rparr>,
           eff1 @ eff2 @ eff3 @ eff4 @ [BootRules, BootAuth, BootServe]))))))))"

lemma boot_sched_ok:
  "\<exists>s effs. boot_sched cfg = Inr (s, effs) \<and> BootServe \<notin> set effs \<and> (s = None \<longleftrightarrow> \<not> SchedulerEnabled cfg) \<and>
     (\<forall>x. s = Some x \<longrightarrow> sch_Selector x = boot_selector cfg)"
  by (simp add: boot_sched_def Scheduler_New_def)

lemma boot_no_serve:
  "boot_geo be cfg = Inr (g, effs) \<Longrightarrow> BootServe \<notin> set effs"
  "boot_nsq be cfg = Inr (p, effs) \<Longrightarrow> BootServe \<notin> set effs"
  "boot_listen be = (r, effs) \<Longrightarrow> BootServe \<notin> set effs"
  by (auto simp: boot_geo_def boot_nsq_def boot_listen_def split: if_splits sum.splits option.splits)


definition demo_boot :: "string + string list \<Rightarrow> string boot_env" where
  "demo_boot wl = \<lparr>be_cfg = Inr demo_cfg, be_geo = Inl ''no db'', be_nsq = Inl ''no nsqd'', be_cert = None, be_devListen = None,
     be_socksListen = None, be_fetch_url = (\<lambda>_. Inl ''no url''), be_fetch_file = (\<lambda>_. wl),
     be_fetch_creds = (\<lambda>_. demo_creds), be_dur_str = (\<lambda>_. '''')\<rparr>"

lemma demo_boots:
  "\<not> isl (fst (server_boot (demo_boot (Inr [''192.0.2.0/24'']))))" "isl (fst (server_boot (demo_boot (Inr [''192.0.2.0/99'']))))"
  by code_simp+


subsection \<open>Shutdown\<close>

text \<open>
  The device connections of the accept loop: \<open>sh_fresh\<close> are served but have not registered, \<open>sh_live\<close> have, with
  their ids. A goroutine returns when its session is closed (\<open>ShReturn\<close>) or for a reason of its
  device (\<open>ShGiveUp\<close>, \<open>ShRemote\<close>: the connection breaks, or its watchdog fires).
\<close>

record shut_state =
  sh_reg :: Registry
  sh_fresh :: "nat set"
  sh_live :: "nat \<rightharpoonup> string"
  sh_listening :: bool
  sh_next :: nat

datatype shut_call =
    ShAccept
  | ShRegister nat string
  | ShGiveUp nat
  | ShReturn nat
  | ShRemote nat
  | ShCloseListeners

definition sh_leave :: "nat \<Rightarrow> string \<Rightarrow> shut_state \<Rightarrow> shut_state" where
  "sh_leave n d s = s\<lparr>sh_live := (sh_live s)(n := None), sh_reg := sess_Close (Sess n) (Remove d (Sess n) (sh_reg s))\<rparr>"

inductive shut_step :: "shut_state \<Rightarrow> shut_call \<Rightarrow> shut_state \<Rightarrow> bool" where
  sh_accept: "sh_listening s \<Longrightarrow> shut_step s ShAccept (s\<lparr>sh_fresh := insert (sh_next s) (sh_fresh s), sh_next := Suc (sh_next s)\<rparr>)"
| sh_register: "n \<in> sh_fresh s \<Longrightarrow> shut_step s (ShRegister n d)
    (s\<lparr>sh_fresh := sh_fresh s - {n}, sh_live := (sh_live s)(n \<mapsto> d), sh_reg := Put d (Sess n) (sh_reg s)\<rparr>)"
| sh_giveup: "n \<in> sh_fresh s \<Longrightarrow> shut_step s (ShGiveUp n) (s\<lparr>sh_fresh := sh_fresh s - {n}\<rparr>)"
| sh_return: "sh_live s n = Some d \<Longrightarrow> n \<in> reg_closed (sh_reg s) \<Longrightarrow> shut_step s (ShReturn n) (sh_leave n d s)"
| sh_remote: "sh_live s n = Some d \<Longrightarrow> shut_step s (ShRemote n) (sh_leave n d s)"
| sh_close: "shut_step s ShCloseListeners (s\<lparr>sh_listening := False\<rparr>)"

inductive_cases shut_stepE: "shut_step s c s'"

definition shut_init :: shut_state where
  "shut_init = \<lparr>sh_reg = NewRegistry, sh_fresh = {}, sh_live = Map.empty, sh_listening = True, sh_next = 0\<rparr>"

text \<open>\<open>reg.CloseAll()\<close>, and what the wait group waits for.\<close>

definition sh_close_all :: "string list \<Rightarrow> shut_state \<Rightarrow> shut_state" where
  "sh_close_all ids s = s\<lparr>sh_reg := CloseAll ids (sh_reg s)\<rparr>"

definition all_done :: "shut_state \<Rightarrow> bool" where
  "all_done s \<longleftrightarrow> sh_fresh s = {} \<and> sh_live s = Map.empty"

text \<open>What happens without the devices.\<close>

definition local_call :: "shut_call \<Rightarrow> bool" where
  "local_call c \<longleftrightarrow> (\<exists>n. c = ShReturn n)"

text \<open>Every live session is closed or bound to its device.\<close>

definition shut_inv :: "shut_state \<Rightarrow> bool" where
  "shut_inv s \<longleftrightarrow> finite (dom (sh_live s)) \<and> (\<forall>n \<in> sh_fresh s. n < sh_next s \<and> n \<notin> dom (sh_live s) \<and> n \<notin> reg_closed (sh_reg s)) \<and>
     (\<forall>n \<in> reg_closed (sh_reg s). n < sh_next s) \<and>
     (\<forall>n d. sh_live s n = Some d \<longrightarrow> n < sh_next s \<and> (n \<in> reg_closed (sh_reg s) \<or> reg_sessions (sh_reg s) d = Some (Sess n))) \<and>
     (\<forall>d p. reg_sessions (sh_reg s) d = Some p \<longrightarrow> (\<exists>n. p = Sess n \<and> sh_live s n = Some d))"

lemma shut_bound: "shut_inv s \<Longrightarrow> reg_sessions (sh_reg s) d = Some p \<Longrightarrow> \<exists>n. p = Sess n \<and> sh_live s n = Some d"
  unfolding shut_inv_def by blast

lemma shut_bound_Sess: "shut_inv s \<Longrightarrow> reg_sessions (sh_reg s) d = Some (Sess n) \<Longrightarrow> sh_live s n = Some d"
  using shut_bound by fastforce

lemma shut_open: "shut_inv s \<Longrightarrow> sh_live s n = Some d \<Longrightarrow> n < sh_next s \<and> (n \<in> reg_closed (sh_reg s) \<or> reg_sessions (sh_reg s) d = Some (Sess n))"
  unfolding shut_inv_def by blast

lemma shut_inv_init: "shut_inv shut_init"
  by (simp add: shut_inv_def shut_init_def NewRegistry_def)

lemma reg_closed_Put: "reg_closed (Put d (Sess n) r) = reg_closed r \<union> {k. reg_sessions r d = Some (Sess k)}"
  by (cases "reg_sessions r d"; (cases "the (reg_sessions r d)")?) (auto simp: Put_def Let_def)

lemma reg_closed_Remove: "reg_closed (Remove d p r) = reg_closed r"
  by (simp add: Remove_def split: option.split)

lemma CloseAll_close_fields:
  "reg_sessions (CloseAll_close ps r) = reg_sessions r \<and> reg_closed (CloseAll_close ps r) = reg_closed r \<union> {n. Sess n \<in> set ps}"
proof (induction ps arbitrary: r)
  case (Cons p ps)
  then show ?case by (cases p) auto
qed simp

lemma CloseAll_fields:
  assumes "enumerates ids (reg_sessions r)"
  shows "reg_sessions (CloseAll ids r) = reg_sessions r"
    and "reg_closed (CloseAll ids r) = reg_closed r \<union> {n. \<exists>d. reg_sessions r d = Some (Sess n)}"
proof -
  have "set ids = dom (reg_sessions r)" using assms by (simp add: enumerates_def)
  then have "{n. Sess n \<in> set (CloseAll_copy ids r)} = {n. \<exists>d. reg_sessions r d = Some (Sess n)}"
    by (force simp: CloseAll_copy_def map_filter_def domI)
  then show "reg_sessions (CloseAll ids r) = reg_sessions r"
    "reg_closed (CloseAll ids r) = reg_closed r \<union> {n. \<exists>d. reg_sessions r d = Some (Sess n)}"
    using CloseAll_close_fields[of "CloseAll_copy ids r" r] by (simp_all add: CloseAll_def)
qed

lemma sh_leave_fields:
  "sh_live (sh_leave n d s) = (sh_live s)(n := None)"
  "reg_closed (sh_reg (sh_leave n d s)) = insert n (reg_closed (sh_reg s))"
  "reg_sessions (sh_reg (sh_leave n d s)) d' =
     (if d' = d \<and> reg_sessions (sh_reg s) d = Some (Sess n) then None else reg_sessions (sh_reg s) d')"
  "sh_fresh (sh_leave n d s) = sh_fresh s" "sh_next (sh_leave n d s) = sh_next s"
  by (simp_all add: sh_leave_def reg_closed_Remove reg_sessions_Remove)

lemma shut_inv_leave: "shut_inv s \<Longrightarrow> sh_live s n = Some d \<Longrightarrow> shut_inv (sh_leave n d s)"
proof -
  assume inv: "shut_inv s" and n: "sh_live s n = Some d"
  have "\<exists>m. p = Sess m \<and> ((sh_live s)(n := None)) m = Some d'"
    if "(if d' = d \<and> reg_sessions (sh_reg s) d = Some (Sess n) then None else reg_sessions (sh_reg s) d') = Some p" for d' p
  proof -
    have "reg_sessions (sh_reg s) d' = Some p" using that by (auto split: if_splits)
    then obtain m where m: "p = Sess m" "sh_live s m = Some d'" using shut_bound[OF inv] by blast
    then have "m \<noteq> n" using that n by (auto split: if_splits)
    then show ?thesis using m by auto
  qed
  moreover have "k < sh_next s \<and> (k \<in> insert n (reg_closed (sh_reg s)) \<or>
      (if e = d \<and> reg_sessions (sh_reg s) d = Some (Sess n) then None else reg_sessions (sh_reg s) e) = Some (Sess k))"
    if "((sh_live s)(n := None)) k = Some e" for k e
    using that shut_open[OF inv, of k e] by (auto split: if_splits)
  moreover have "finite (dom ((sh_live s)(n := None)))"
    "\<forall>k \<in> sh_fresh s. k < sh_next s \<and> k \<notin> dom ((sh_live s)(n := None)) \<and> k \<notin> insert n (reg_closed (sh_reg s))"
    "\<forall>k \<in> insert n (reg_closed (sh_reg s)). k < sh_next s"
    using inv n unfolding shut_inv_def by auto
  ultimately show "shut_inv (sh_leave n d s)"
    unfolding shut_inv_def sh_leave_fields by blast
qed

lemma shut_inv_register:
  assumes "n \<in> sh_fresh s" "shut_inv s"
  shows "shut_inv (s\<lparr>sh_fresh := sh_fresh s - {n}, sh_live := (sh_live s)(n \<mapsto> d), sh_reg := Put d (Sess n) (sh_reg s)\<rparr>)"
    (is "shut_inv ?s")
proof -
  let ?old = "{k. reg_sessions (sh_reg s) d = Some (Sess k)}"
  have sel: "sh_live ?s = (sh_live s)(n \<mapsto> d)" "sh_fresh ?s = sh_fresh s - {n}" "sh_next ?s = sh_next s"
    "reg_sessions (sh_reg ?s) = (reg_sessions (sh_reg s))(d \<mapsto> Sess n)"
    "reg_closed (sh_reg ?s) = reg_closed (sh_reg s) \<union> ?old"
    by (simp_all add: reg_closed_Put)
  have n: "n < sh_next s" "sh_live s n = None" "n \<notin> reg_closed (sh_reg s)"
    using assms unfolding shut_inv_def by blast+
  have old: "k \<in> dom (sh_live s) \<and> k < sh_next s \<and> k \<notin> sh_fresh s" if k: "k \<in> ?old" for k
  proof -
    obtain e where "sh_live s k = Some e" using k shut_bound_Sess[OF assms(2)] by blast
    then show ?thesis using assms(2) shut_open[OF assms(2)] unfolding shut_inv_def by blast
  qed
  have live: "k < sh_next s \<and> (k \<in> reg_closed (sh_reg s) \<union> ?old \<or> ((reg_sessions (sh_reg s))(d \<mapsto> Sess n)) e = Some (Sess k))"
    if "((sh_live s)(n \<mapsto> d)) k = Some e" for k e
    using that n(1) shut_open[OF assms(2), of k e] by (auto split: if_splits)
  have bound: "\<exists>k. p = Sess k \<and> ((sh_live s)(n \<mapsto> d)) k = Some e"
    if "((reg_sessions (sh_reg s))(d \<mapsto> Sess n)) e = Some p" for p e
  proof (cases "e = d")
    case False
    then obtain k where "p = Sess k" "sh_live s k = Some e" using \<open>_ = Some p\<close> shut_bound[OF assms(2), of e p] by auto
    then show ?thesis using n(2) by (intro exI[of _ k]) auto
  qed (use \<open>_ = Some p\<close> in auto)
  have "finite (dom ((sh_live s)(n \<mapsto> d)))" "\<forall>k \<in> reg_closed (sh_reg s) \<union> ?old. k < sh_next s"
    "\<forall>k \<in> sh_fresh s - {n}. k < sh_next s \<and> k \<notin> dom ((sh_live s)(n \<mapsto> d)) \<and> k \<notin> reg_closed (sh_reg s) \<union> ?old"
    using assms(2) old unfolding shut_inv_def by auto
  then show ?thesis using live bound unfolding shut_inv_def sel by blast
qed

lemma shut_inv_step: "shut_step s c s' \<Longrightarrow> shut_inv s \<Longrightarrow> shut_inv s'"
proof (induction rule: shut_step.induct)
  case (sh_accept s)
  then show ?case by (auto simp: shut_inv_def less_Suc_eq)
next
  case (sh_register n s d)
  then show ?case by (rule shut_inv_register)
next
  case (sh_giveup n s)
  then show ?case by (auto simp: shut_inv_def)
next
  case (sh_return s n d)
  then show ?case by (intro shut_inv_leave)
next
  case (sh_remote s n d)
  then show ?case by (intro shut_inv_leave)
next
  case (sh_close s)
  then show ?case by (simp add: shut_inv_def)
qed

interpretation shutdown: step_system "\<lambda>s. s = shut_init" shut_step shut_inv
  by unfold_locales (auto simp: shut_inv_init intro: shut_inv_step)

lemma shut_inv_CloseAll:
  assumes "shut_inv s" "enumerates ids (reg_sessions (sh_reg s))"
  shows "shut_inv (sh_close_all ids s)" "\<forall>n \<in> dom (sh_live s). n \<in> reg_closed (sh_reg (sh_close_all ids s))"
proof -
  let ?new = "{n. \<exists>d. reg_sessions (sh_reg s) d = Some (Sess n)}"
  have sel: "sh_live (sh_close_all ids s) = sh_live s" "sh_fresh (sh_close_all ids s) = sh_fresh s"
    "sh_next (sh_close_all ids s) = sh_next s" "reg_sessions (sh_reg (sh_close_all ids s)) = reg_sessions (sh_reg s)"
    "reg_closed (sh_reg (sh_close_all ids s)) = reg_closed (sh_reg s) \<union> ?new"
    by (simp_all add: sh_close_all_def CloseAll_fields[OF assms(2)])
  have new: "n \<in> dom (sh_live s) \<and> n < sh_next s \<and> n \<notin> sh_fresh s" if n: "n \<in> ?new" for n
  proof -
    obtain d where "sh_live s n = Some d" using n shut_bound_Sess[OF assms(1)] by blast
    then show ?thesis using assms(1) shut_open[OF assms(1)] unfolding shut_inv_def by blast
  qed
  show "shut_inv (sh_close_all ids s)"
    using assms(1) new unfolding shut_inv_def sel by blast
  show "\<forall>n \<in> dom (sh_live s). n \<in> reg_closed (sh_reg (sh_close_all ids s))"
    unfolding sel using shut_open[OF assms(1)] by blast
qed

text \<open>Closed sessions go one after the other.\<close>

lemma drain:
  assumes "shut_inv s" "sh_fresh s = {}" "\<forall>n \<in> dom (sh_live s). n \<in> reg_closed (sh_reg s)"
  shows "\<exists>calls t. run shut_step s calls t \<and> all_done t \<and> list_all local_call calls"
proof -
  have "finite (dom (sh_live s))" using assms(1) by (simp add: shut_inv_def)
  then show ?thesis using assms(2,3)
  proof (induction "dom (sh_live s)" arbitrary: s rule: finite_psubset_induct)
    case psubset
    show ?case
    proof (cases "dom (sh_live s) = {}")
      case True
      then show ?thesis using psubset.prems by (intro exI[of _ "[]"] exI[of _ s]) (auto simp: all_done_def)
    next
      case False
      then obtain n d where n: "sh_live s n = Some d" by (metis domD ex_in_conv)
      let ?s = "sh_leave n d s"
      have "n \<in> reg_closed (sh_reg s)" using n psubset.prems by auto
      then have st: "shut_step s (ShReturn n) ?s" using n by (intro sh_return)
      have "dom (sh_live ?s) \<subset> dom (sh_live s)" using n by (auto simp: sh_leave_fields)
      moreover have "sh_fresh ?s = {}" using psubset.prems by (simp add: sh_leave_fields)
      moreover have "\<forall>m \<in> dom (sh_live ?s). m \<in> reg_closed (sh_reg ?s)" using psubset.prems by (auto simp: sh_leave_fields)
      ultimately obtain calls t where "run shut_step ?s calls t" "all_done t" "list_all local_call calls"
        using psubset.hyps(2)[of ?s] by blast
      then show ?thesis using st by (intro exI[of _ "ShReturn n # calls"] exI[of _ t]) (auto simp: local_call_def)
    qed
  qed
qed

text \<open>A session that is open stays so without its device, unless its id registers again.\<close>

lemma open_stays:
  assumes "run shut_step s calls t" "sh_live s n = Some d" "n \<notin> reg_closed (sh_reg s)" "shut_inv s"
    and "\<And>c. c \<in> set calls \<Longrightarrow> c \<noteq> ShRemote n \<and> (\<forall>k. c \<noteq> ShRegister k d)"
  shows "sh_live t n = Some d"
  using assms
proof (induction rule: run.induct)
  case (run_Cons s c s' calls t)
  have b: "reg_sessions (sh_reg s) d = Some (Sess n)" using run_Cons.prems by (auto simp: shut_inv_def)
  have c: "c \<noteq> ShRemote n" "\<And>k. c \<noteq> ShRegister k d" using run_Cons.prems(4)[of c] by auto
  from run_Cons.hyps(1) have "sh_live s' n = Some d \<and> n \<notin> reg_closed (sh_reg s')"
  proof (cases rule: shut_step.cases)
    case (sh_register m d')
    then have "d' \<noteq> d" "m \<noteq> n" using c(2) run_Cons.prems(1,3) by (auto simp: shut_inv_def)
    moreover have "reg_sessions (sh_reg s) d' \<noteq> Some (Sess n)"
      using \<open>d' \<noteq> d\<close> run_Cons.prems(1) shut_bound_Sess[OF run_Cons.prems(3), of d' n] by auto
    ultimately show ?thesis using sh_register run_Cons.prems(1,2) by (auto simp: reg_closed_Put)
  next
    case (sh_return m d')
    then have "m \<noteq> n" using run_Cons.prems(2) by auto
    then show ?thesis using sh_return run_Cons.prems(1,2) by (simp add: sh_leave_fields)
  next
    case (sh_remote m d')
    then have "m \<noteq> n" using c(1) by auto
    then show ?thesis using sh_remote run_Cons.prems(1,2) by (simp add: sh_leave_fields)
  qed (use run_Cons.prems(1,2) in auto)
  moreover have "shut_inv s'" using shut_inv_step run_Cons.hyps(1) run_Cons.prems(3) by blast
  ultimately show ?case using run_Cons.IH run_Cons.prems(4) by simp
qed simp

text \<open>
  C23. At shutdown \<open>CloseAll\<close> closes every session that has registered, so if no device is in its handshake,
  the goroutines can all return without any device's help; but one that registers afterwards is
  closed by nobody: unless its device disconnects or the same id registers again, the server
  waits for it until the timeout.
\<close>

theorem shutdown_waits_for_late_device:
  assumes "run shut_step shut_init calls s" "enumerates ids (reg_sessions (sh_reg s))"
  shows "(sh_fresh s = {} \<longrightarrow>
      (\<exists>post t. run shut_step (sh_close_all ids s) post t \<and> all_done t \<and> list_all local_call post)) \<and>
    (\<forall>n d post t. n \<in> sh_fresh s \<and> run shut_step (sh_close_all ids s) (ShRegister n d # post) t \<and>
      list_all (\<lambda>c. c \<noteq> ShRemote n \<and> (\<forall>k. c \<noteq> ShRegister k d)) post \<longrightarrow> \<not> all_done t)"
proof (intro conjI impI allI; (elim conjE)?)
  have inv: "shut_inv s" by (rule shutdown.history_inv[OF refl assms(1)])
  note ca = shut_inv_CloseAll[OF inv assms(2)]
  show "\<exists>post t. run shut_step (sh_close_all ids s) post t \<and> all_done t \<and> list_all local_call post"
    if "sh_fresh s = {}"
    using ca that by (intro drain) (auto simp: sh_close_all_def)
  show "\<not> all_done t" if n: "n \<in> sh_fresh s" "run shut_step (sh_close_all ids s) (ShRegister n d # post) t"
    "list_all (\<lambda>c. c \<noteq> ShRemote n \<and> (\<forall>k. c \<noteq> ShRegister k d)) post" for n d post t
  proof -
    obtain m where m: "shut_step (sh_close_all ids s) (ShRegister n d) m" "run shut_step m post t" using n(2) by auto
    have im: "shut_inv m" using shut_inv_step[OF m(1) ca(1)] .
    have "n \<notin> reg_closed (sh_reg (sh_close_all ids s))" "n \<in> sh_fresh (sh_close_all ids s)"
      using n(1) ca(1) by (auto simp: sh_close_all_def shut_inv_def)
    moreover have "reg_sessions (sh_reg (sh_close_all ids s)) d \<noteq> Some (Sess n)"
      using n(1) ca(1) shut_bound_Sess[OF ca(1)] by (force simp: sh_close_all_def shut_inv_def)
    ultimately have "sh_live m n = Some d" "n \<notin> reg_closed (sh_reg m)"
      using m(1) by (auto elim!: shut_stepE simp: reg_closed_Put)
    from open_stays[OF m(2) this im] n(3) have "sh_live t n = Some d" by (auto simp: list_all_iff)
    then show ?thesis by (auto simp: all_done_def)
  qed
qed

theorem shutdown_waits_for_late_device_witness:
  "\<exists>s t. run shut_step shut_init [ShAccept] s \<and> run shut_step (sh_close_all [] s) [ShRegister 0 ''dev-1''] t \<and> \<not> all_done t"
proof -
  let ?s = "shut_init\<lparr>sh_fresh := {0}, sh_next := 1\<rparr>"
  have "shut_step shut_init ShAccept (shut_init\<lparr>sh_fresh := insert (sh_next shut_init) (sh_fresh shut_init),
      sh_next := Suc (sh_next shut_init)\<rparr>)" by (rule sh_accept) (simp add: shut_init_def)
  then have r: "run shut_step shut_init [ShAccept] ?s" by (simp add: shut_init_def)
  have "enumerates [] (reg_sessions (sh_reg ?s))" by (simp add: enumerates_def shut_init_def NewRegistry_def)
  note late = shutdown_waits_for_late_device[OF r this]
  let ?c = "sh_close_all [] ?s"
  let ?t = "?c\<lparr>sh_fresh := sh_fresh ?c - {0}, sh_live := (sh_live ?c)(0 \<mapsto> ''dev-1''), sh_reg := Put ''dev-1'' (Sess 0) (sh_reg ?c)\<rparr>"
  have "shut_step ?c (ShRegister 0 ''dev-1'') ?t" by (rule sh_register) (simp add: sh_close_all_def)
  then have t: "run shut_step ?c (ShRegister 0 ''dev-1'' # []) ?t" by simp
  have "\<not> all_done ?t"
    using late[THEN conjunct2, rule_format, of 0 "''dev-1''" "[]" ?t] t by simp
  then show ?thesis using r t by blast
qed

subsection \<open>The end of the process\<close>

text \<open>
  The end of \<open>main\<close>, after the signal: the listeners are closed, then the sessions, and then it waits for the
  goroutines, which are done after \<open>done\<close> (never, for \<open>None\<close>), but no longer than the timeout. The result says
  whether the shutdown was clean, and how long it waited.
\<close>

datatype exit_effect = ExitCloseDevices | ExitCloseSocks | ExitCloseAll

definition shutdown_timeout :: "ServerCfg \<Rightarrow> duration" where
  "shutdown_timeout cfg = (if ShutdownTimeout cfg \<le> 0 then 10 * 1000000000 else ShutdownTimeout cfg)"

definition server_exit :: "ServerCfg \<Rightarrow> duration option \<Rightarrow> exit_effect list \<times> bool \<times> duration" where
  "server_exit cfg done_at =
     ([ExitCloseDevices, ExitCloseSocks, ExitCloseAll],
      (case done_at of
         Some t \<Rightarrow> if t < shutdown_timeout cfg then (True, t) else (False, shutdown_timeout cfg)
       | None \<Rightarrow> (False, shutdown_timeout cfg)))"

text \<open>So the process ends, also when a device holds its goroutine.\<close>

lemma server_exit_bounded:
  "snd (snd (server_exit cfg done_at)) \<le> shutdown_timeout cfg" "0 < shutdown_timeout cfg"
  "fst (snd (server_exit cfg done_at)) \<longleftrightarrow> (\<exists>t. done_at = Some t \<and> t < shutdown_timeout cfg)"
  by (auto simp: server_exit_def shutdown_timeout_def split: option.split)

end
