(* ===== verification/Go_Rounding.thy ===== *)
theory Go_Rounding
  imports Go_Float
begin

text \<open>
  Bounds on rounding to \<open>float64\<close>: a rounded value lies between the representable values around the
  exact one, and large values stay large.
\<close>

subsection \<open>Bounds of rounding\<close>

lemma round_half_even_mono_int:
  "q \<le> of_int k \<Longrightarrow> round_half_even q \<le> k" "of_int k \<le> q \<Longrightarrow> k \<le> round_half_even q"
proof -
  let ?f = "\<lfloor>q\<rfloor>"
  have f: "of_int ?f \<le> q" "q < of_int ?f + 1" by linarith+
  have r: "round_half_even q = ?f \<or> round_half_even q = ?f + 1" by (simp add: round_half_even_def Let_def)
  show "of_int k \<le> q \<Longrightarrow> k \<le> round_half_even q"
    using r le_floor_iff[of k q] by auto
  show "round_half_even q \<le> k" if "q \<le> of_int k"
  proof (cases "?f < k")
    case True
    then show ?thesis using r by auto
  next
    case False
    then have "q = of_int k" using that f by linarith
    then show ?thesis by simp
  qed
qed

lemma ilog2_le:
  assumes "0 < q"
  shows "2 powi (ilog2 q) \<le> q"
proof -
  obtain a b where ab: "quotient_of q = (a, b)" by fastforce
  have b: "0 < b" using quotient_of_denom_pos[OF ab] .
  have q: "q = of_int a / of_int b" using quotient_of_div[OF ab] .
  then have a: "0 < a" using assms b by (simp add: zero_less_divide_iff)
  have ba: "0 < bits a" "2 ^ (bits a - 1) \<le> a" and bb: "b < 2 ^ bits b"
    using bits_bounds[OF a] bits_bounds[OF b] by simp_all
  let ?k = "int (bits a) - int (bits b)"
  have "(2::rat) powi (?k - 1) \<le> q"
  proof -
    have "?k - 1 = int (bits a - 1) - int (bits b)" using ba(1) by simp
    then have "(2::rat) powi (?k - 1) = 2 powi (int (bits a - 1)) / 2 powi (int (bits b))"
      by (simp only: power_int_diff simp_thms zero_neq_numeral[symmetric])
    also have "\<dots> = of_int (2 ^ (bits a - 1)) / of_int (2 ^ bits b)" by simp
    also have "\<dots> \<le> of_int a / of_int b"
      using ba(2) bb b a by (intro frac_le) (simp_all only: of_int_le_iff of_int_0_le_iff of_int_0_less_iff less_imp_le)
    finally show ?thesis using q by simp
  qed
  then show ?thesis by (simp add: ilog2_def ab Let_def)
qed

lemma ilog2_less:
  assumes "0 < q" "q < 2 powi e"
  shows "ilog2 q < e"
proof (rule ccontr)
  assume "\<not> ilog2 q < e"
  then have "(2::rat) powi e \<le> 2 powi (ilog2 q)" by (intro power_int_increasing) simp_all
  with ilog2_le[OF assms(1)] assms(2) show False by simp
qed

text \<open>The exponent of the last place of \<open>q\<close>.\<close>

definition ulp_exp :: "rat \<Rightarrow> int" where
  "ulp_exp q = max (ilog2 q - 52) (-1074)"

lemma f64_round_pos:
  assumes "0 < q" "ulp_exp q < 971"
  shows "f64_round q = Fin (of_int (round_half_even (q / 2 powi (ulp_exp q))) * 2 powi (ulp_exp q))"
proof -
  have no: "(ulp_exp q > 971 \<or> ulp_exp q = 971 \<and> x) = False" for x using assms(2) by simp
  have q: "\<bar>q\<bar> = q" "(q = 0) = False" "(q > 0) = True" using assms(1) by simp_all
  show ?thesis
    unfolding f64_round_def Let_def q ulp_exp_def[symmetric] no by simp
qed

lemma round_between:
  assumes "0 < q" "ulp_exp q < 971" "lo = of_int j * 2 powi (ulp_exp q)" "hi = of_int k * 2 powi (ulp_exp q)"
    and "lo \<le> q" "q \<le> hi"
  shows "\<exists>z. f64_round q = Fin z \<and> lo \<le> z \<and> z \<le> hi"
proof -
  let ?p = "2 powi (ulp_exp q) :: rat"
  have p: "0 < ?p" by simp
  have "of_int j \<le> q / ?p" "q / ?p \<le> of_int k"
    using assms(3-6) p by (simp_all add: pos_le_divide_eq pos_divide_le_eq)
  then have "j \<le> round_half_even (q / ?p)" "round_half_even (q / ?p) \<le> k"
    by (simp_all add: round_half_even_mono_int)
  then have "of_int j * ?p \<le> of_int (round_half_even (q / ?p)) * ?p" "of_int (round_half_even (q / ?p)) * ?p \<le> of_int k * ?p"
    using p by (simp_all add: mult_right_mono)
  then show ?thesis using f64_round_pos[OF assms(1,2)] assms(3,4) by simp
qed

lemma multiple_of_power:
  assumes "u \<le> v"
  shows "\<exists>j :: int. of_int k * 2 powi v = (of_int j * 2 powi u :: rat)"
proof -
  have "(2::rat) powi v = 2 powi (v - u) * 2 powi u" by (simp add: power_int_add[symmetric])
  also have "(2::rat) powi (v - u) = of_int (2 ^ nat (v - u))" using assms by (simp add: power_int_def)
  finally have "of_int k * 2 powi v = (of_int (k * 2 ^ nat (v - u)) * 2 powi u :: rat)" by simp
  then show ?thesis by blast
qed

lemma round_between_halves:
  assumes "0 < q" "q < 2 ^ 52" "of_int j / 2 \<le> q" "q \<le> of_int k / 2"
  shows "\<exists>z. f64_round q = Fin z \<and> of_int j / 2 \<le> z \<and> z \<le> of_int k / 2"
proof -
  have "q < 2 powi 52" using assms(2) by simp
  then have u: "ulp_exp q \<le> -1" using ilog2_less[OF assms(1), of 52] by (simp add: ulp_exp_def)
  obtain j' where j: "of_int j * 2 powi (-1) = (of_int j' * 2 powi (ulp_exp q) :: rat)"
    using multiple_of_power[OF u] by blast
  obtain k' where k: "of_int k * 2 powi (-1) = (of_int k' * 2 powi (ulp_exp q) :: rat)"
    using multiple_of_power[OF u] by blast
  have h: "x * 2 powi (-1) = x / 2" for x :: rat by (simp add: power_int_minus)
  show ?thesis
    using round_between[OF assms(1) _ j k] u assms(3,4) by (simp add: h)
qed

lemma round_between_ints:
  assumes "0 < q" "q < 2 ^ 53" "of_int j \<le> q" "q \<le> of_int k"
  shows "\<exists>z. f64_round q = Fin z \<and> of_int j \<le> z \<and> z \<le> of_int k"
proof -
  have "q < 2 powi 53" using assms(2) by simp
  then have u: "ulp_exp q \<le> 0" using ilog2_less[OF assms(1), of 53] by (simp add: ulp_exp_def)
  obtain j' where j: "of_int j * 2 powi 0 = (of_int j' * 2 powi (ulp_exp q) :: rat)"
    using multiple_of_power[OF u] by blast
  obtain k' where k: "of_int k * 2 powi 0 = (of_int k' * 2 powi (ulp_exp q) :: rat)"
    using multiple_of_power[OF u] by blast
  show ?thesis
    using round_between[OF assms(1) _ j k] u assms(3,4) by simp
qed

lemma round_large:
  assumes "2 ^ 53 \<le> q"
  shows "f64_round q = PInf \<or> (\<exists>z. f64_round q = Fin z \<and> 2 ^ 53 \<le> z)"
proof -
  have q: "0 < q" using assms by (rule less_le_trans[rotated]) simp
  have il: "53 \<le> ilog2 q"
  proof (rule ccontr)
    assume "\<not> 53 \<le> ilog2 q"
    obtain a b where ab: "quotient_of q = (a, b)" by fastforce
    have b: "0 < b" using quotient_of_denom_pos[OF ab] .
    have qd: "q = of_int a / of_int b" using quotient_of_div[OF ab] .
    then have "0 < a" using q b by (simp add: zero_less_divide_iff)
    then have ba: "a < 2 ^ bits a" and bb: "0 < bits b" "2 ^ (bits b - 1) \<le> b"
      using bits_bounds b by simp_all
    let ?k = "int (bits a) - int (bits b)"
    have "q < 2 powi (?k + 1)"
    proof -
      have "q < of_int (2 ^ bits a) / of_int (2 ^ (bits b - 1))"
        unfolding qd using ba bb b \<open>0 < a\<close>
        by (intro frac_less) (simp_all only: of_int_less_iff of_int_le_iff of_int_0_le_iff less_imp_le of_int_0_less_iff zero_less_power zero_less_numeral)
      also have "\<dots> = 2 powi (int (bits a)) / 2 powi (int (bits b - 1))" by simp
      also have "\<dots> = 2 powi (int (bits a) - int (bits b - 1))"
        by (simp only: power_int_diff simp_thms zero_neq_numeral[symmetric])
      also have "int (bits a) - int (bits b - 1) = ?k + 1" using bb(1) by simp
      finally show ?thesis .
    qed
    moreover have "?k = ilog2 q \<or> (?k = ilog2 q + 1 \<and> q < 2 powi ?k)" by (simp add: ilog2_def ab Let_def)
    ultimately have "q < 2 powi (ilog2 q + 1)" by auto
    also have "\<dots> \<le> 2 powi 53" using \<open>\<not> 53 \<le> ilog2 q\<close> by (intro power_int_increasing) simp_all
    finally show False using assms by simp
  qed
  let ?u = "ulp_exp q"
  have u: "?u = ilog2 q - 52" "1 \<le> ?u" using il by (simp_all add: ulp_exp_def)
  show ?thesis
  proof (cases "?u < 971")
    case True
    have "(2::rat) powi (ilog2 q) = 2 powi (52 + ?u)" using u by simp
    also have "\<dots> = of_int (2 ^ 52) * 2 powi ?u" by (simp add: power_int_add)
    finally have lo: "2 powi (ilog2 q) = (of_int (2 ^ 52) * 2 powi ?u :: rat)" .
    have "of_int (2 ^ 52) \<le> q / 2 powi ?u"
      using ilog2_le[OF q] lo by (simp add: pos_le_divide_eq)
    then have m: "2 ^ 52 \<le> round_half_even (q / 2 powi ?u)" by (rule round_half_even_mono_int)
    have "(2::rat) ^ 53 = of_int (2 ^ 52) * 2 powi 1" by simp
    also have "\<dots> \<le> of_int (2 ^ 52) * 2 powi ?u" using u by (intro mult_left_mono power_int_increasing) simp_all
    also have "\<dots> \<le> of_int (round_half_even (q / 2 powi ?u)) * 2 powi ?u"
      using m by (intro mult_right_mono) (simp_all only: of_int_le_iff zero_le_power_int zero_le_numeral)
    finally show ?thesis using f64_round_pos[OF q True] by simp
  next
    case False
    have "round_half_even (\<bar>q\<bar> / 2 powi ?u) \<ge> 2 ^ 52"
    proof (rule round_half_even_mono_int)
      have "(2::rat) powi (ilog2 q) = 2 powi (52 + ?u)" using u by simp
      also have "\<dots> = of_int (2 ^ 52) * 2 powi ?u" by (simp add: power_int_add)
      finally show "of_int (2 ^ 52) \<le> \<bar>q\<bar> / 2 powi ?u" using ilog2_le[OF q] q by (simp add: pos_le_divide_eq)
    qed
    then have "(2::rat) ^ 53 \<le> of_int (round_half_even (\<bar>q\<bar> / 2 powi ?u)) * 2 powi ?u"
    proof -
      assume m: "2 ^ 52 \<le> round_half_even (\<bar>q\<bar> / 2 powi ?u)"
      have "(2::rat) ^ 53 = of_int (2 ^ 52) * 2 powi 1" by simp
      also have "\<dots> \<le> of_int (2 ^ 52) * 2 powi ?u" using u by (intro mult_left_mono power_int_increasing) simp_all
      also have "\<dots> \<le> of_int (round_half_even (\<bar>q\<bar> / 2 powi ?u)) * 2 powi ?u"
        using m by (intro mult_right_mono) (simp_all only: of_int_le_iff zero_le_power_int zero_le_numeral)
      finally show ?thesis .
    qed
    then show ?thesis using q by (auto simp: f64_round_def Let_def ulp_exp_def)
  qed
qed

end
