(* ===== verification/Backoff.thy ===== *)
theory Backoff
  imports Go_Rounding
begin

text \<open>
  \<open>client/core/backoff.go\<close>: the delay before the next connection attempt. The computation is in
  \<open>float64\<close>; the random factor is an argument. The delay is shown to
  stay between half of the capped exponential and that value.
\<close>

record reconnectBackoff =
  rb_initial :: duration
  rb_max :: duration
  rb_failures :: nat

definition newReconnectBackoff :: "duration \<Rightarrow> duration \<Rightarrow> reconnectBackoff" where
  "newReconnectBackoff initial mx =
     (let initial = (if initial \<le> 0 then Second else initial);
          mx = (if mx \<le> 0 \<or> mx < initial then 60 * Second else mx)
      in \<lparr>rb_initial = initial, rb_max = mx, rb_failures = 0\<rparr>)"

definition rb_Reset :: "reconnectBackoff \<Rightarrow> reconnectBackoff" where
  "rb_Reset b = b\<lparr>rb_failures := 0\<rparr>"

text \<open>\<open>math.Pow(2, n)\<close> is exact up to the largest exponent and infinite beyond it.\<close>

definition pow2 :: "nat \<Rightarrow> f64" where
  "pow2 n = (if n \<le> 1023 then Fin (2 ^ n) else PInf)"

text \<open>\<open>rnd\<close> is what \<open>rand.Float64\<close> returns, \<open>oob\<close> the conversion of values outside \<open>int64\<close>.\<close>

definition rb_Next :: "(f64 \<Rightarrow> int) \<Rightarrow> f64 \<Rightarrow> reconnectBackoff \<Rightarrow> duration \<times> reconnectBackoff" where
  "rb_Next oob rnd b =
     (let e = f64_mul (f64_of_int (rb_initial b)) (pow2 (rb_failures b));
          b = b\<lparr>rb_failures := Suc (rb_failures b)\<rparr>;
          e = (if f64_lt (f64_of_int (rb_max b)) e then f64_of_int (rb_max b) else e);
          base = f64_to_int64 oob e;
          jit = f64_add (Fin (1 / 2)) (f64_mul rnd (Fin (1 / 2)));
          d = f64_to_int64 oob (f64_mul (f64_of_int base) jit);
          d = (if d > rb_max b then rb_max b else d);
          d = (if d < Millisecond then Millisecond else d)
      in (d, b))"

subsection \<open>The bounds of the delay\<close>

lemma new_backoff:
  "0 < rb_initial (newReconnectBackoff i m) \<and> 0 < rb_max (newReconnectBackoff i m) \<and>
   rb_failures (newReconnectBackoff i m) = 0"
  by (simp add: newReconnectBackoff_def Let_def)

text \<open>The exponential value, capped: exact as long as it matters.\<close>

definition capped :: "reconnectBackoff \<Rightarrow> int" where
  "capped b = min (rb_max b) (rb_initial b * 2 ^ rb_failures b)"

lemma int_exact: "0 < n \<Longrightarrow> n < 2 ^ 53 \<Longrightarrow> f64_round (of_int n) = Fin (of_int n)"
  using f64_of_int_exact[of n] by (simp add: f64_of_int_def)

lemma cap_exact:
  assumes "0 < rb_initial b" "rb_initial b < 2 ^ 53" "0 < rb_max b" "rb_max b < 2 ^ 53"
  defines "e \<equiv> f64_mul (f64_of_int (rb_initial b)) (pow2 (rb_failures b))"
  shows "(if f64_lt (f64_of_int (rb_max b)) e then f64_of_int (rb_max b) else e) = Fin (of_int (capped b))"
proof -
  let ?i = "rb_initial b" and ?m = "rb_max b" and ?k = "rb_failures b"
  have i: "f64_of_int ?i = Fin (of_int ?i)" and m: "f64_of_int ?m = Fin (of_int ?m)"
    using f64_of_int_exact assms(1-4) by simp_all
  have big: "2 ^ 53 \<le> ?i * 2 ^ ?k \<Longrightarrow> capped b = ?m" using assms(4) by (simp add: capped_def)
  show ?thesis
  proof (cases "?k \<le> 1023")
    case True
    have e: "e = f64_round (of_int (?i * 2 ^ ?k))" using True by (simp add: e_def i pow2_def)
    show ?thesis
    proof (cases "?i * 2 ^ ?k < 2 ^ 53")
      case True
      define n where "n = ?i * 2 ^ ?k"
      have "e = Fin (of_int n)" unfolding e n_def using int_exact[OF _ True] assms(1) by simp
      moreover have "capped b = min ?m n" by (simp add: capped_def n_def)
      ultimately show ?thesis unfolding m by (cases "?m < n") (simp_all add: min_def)
    next
      case False
      have "(2::rat) ^ 53 = of_int (2 ^ 53)" by simp
      also have "\<dots> \<le> of_int (?i * 2 ^ ?k)" using False by (simp only: of_int_le_iff not_less)
      finally have "e = PInf \<or> (\<exists>z. e = Fin z \<and> 2 ^ 53 \<le> z)" unfolding e by (rule round_large)
      moreover have "(of_int ?m :: rat) < of_int (2 ^ 53)" using assms(4) by (simp only: of_int_less_iff)
      ultimately have "f64_lt (f64_of_int ?m) e" unfolding m by auto
      then show ?thesis using big False m by simp
    qed
  next
    case False
    have "e = PInf" using False assms(1) by (simp add: e_def i pow2_def f64_inf_def)
    moreover have "(2::int) ^ 53 \<le> 2 ^ ?k" using False by (intro power_increasing) simp_all
    then have "1 * 2 ^ 53 \<le> ?i * 2 ^ ?k" using assms(1) by (intro mult_mono) simp_all
    ultimately show ?thesis using big m by simp
  qed
qed

text \<open>The factor lies between one half and one.\<close>

lemma jitter_bounds:
  assumes "0 \<le> q" "q < 1"
  shows "\<exists>j. f64_add (Fin (1 / 2)) (f64_mul (Fin q) (Fin (1 / 2))) = Fin j \<and> 1 / 2 \<le> j \<and> j \<le> 1"
proof -
  have "\<exists>h. f64_round (q / 2) = Fin h \<and> 0 \<le> h \<and> h \<le> 1 / 2"
  proof (cases "q = 0")
    case False
    then show ?thesis using round_between_halves[of "q / 2" 0 1] assms by simp
  qed (simp add: f64_round_def)
  then obtain h where h: "f64_round (q / 2) = Fin h" "0 \<le> h" "h \<le> 1 / 2" by blast
  then show ?thesis using round_between_halves[of "1 / 2 + h" 1 2] by simp
qed

lemma trunc_between:
  assumes "of_int j \<le> z" "z \<le> of_int k" "0 \<le> j"
  shows "j \<le> trunc_rat z \<and> trunc_rat z \<le> k"
proof -
  have "0 \<le> (of_int j :: rat)" using assms(3) by simp
  then have "0 \<le> z" using assms(1) by (rule order_trans)
  moreover have "\<lfloor>z\<rfloor> \<le> k" using floor_mono[OF assms(2)] by simp
  ultimately show ?thesis using assms(1) by (simp add: trunc_rat_def le_floor_iff)
qed

lemma delay_bounds:
  assumes "0 < rb_initial b" "rb_initial b < 2 ^ 53" "0 < rb_max b" "rb_max b < 2 ^ 53"
    and "0 \<le> q" "q < 1"
  shows "max Millisecond (capped b div 2) \<le> fst (rb_Next oob (Fin q) b) \<and>
    fst (rb_Next oob (Fin q) b) \<le> max Millisecond (capped b) \<and>
    snd (rb_Next oob (Fin q) b) = b\<lparr>rb_failures := Suc (rb_failures b)\<rparr>"
proof -
  let ?c = "capped b"
  have c: "0 < ?c" "?c \<le> rb_max b" using assms by (simp_all add: capped_def)
  have cap: "(if f64_lt (f64_of_int (rb_max b)) (f64_mul (f64_of_int (rb_initial b)) (pow2 (rb_failures b)))
      then f64_of_int (rb_max b) else f64_mul (f64_of_int (rb_initial b)) (pow2 (rb_failures b))) = Fin (of_int ?c)"
    by (rule cap_exact[OF assms(1-4)])
  have "in_int64 ?c" "trunc_rat (of_int ?c) = ?c" using c assms(4) by (simp_all add: in_int64_def trunc_rat_def)
  then have base: "f64_to_int64 oob (Fin (of_int ?c)) = ?c" by (simp add: f64_to_int64_def)
  have cf: "f64_of_int ?c = Fin (of_int ?c)" using c assms(4) by (intro f64_of_int_exact) simp
  obtain j where j: "f64_add (Fin (1 / 2)) (f64_mul (Fin q) (Fin (1 / 2))) = Fin j" "1 / 2 \<le> j" "j \<le> 1"
    using jitter_bounds[OF assms(5,6)] by blast
  define p where "p = of_int ?c * j"
  have pp: "0 < p" using c(1) j(2) by (simp add: p_def)
  have "of_int ?c * (1 / 2) \<le> p" "p \<le> of_int ?c * 1"
    unfolding p_def using c(1) j(2,3) by (intro mult_left_mono; simp)+
  moreover have "of_int (?c div 2) \<le> (of_int ?c / 2 :: rat)"
  proof -
    have "2 * (?c div 2) \<le> ?c" by simp
    then have "(of_int (2 * (?c div 2)) :: rat) \<le> of_int ?c" by (simp only: of_int_le_iff)
    then show ?thesis by simp
  qed
  ultimately have pb: "of_int (?c div 2) \<le> p" "p \<le> of_int ?c" by simp_all
  have "(of_int ?c :: rat) < of_int (2 ^ 53)" using c(2) assms(4) by (simp only: of_int_less_iff)
  then have "p < 2 ^ 53" using pb(2) by simp
  then obtain z where z: "f64_round p = Fin z" "of_int (?c div 2) \<le> z" "z \<le> of_int ?c"
    using round_between_ints[OF pp _ pb] by blast
  have t: "?c div 2 \<le> trunc_rat z \<and> trunc_rat z \<le> ?c" using z(2,3) c(1) by (intro trunc_between) simp_all
  have "0 \<le> ?c div 2" using c(1) by simp
  then have "0 \<le> trunc_rat z" using t by linarith
  then have "in_int64 (trunc_rat z)" using t c assms(4) by (simp add: in_int64_def)
  then have d: "f64_to_int64 oob (f64_mul (f64_of_int ?c) (Fin j)) = trunc_rat z"
    using z(1) by (simp add: cf p_def[symmetric] f64_to_int64_def)
  have sel: "rb_max (b\<lparr>rb_failures := x\<rparr>) = rb_max b" for x by simp
  show ?thesis
    unfolding rb_Next_def Let_def sel cap base j(1) d using t c(2) by auto
qed

text \<open>
  C35. For delays below 104 days, after any number \<open>k\<close> of failures since the last reset, the next
  delay lies between half of \<open>min(max, initial * 2^k)\<close> and that value, and is at least a
  millisecond; neither the float conversions nor a power that overflows to infinity break this.
\<close>

theorem Next_bounds:
  assumes "0 < rb_initial b" "rb_initial b < 2 ^ 53" "0 < rb_max b" "rb_max b < 2 ^ 53"
    and "0 \<le> q" "q < 1"
  shows "max Millisecond (capped b div 2) \<le> fst (rb_Next oob (Fin q) b) \<and>
    fst (rb_Next oob (Fin q) b) \<le> max Millisecond (capped b) \<and>
    snd (rb_Next oob (Fin q) b) = b\<lparr>rb_failures := Suc (rb_failures b)\<rparr>"
  using assms by (rule delay_bounds)

definition demo_backoff :: reconnectBackoff where
  "demo_backoff = \<lparr>rb_initial = Second, rb_max = 60 * Second, rb_failures = 2000\<rparr>"

theorem Next_bounds_witness:
  "30 * Second \<le> fst (rb_Next (\<lambda>_. 0) (Fin (1 / 4)) demo_backoff) \<and>
   fst (rb_Next (\<lambda>_. 0) (Fin (1 / 4)) demo_backoff) \<le> 60 * Second"
proof -
  have "(60::int) \<le> 2 ^ 6" by simp
  also have "\<dots> \<le> 2 ^ 2000" by (intro power_increasing) simp_all
  finally have "60 * Second \<le> Second * 2 ^ 2000" by (simp only: mult.commute mult_le_cancel_left_pos zero_less_numeral)
  then have "capped demo_backoff = 60 * Second" by (simp only: capped_def demo_backoff_def reconnectBackoff.simps min_absorb1)
  then show ?thesis using Next_bounds[of demo_backoff "1 / 4" "\<lambda>_. 0"] by (simp add: demo_backoff_def)
qed

end
