(* ===== verification/Heartbeat_Stats.thy ===== *)
theory Heartbeat_Stats
  imports Go_Rounding
begin

text \<open>
  \<open>client/core/heartbeat.go\<close>: the device's sliding window of round-trip times and its loss counter.
  Each method runs under the mutex, so a history is a sequence of calls. The specification keeps
  every round-trip time ever measured; the refinement shows that the window of the code, which
  drops the oldest entry when it is full, reports the same numbers.
\<close>

text \<open>Go's integer division truncates towards zero.\<close>

definition go_quot :: "int \<Rightarrow> int \<Rightarrow> int" where
  "go_quot a b = sgn a * sgn b * (\<bar>a\<bar> div \<bar>b\<bar>)"

record HeartbeatStats =
  hs_rtts :: "int list"
  hs_sent :: int
  hs_lost :: int
  hs_window :: nat
  hs_netType :: "string option"

definition NewHeartbeatStats :: "int \<Rightarrow> HeartbeatStats" where
  "NewHeartbeatStats window =
     (let window = (if window \<le> 0 then 5 else window)
      in \<lparr>hs_rtts = [], hs_sent = 0, hs_lost = 0, hs_window = nat window, hs_netType = None\<rparr>)"

definition SetNetType :: "string \<Rightarrow> HeartbeatStats \<Rightarrow> HeartbeatStats" where
  "SetNetType t s = s\<lparr>hs_netType := Some t\<rparr>"

definition NetType :: "HeartbeatStats \<Rightarrow> string" where
  "NetType s = (case hs_netType s of Some v \<Rightarrow> if v \<noteq> '''' then v else '''' | None \<Rightarrow> '''')"

definition Sent :: "HeartbeatStats \<Rightarrow> HeartbeatStats" where
  "Sent s = s\<lparr>hs_sent := wrap64 (hs_sent s + 1)\<rparr>"

definition AckOK :: "int \<Rightarrow> HeartbeatStats \<Rightarrow> HeartbeatStats" where
  "AckOK rttMs s =
     (let rttMs = (if rttMs < 0 then 0 else rttMs);
          s = (if length (hs_rtts s) \<ge> hs_window s then s\<lparr>hs_rtts := tl (hs_rtts s)\<rparr> else s)
      in s\<lparr>hs_rtts := hs_rtts s @ [rttMs]\<rparr>)"

definition AckLost :: "HeartbeatStats \<Rightarrow> HeartbeatStats" where
  "AckLost s = s\<lparr>hs_lost := wrap64 (hs_lost s + 1)\<rparr>"

definition loss_rate :: "int \<Rightarrow> int \<Rightarrow> f64" where
  "loss_rate lost sent =
     (let lr = f64_div (f64_of_int lost) (f64_of_int sent);
          lr = (if f64_lt lr (Fin 0) then Fin 0 else lr);
          lr = (if f64_lt (Fin 1) lr then Fin 1 else lr)
      in lr)"

definition SnapshotForSend :: "HeartbeatStats \<Rightarrow> (int option \<times> f64 option) \<times> HeartbeatStats" where
  "SnapshotForSend s =
     (let avg = (if length (hs_rtts s) \<ge> hs_window s
                 then Some (go_quot (foldl (\<lambda>sum v. wrap64 (sum + v)) 0 (hs_rtts s)) (int (length (hs_rtts s))))
                 else None)
      in if hs_sent s \<ge> int (hs_window s)
         then ((avg, Some (loss_rate (hs_lost s) (hs_sent s))), s\<lparr>hs_sent := 0, hs_lost := 0\<rparr>)
         else ((avg, None), s))"

subsection \<open>Histories and their specification\<close>

datatype stats_call = StatSent | StatAckOK int | StatAckLost | StatSnapshot | StatNetType string

fun stats_run :: "stats_call list \<Rightarrow> HeartbeatStats \<Rightarrow> (int option \<times> f64 option) list" where
  "stats_run [] s = []"
| "stats_run (StatSent # cs) s = stats_run cs (Sent s)"
| "stats_run (StatAckOK r # cs) s = stats_run cs (AckOK r s)"
| "stats_run (StatAckLost # cs) s = stats_run cs (AckLost s)"
| "stats_run (StatSnapshot # cs) s = fst (SnapshotForSend s) # stats_run cs (snd (SnapshotForSend s))"
| "stats_run (StatNetType t # cs) s = stats_run cs (SetNetType t s)"

text \<open>The average of the last \<open>w\<close> of all round-trip times so far, newest first in \<open>rs\<close>.\<close>

definition spec_avg :: "nat \<Rightarrow> int list \<Rightarrow> int option" where
  "spec_avg w rs = (if length rs < w then None else Some (sum_list (take w rs) div int w))"

fun stats_spec :: "nat \<Rightarrow> stats_call list \<Rightarrow> int list \<Rightarrow> nat \<Rightarrow> nat \<Rightarrow> (int option \<times> f64 option) list" where
  "stats_spec w [] rs sent lost = []"
| "stats_spec w (StatSent # cs) rs sent lost = stats_spec w cs rs (Suc sent) lost"
| "stats_spec w (StatAckOK r # cs) rs sent lost = stats_spec w cs (max 0 r # rs) sent lost"
| "stats_spec w (StatAckLost # cs) rs sent lost = stats_spec w cs rs sent (Suc lost)"
| "stats_spec w (StatSnapshot # cs) rs sent lost =
     (if w \<le> sent then (spec_avg w rs, Some (loss_rate (int lost) (int sent))) # stats_spec w cs rs 0 0
      else (spec_avg w rs, None) # stats_spec w cs rs sent lost)"
| "stats_spec w (StatNetType t # cs) rs sent lost = stats_spec w cs rs sent lost"

definition stats_rel :: "nat \<Rightarrow> int list \<Rightarrow> nat \<Rightarrow> nat \<Rightarrow> HeartbeatStats \<Rightarrow> bool" where
  "stats_rel w rs sent lost s \<longleftrightarrow>
     hs_window s = w \<and> hs_rtts s = rev (take w rs) \<and> hs_sent s = int sent \<and> hs_lost s = int lost"

lemma sum_no_wrap:
  assumes "\<forall>x \<in> set xs. 0 \<le> x" "0 \<le> a" "a + sum_list xs < 2 ^ 63"
  shows "foldl (\<lambda>sum v. wrap64 (sum + v)) a xs = a + sum_list xs"
  using assms
proof (induction xs arbitrary: a)
  case (Cons x xs)
  have "0 \<le> sum_list xs" using Cons.prems(1) by (intro sum_list_nonneg) simp
  then have "in_int64 (a + x)" using Cons.prems by (simp add: in_int64_def)
  then show ?case using Cons by simp
qed simp

lemma sum_take_bound:
  fixes xs :: "int list"
  assumes "\<forall>x \<in> set xs. 0 \<le> x \<and> x \<le> b"
  shows "0 \<le> sum_list xs \<and> sum_list xs \<le> int (length xs) * b"
  using assms by (induction xs) (auto simp: algebra_simps)

lemma avg_refines:
  assumes "stats_rel w rs sent lost s" "0 < w" "\<forall>r \<in> set rs. 0 \<le> r \<and> r * int w < 2 ^ 63"
  shows "(if length (hs_rtts s) \<ge> hs_window s
     then Some (go_quot (foldl (\<lambda>sum v. wrap64 (sum + v)) 0 (hs_rtts s)) (int (length (hs_rtts s)))) else None)
    = spec_avg w rs"
proof (cases "length rs < w")
  case True
  then show ?thesis using assms(1) by (simp add: stats_rel_def spec_avg_def)
next
  case False
  let ?ts = "take w rs"
  have len: "length ?ts = w" using False by simp
  have "0 \<le> r \<and> r \<le> (2 ^ 63 - 1) div int w" if "r \<in> set ?ts" for r
  proof -
    have "r * int w \<le> 2 ^ 63 - 1" "0 \<le> r" using assms(3) in_set_takeD[OF that] by auto
    then have "r * int w div int w \<le> (2 ^ 63 - 1) div int w" using assms(2) by (intro zdiv_mono1) simp_all
    then show ?thesis using assms(2) \<open>0 \<le> r\<close> by simp
  qed
  then have b: "0 \<le> sum_list ?ts" "sum_list ?ts \<le> int w * ((2 ^ 63 - 1) div int w)"
    using sum_take_bound[of ?ts "(2 ^ 63 - 1) div int w"] len by auto
  moreover have "int w * ((2 ^ 63 - 1) div int w) \<le> 2 ^ 63 - 1"
    using mult_div_mod_eq[of "int w" "2 ^ 63 - 1"] pos_mod_sign[of "int w" "2 ^ 63 - 1"] assms(2) by linarith
  ultimately have lt: "sum_list ?ts < 2 ^ 63" by linarith
  have "sum_list (rev ?ts) = sum_list ?ts" by (simp add: sum_list_rev)
  then have f: "foldl (\<lambda>sum v. wrap64 (sum + v)) 0 (rev ?ts) = sum_list ?ts"
    using sum_no_wrap[of "rev ?ts" 0] lt assms(3) by (auto dest: in_set_takeD)
  have "go_quot (sum_list ?ts) (int w) = sum_list ?ts div int w"
    using b(1) assms(2) by (cases "sum_list ?ts = 0") (simp_all add: go_quot_def)
  then show ?thesis
    using assms(1) len False unfolding stats_rel_def spec_avg_def by (simp add: f)
qed

lemma AckOK_refines:
  assumes "stats_rel w rs sent lost s" "0 < w"
  shows "stats_rel w (max 0 r # rs) sent lost (AckOK r s)"
proof -
  obtain v where v: "w = Suc v" using assms(2) by (cases w) auto
  have m: "(if r < 0 then 0 else r) = max 0 r" by simp
  show ?thesis
  proof (cases "length rs < w")
    case True
    then have "take w rs = rs" "take v rs = rs" using v by simp_all
    then show ?thesis using assms(1) True v by (simp add: stats_rel_def AckOK_def Let_def m)
  next
    case False
    then have "take w rs = take v rs @ [rs ! v]" using v by (simp add: take_Suc_conv_app_nth)
    then show ?thesis using assms(1) False v by (simp add: stats_rel_def AckOK_def Let_def m)
  qed
qed

text \<open>The numbers of a history stay far below the range of \<open>int64\<close>.\<close>

lemma stats_refines:
  assumes "stats_rel w rs sent lost s" "0 < w" "\<forall>r \<in> set rs. 0 \<le> r \<and> r * int w < 2 ^ 63"
    and "\<forall>r. StatAckOK r \<in> set cs \<longrightarrow> r * int w < 2 ^ 63"
    and "int sent + int (length cs) < 2 ^ 63" "int lost + int (length cs) < 2 ^ 63"
  shows "stats_run cs s = stats_spec w cs rs sent lost"
  using assms
proof (induction w cs rs sent lost arbitrary: s rule: stats_spec.induct)
  case (2 w cs rs sent lost)
  have "stats_rel w rs (Suc sent) lost (Sent s)"
    using 2(2,6) by (simp add: stats_rel_def Sent_def in_int64_def add.commute)
  then show ?case using 2 by simp
next
  case (3 w r cs rs sent lost)
  have "max 0 r * int w < 2 ^ 63" using 3(5) by (auto simp: max_def)
  then show ?case using 3 AckOK_refines[OF 3(2,3), of r] by simp
next
  case (4 w cs rs sent lost)
  have "stats_rel w rs sent (Suc lost) (AckLost s)"
    using 4(2,7) by (simp add: stats_rel_def AckLost_def in_int64_def add.commute)
  then show ?case using 4 by simp
next
  case (5 w cs rs sent lost)
  note avg = avg_refines[OF 5(3-5)]
  have snap: "SnapshotForSend s =
      (if w \<le> sent then ((spec_avg w rs, Some (loss_rate (int lost) (int sent))), s\<lparr>hs_sent := 0, hs_lost := 0\<rparr>)
       else ((spec_avg w rs, None), s))"
    unfolding SnapshotForSend_def Let_def avg using 5(3) by (simp add: stats_rel_def)
  show ?case
  proof (cases "w \<le> sent")
    case True
    have "stats_rel w rs 0 0 (s\<lparr>hs_sent := 0, hs_lost := 0\<rparr>)" using 5(3) by (simp add: stats_rel_def)
    then show ?thesis using True 5(1)[OF True] 5(4-8) by (simp add: snap)
  next
    case False
    then show ?thesis using 5(2)[OF False 5(3)] 5(4-8) by (simp add: snap)
  qed
next
  case (6 w t cs rs sent lost)
  have "stats_rel w rs sent lost (SetNetType t s)" using 6(2) by (simp add: stats_rel_def SetNetType_def)
  then show ?case using 6 by simp
qed simp

lemma loss_rate_unit:
  assumes "0 \<le> lost" "lost \<le> sent" "0 < sent" "sent < 2 ^ 53"
  shows "\<exists>q. loss_rate lost sent = Fin q \<and> 0 \<le> q \<and> q \<le> 1"
proof -
  have f: "f64_of_int lost = Fin (of_int lost)" "f64_of_int sent = Fin (of_int sent)"
    using f64_of_int_exact assms by simp_all
  let ?q = "of_int lost / of_int sent :: rat"
  have "\<exists>z. f64_round ?q = Fin z \<and> 0 \<le> z \<and> z \<le> 1"
  proof (cases "lost = 0")
    case False
    have "(of_int lost :: rat) \<le> of_int sent" using assms(2) by (simp only: of_int_le_iff)
    then have "0 < ?q" "?q \<le> 1" using False assms by (simp_all add: divide_le_eq)
    then show ?thesis using round_between_ints[of ?q 0 1] by simp
  qed (simp add: f64_round_def)
  then show ?thesis using assms(3) by (auto simp: loss_rate_def f)
qed



end
