(* ===== verification/Client_Dial.thy ===== *)
theory Client_Dial
  imports Go_Net
begin

text \<open>
  The dialing half of \<open>client/core/run.go\<close>: the addresses of an Android lookup, the dial of the
  server and of the \<open>CONNECT\<close> targets, and the TLS settings. The dialer and the lookup are
  functions; every function that dials also returns the addresses it dialed, in order.
\<close>

definition ParseAddrsFromLookupString :: "string \<Rightarrow> string list" where
  "ParseAddrsFromLookupString s =
     (let s = TrimSpace s in
      if s = '''' then []
      else filter (\<lambda>l. l \<noteq> '''') (map TrimSpace (Split (CHR 0x0A) s)))"

text \<open>A lookup fails or returns strings; a dial of an address fails or returns a connection.\<close>

type_synonym 'e lookup_fun = "string \<Rightarrow> 'e + string list"
type_synonym ('e, 'c) dial_fun = "string \<Rightarrow> string \<Rightarrow> 'e + 'c"

text \<open>
  The loop over looked-up addresses: entries that are no addresses, or not of the family, are
  skipped; the first success wins; otherwise the error of the last dial, if there was one.
\<close>

fun try_addrs ::
    "(ip \<Rightarrow> bool) \<Rightarrow> (string \<Rightarrow> 'e + 'c) \<Rightarrow> string \<Rightarrow> string list \<Rightarrow> 'e option \<Rightarrow> ('e option + 'c) \<times> string list" where
  "try_addrs family dial port [] firstErr = (Inl firstErr, [])"
| "try_addrs family dial port (s # ss) firstErr =
     (case ParseIP s of
        None \<Rightarrow> try_addrs family dial port ss firstErr
      | Some a \<Rightarrow>
          if \<not> family a then try_addrs family dial port ss firstErr
          else let addr = JoinHostPort (ip_String a) port in
            (case dial addr of
               Inr c \<Rightarrow> (Inr c, [addr])
             | Inl e \<Rightarrow> (case try_addrs family dial port ss (Some e) of (r, tried) \<Rightarrow> (r, addr # tried))))"

datatype 'e server_dial_error = SdAddr | SdDial 'e | SdResolve 'e | SdNoAddresses | SdNoRoutable

definition dialServerTCP ::
    "('e, 'c) dial_fun \<Rightarrow> 'e lookup_fun option \<Rightarrow> string \<Rightarrow> ('e server_dial_error + 'c) \<times> string list" where
  "dialServerTCP dial lookup server_addr =
     (case SplitHostPort server_addr of
        None \<Rightarrow> (Inl SdAddr, [])
      | Some (host, port) \<Rightarrow>
          (case (lookup, ParseIP host) of
             (Some look, None) \<Rightarrow>
               (case look host of
                  Inl e \<Rightarrow> (Inl (SdResolve e), [])
                | Inr ips \<Rightarrow>
                    if length ips = 0 then (Inl SdNoAddresses, [])
                    else (case try_addrs (\<lambda>_. True) (dial ''tcp'') port ips None of
                            (Inr c, tried) \<Rightarrow> (Inr c, tried)
                          | (Inl (Some e), tried) \<Rightarrow> (Inl (SdDial e), tried)
                          | (Inl None, tried) \<Rightarrow> (Inl SdNoRoutable, tried)))
           | _ \<Rightarrow> (case dial ''tcp'' server_addr of
                     Inl e \<Rightarrow> (Inl (SdDial e), [server_addr])
                   | Inr c \<Rightarrow> (Inr c, [server_addr]))))"

record tls_config =
  tls_MinVersion :: nat
  tls_InsecureSkipVerify :: bool
  tls_ServerName :: string

definition clientTLSConfig :: "string \<Rightarrow> tls_config" where
  "clientTLSConfig server_addr =
     (let tc = \<lparr>tls_MinVersion = 0x0303, tls_InsecureSkipVerify = True, tls_ServerName = ''''\<rparr> in
      case SplitHostPort server_addr of
        None \<Rightarrow> tc
      | Some (host, port) \<Rightarrow> if ParseIP host = None then tc\<lparr>tls_ServerName := host\<rparr> else tc)"

datatype 'e target_error = TdDial 'e | TdLookup 'e | TdNoUsable string string

definition family_ok :: "string \<Rightarrow> ip \<Rightarrow> bool" where
  "family_ok netw a =
     (if netw = ''tcp4'' then To4 a \<noteq> None else if netw = ''tcp6'' then To4 a = None else True)"

definition dialConnectTarget ::
    "('e, 'c) dial_fun \<Rightarrow> 'e lookup_fun option \<Rightarrow> string \<Rightarrow> string \<Rightarrow> ('e target_error + 'c) \<times> (string \<times> string) list" where
  "dialConnectTarget dial lookup network address =
     (let netw = (if network = '''' then ''tcp'' else network);
          direct = (case dial netw address of
                      Inl e \<Rightarrow> (Inl (TdDial e), [(netw, address)])
                    | Inr c \<Rightarrow> (Inr c, [(netw, address)]))
      in case lookup of
           None \<Rightarrow> direct
         | Some look \<Rightarrow>
             (case SplitHostPort address of
                None \<Rightarrow> direct
              | Some (host, port) \<Rightarrow>
                  if ParseIP host \<noteq> None then direct
                  else if netw \<noteq> ''tcp'' \<and> netw \<noteq> ''tcp4'' \<and> netw \<noteq> ''tcp6'' then direct
                  else (case look host of
                          Inl e \<Rightarrow> (Inl (TdLookup e), [])
                        | Inr ips \<Rightarrow>
                            let dialNet = (if netw = ''tcp4'' \<or> netw = ''tcp6'' then netw else ''tcp'') in
                            (case try_addrs (family_ok netw) (dial dialNet) port ips None of
                               (Inr c, tried) \<Rightarrow> (Inr c, map (Pair dialNet) tried)
                             | (Inl (Some e), tried) \<Rightarrow> (Inl (TdDial e), map (Pair dialNet) tried)
                             | (Inl None, tried) \<Rightarrow> (Inl (TdNoUsable netw address), map (Pair dialNet) tried)))))"

subsection \<open>The addresses that are tried\<close>

text \<open>The dial addresses of the usable entries, in order.\<close>

definition usable :: "(ip \<Rightarrow> bool) \<Rightarrow> string \<Rightarrow> string list \<Rightarrow> string list" where
  "usable family port ss =
     map (\<lambda>a. JoinHostPort (ip_String a) port) (filter family (List.map_filter ParseIP ss))"

text \<open>The elements up to and including the first that satisfies \<open>P\<close>.\<close>

fun upto_first :: "('a \<Rightarrow> bool) \<Rightarrow> 'a list \<Rightarrow> 'a list" where
  "upto_first P [] = []"
| "upto_first P (x # xs) = (if P x then [x] else x # upto_first P xs)"

definition dial_ok :: "(string \<Rightarrow> 'e + 'c) \<Rightarrow> string \<Rightarrow> bool" where
  "dial_ok dial a \<longleftrightarrow> (case dial a of Inl e \<Rightarrow> False | Inr c \<Rightarrow> True)"

lemma usable_Cons:
  "usable family port (s # ss) =
     (case ParseIP s of
        None \<Rightarrow> usable family port ss
      | Some a \<Rightarrow> if family a then JoinHostPort (ip_String a) port # usable family port ss else usable family port ss)"
  by (simp add: usable_def List.map_filter_simps split: option.split)

text \<open>The loop on the dial addresses alone.\<close>

fun try_list :: "(string \<Rightarrow> 'e + 'c) \<Rightarrow> string list \<Rightarrow> 'e option \<Rightarrow> ('e option + 'c) \<times> string list" where
  "try_list dial [] e = (Inl e, [])"
| "try_list dial (a # as) e =
     (case dial a of Inr c \<Rightarrow> (Inr c, [a])
      | Inl x \<Rightarrow> (case try_list dial as (Some x) of (r, tried) \<Rightarrow> (r, a # tried)))"

lemma try_addrs_list: "try_addrs family dial port ss e = try_list dial (usable family port ss) e"
proof (induction ss arbitrary: e)
  case Nil
  then show ?case by (simp add: usable_def List.map_filter_simps)
next
  case (Cons s ss)
  then show ?case by (cases "ParseIP s") (simp_all add: usable_Cons Let_def split: sum.split)
qed

lemma dial_ok_sum [simp]: "dial a = Inl x \<Longrightarrow> \<not> dial_ok dial a" "dial a = Inr c \<Longrightarrow> dial_ok dial a"
  by (simp_all add: dial_ok_def)

lemma try_list_tried: "snd (try_list dial as e) = upto_first (dial_ok dial) as"
proof (induction as arbitrary: e)
  case (Cons a as)
  show ?case using Cons[of "Some (projl (dial a))"] by (cases "dial a") (auto split: prod.split)
qed simp

lemma try_list_result:
  "fst (try_list dial as e) =
     (if filter (dial_ok dial) as \<noteq> [] then Inr (projr (dial (hd (filter (dial_ok dial) as))))
      else Inl (if as = [] then e else Some (projl (dial (last as)))))"
proof (induction as arbitrary: e)
  case (Cons a as)
  show ?case using Cons[of "Some (projl (dial a))"]
    by (cases "dial a") (auto split: prod.split)
qed simp

text \<open>
  A device that resolves the target's name with the platform's resolver dials the looked-up
  addresses of the requested family, in the order of the lookup, one after the other up to the first
  that accepts, whose connection is returned; when all refuse it reports the last refusal, and
  when there is none to dial it says so without dialing.
\<close>

theorem lookup_dial_order:
  assumes "netw \<in> {''tcp'', ''tcp4'', ''tcp6''}" "SplitHostPort address = Some (host, port)" "ParseIP host = None"
    and "look host = Inr ips"
  defines "addrs \<equiv> usable (family_ok netw) port ips"
  shows "dialConnectTarget dial (Some look) netw address =
    (if filter (dial_ok (dial netw)) addrs \<noteq> [] then Inr (projr (dial netw (hd (filter (dial_ok (dial netw)) addrs))))
     else if addrs \<noteq> [] then Inl (TdDial (projl (dial netw (last addrs))))
     else Inl (TdNoUsable netw address),
     map (Pair netw) (upto_first (dial_ok (dial netw)) addrs))"
proof -
  let ?t = "try_list (dial netw) addrs None"
  have n: "(if netw = '''' then ''tcp'' else netw) = netw" "(if netw = ''tcp4'' \<or> netw = ''tcp6'' then netw else ''tcp'') = netw"
    using assms(1) by auto
  have d: "dialConnectTarget dial (Some look) netw address =
      (case ?t of
         (Inr c, tried) \<Rightarrow> (Inr c, map (Pair netw) tried)
       | (Inl (Some e), tried) \<Rightarrow> (Inl (TdDial e), map (Pair netw) tried)
       | (Inl None, tried) \<Rightarrow> (Inl (TdNoUsable netw address), map (Pair netw) tried))"
    unfolding dialConnectTarget_def Let_def n try_addrs_list addrs_def using assms(1-4) by auto
  obtain r tried where t: "?t = (r, tried)" by fastforce
  have "tried = upto_first (dial_ok (dial netw)) addrs"
    using try_list_tried[of "dial netw" addrs None] t by simp
  moreover have "r = (if filter (dial_ok (dial netw)) addrs \<noteq> [] then Inr (projr (dial netw (hd (filter (dial_ok (dial netw)) addrs))))
      else Inl (if addrs = [] then None else Some (projl (dial netw (last addrs)))))"
    using try_list_result[of "dial netw" addrs None] t by simp
  ultimately show ?thesis unfolding d t by simp
qed

theorem lookup_dial_order_witness:
  "dialConnectTarget (\<lambda>n a. if a = ''192.0.2.2:80'' then Inr a else Inl ''refused'')
     (Some (\<lambda>h. Inr [''x'', ''2001:db8::1'', ''192.0.2.1'', ''192.0.2.2'', ''192.0.2.3''])) ''tcp4'' ''example.org:80'' =
     (Inr ''192.0.2.2:80'', [(''tcp4'', ''192.0.2.1:80''), (''tcp4'', ''192.0.2.2:80'')])"
proof -
  have h: "SplitHostPort ''example.org:80'' = Some (''example.org'', ''80'')" "ParseIP ''example.org'' = None"
    by code_simp+
  have u: "usable (family_ok ''tcp4'') ''80'' [''x'', ''2001:db8::1'', ''192.0.2.1'', ''192.0.2.2'', ''192.0.2.3''] =
      [''192.0.2.1:80'', ''192.0.2.2:80'', ''192.0.2.3:80'']"
    by code_simp
  show ?thesis
    using lookup_dial_order[of "''tcp4''" "''example.org:80''" "''example.org''" "''80''"
        "\<lambda>h. Inr [''x'', ''2001:db8::1'', ''192.0.2.1'', ''192.0.2.2'', ''192.0.2.3'']" _
        "\<lambda>n a. if a = ''192.0.2.2:80'' then Inr a else Inl ''refused''", OF _ h]
    by (simp add: u dial_ok_def)
qed

end
