(* ===== verification/Client_Session.thy ===== *)
theory Client_Session
  imports Device_Session Backoff Heartbeat_Stats Client_Dial
begin

text \<open>
  The session half of \<open>client/core/run.go\<close>: heartbeats, the streams that the server opens for
  \<open>CONNECT\<close>, one session, and the reconnect loop. Each function takes what it meets (clock, lines,
  results of writes and dials, which goroutine is first) as an argument.

  The lemmas show how the heartbeat loop accounts for its heartbeats, what closes what in a relay, and
  when the client stops; one way of stopping is not intended.
\<close>

subsection \<open>Heartbeats\<close>

text \<open>The \<open>select\<close> of the loop: cancellation, or a tick with all that its iteration meets.\<close>

record 'e hb_io =
  hio_curTs :: int
  hio_unix :: int
  hio_write :: bool
  hio_read :: "'e line_io_error + Envelope"
  hio_ackMs :: int

datatype 'e hb_event = HbDone | HbTick "'e hb_io"

datatype 'e hb_end = HbCtx | HbWriteErr | HbReadErr "'e line_io_error"

definition heartbeat_every :: "duration \<Rightarrow> duration" where
  "heartbeat_every every = (if every \<le> 0 then 30 * Second else every)"

definition heartbeat_env :: "string \<Rightarrow> string \<Rightarrow> int option \<Rightarrow> f64 option \<Rightarrow> 'e hb_io \<Rightarrow> Envelope" where
  "heartbeat_env deviceID nettype avg loss io =
     zero_Envelope\<lparr>env_Type := TypeHeartbeat, env_DeviceID := deviceID, env_Ts := hio_unix io,
       env_CurTs := hio_curTs io, env_NetType := nettype, env_AvgRTT := avg, env_LossRate := loss\<rparr>"

text \<open>One tick: how the loop ends, if it does, the statistics, and the message sent.\<close>

definition heartbeat_tick :: "string \<Rightarrow> 'e hb_io \<Rightarrow> HeartbeatStats \<Rightarrow> 'e hb_end option \<times> HeartbeatStats \<times> Envelope" where
  "heartbeat_tick deviceID io s =
     (case SnapshotForSend s of
        ((avg, loss), s) \<Rightarrow>
          let env = heartbeat_env deviceID (NetType s) avg loss io;
              s = Sent s
          in if \<not> hio_write io then (Some HbWriteErr, AckLost s, env)
             else (case hio_read io of
                     Inl e \<Rightarrow> (Some (HbReadErr e), AckLost s, env)
                   | Inr ack \<Rightarrow>
                       if env_Type ack \<noteq> TypeHeartbeatAck then (None, AckLost s, env)
                       else if env_CurTs ack \<noteq> hio_curTs io then (None, AckLost s, env)
                       else let rtt = wrap64 (hio_ackMs io - hio_curTs io);
                                rtt = (if rtt < 0 then 0 else rtt)
                            in (None, AckOK rtt s, env)))"

fun heartbeatLoop :: "string \<Rightarrow> 'e hb_event list \<Rightarrow> HeartbeatStats \<Rightarrow> 'e hb_end option \<times> HeartbeatStats \<times> Envelope list" where
  "heartbeatLoop deviceID [] s = (None, s, [])"
| "heartbeatLoop deviceID (HbDone # evs) s = (Some HbCtx, s, [])"
| "heartbeatLoop deviceID (HbTick io # evs) s =
     (case heartbeat_tick deviceID io s of
        (Some e, s, env) \<Rightarrow> (Some e, s, [env])
      | (None, s, env) \<Rightarrow> (case heartbeatLoop deviceID evs s of (r, s, envs) \<Rightarrow> (r, s, env # envs)))"

text \<open>Every heartbeat is counted once, as acknowledged or lost, so no more are lost than sent.\<close>

definition counts_ok :: "HeartbeatStats \<Rightarrow> bool" where
  "counts_ok s \<longleftrightarrow> 0 \<le> hs_lost s \<and> hs_lost s \<le> hs_sent s \<and> hs_sent s \<le> int (hs_window s) \<and> hs_window s > 0"

lemma snapshot_counts:
  "counts_ok s \<Longrightarrow> SnapshotForSend s = (r, s') \<Longrightarrow>
   0 \<le> hs_lost s' \<and> hs_lost s' \<le> hs_sent s' \<and> hs_sent s' < int (hs_window s) \<and> hs_window s' = hs_window s"
  by (auto simp: counts_ok_def SnapshotForSend_def Let_def split: if_splits)

lemma tick_counts:
  assumes "counts_ok s" "int (hs_window s) < 2 ^ 63"
  shows "counts_ok (fst (snd (heartbeat_tick deviceID io s))) \<and>
    hs_window (fst (snd (heartbeat_tick deviceID io s))) = hs_window s"
proof -
  obtain avg loss s' where s': "SnapshotForSend s = ((avg, loss), s')" by (metis prod.collapse)
  note c = snapshot_counts[OF assms(1) s']
  then have "in_int64 (hs_sent s' + 1)" "in_int64 (hs_lost s' + 1)" using assms(2) by (auto simp: in_int64_def)
  then have "counts_ok (AckLost (Sent s'))" "counts_ok (AckOK r (Sent s'))"
    "hs_window (AckLost (Sent s')) = hs_window s" "hs_window (AckOK r (Sent s')) = hs_window s" for r
    using c assms(1) by (auto simp: counts_ok_def AckLost_def AckOK_def Sent_def Let_def)
  then show ?thesis using s' by (auto simp: heartbeat_tick_def Let_def split: sum.split)
qed

lemma loop_counts:
  "counts_ok s \<Longrightarrow> int (hs_window s) < 2 ^ 63 \<Longrightarrow> counts_ok (fst (snd (heartbeatLoop deviceID evs s)))"
proof (induction evs arbitrary: s)
  case (Cons e evs)
  show ?case
  proof (cases e)
    case (HbTick io)
    obtain r s' env where t: "heartbeat_tick deviceID io s = (r, s', env)" by (metis prod.collapse)
    then have "counts_ok s'" "hs_window s' = hs_window s" using tick_counts[OF Cons.prems, of deviceID io] by simp_all
    then show ?thesis using Cons.IH[of s'] Cons.prems t HbTick by (auto split: option.split prod.split)
  qed (use Cons.prems in simp)
qed simp

text \<open>The server's answer to a heartbeat is counted as acknowledged, with the time since it was sent.\<close>

lemma answered_tick:
  assumes "hio_write io" "hio_read io = Inr (heartbeat_ack (snd (snd (heartbeat_tick deviceID io s))))"
    and "0 \<le> hio_ackMs io - hio_curTs io" "hio_ackMs io - hio_curTs io < 2 ^ 63"
  shows "fst (heartbeat_tick deviceID io s) = None \<and>
    fst (snd (heartbeat_tick deviceID io s)) = AckOK (hio_ackMs io - hio_curTs io) (Sent (snd (SnapshotForSend s)))"
proof -
  obtain avg loss s' where s': "SnapshotForSend s = ((avg, loss), s')" by (metis prod.collapse)
  let ?env = "heartbeat_env deviceID (NetType s') avg loss io"
  have "snd (snd (heartbeat_tick deviceID io s)) = ?env"
    using s' by (simp add: heartbeat_tick_def Let_def split: sum.split)
  then have "hio_read io = Inr (heartbeat_ack ?env)" using assms(2) by simp
  moreover have "env_Type (heartbeat_ack ?env) = TypeHeartbeatAck" "env_CurTs (heartbeat_ack ?env) = hio_curTs io"
    by (simp_all add: heartbeat_ack_def heartbeat_env_def)
  moreover have "in_int64 (hio_ackMs io - hio_curTs io)" using assms(3,4) by (simp add: in_int64_def)
  ultimately show ?thesis using assms(1,3) s' by (simp add: heartbeat_tick_def Let_def)
qed

subsection \<open>CONNECT streams\<close>

datatype 'c cs_effect = CsSend Envelope | CsDial string string | CsCloseTarget 'c | CsRelay 'c | CsCloseStream

definition connect_result :: "string \<Rightarrow> bool \<Rightarrow> string \<Rightarrow> Envelope" where
  "connect_result i ok msg =
     zero_Envelope\<lparr>env_Type := TypeConnectResult, env_ID := i, env_OK := ok, env_Message := msg\<rparr>"

text \<open>
  What \<open>handleConnectStream\<close> does on the first line of a stream; \<open>text\<close> renders dial errors and \<open>write\<close>
  says whether an answer can be written. After \<open>CsRelay\<close> the two copies run.
\<close>

definition handleConnectStream ::
    "('e target_error \<Rightarrow> string) \<Rightarrow> ('e, 'c) dial_fun \<Rightarrow> 'e lookup_fun option \<Rightarrow> bool \<Rightarrow>
     'j line_io_error + Envelope \<Rightarrow> 'c cs_effect list" where
  "handleConnectStream text dial lookup write line =
     (case line of
        Inl e \<Rightarrow> [CsCloseStream]
      | Inr env \<Rightarrow>
          if env_Type env \<noteq> TypeConnect \<or> env_ID env = '''' \<or> env_Address env = '''' then
            (if write then [CsSend (connect_result (env_ID env) False ''bad connect request'')] else []) @ [CsCloseStream]
          else
            let network = (if env_Network env = '''' then ''tcp'' else env_Network env) in
            (case dialConnectTarget dial lookup network (env_Address env) of
               (Inl e, tried) \<Rightarrow>
                 map (\<lambda>(n, a). CsDial n a) tried @
                 (if write then [CsSend (connect_result (env_ID env) False (text e))] else []) @ [CsCloseStream]
             | (Inr target, tried) \<Rightarrow>
                 map (\<lambda>(n, a). CsDial n a) tried @
                 (if write then [CsSend (connect_result (env_ID env) True ''''), CsRelay target]
                  else [CsCloseTarget target, CsCloseStream])))"

text \<open>
  The relay: \<open>UpDone\<close> is the end of the copy from the stream to the target, \<open>DownDone\<close> the end of the
  other one. The first closes the target; the stream is closed when both have ended.
\<close>

datatype relay_event = UpDone | DownDone

record relay_state =
  rl_up :: bool
  rl_down :: bool
  rl_target_closed :: bool
  rl_stream_closed :: bool

definition relay_start :: relay_state where
  "relay_start = \<lparr>rl_up = False, rl_down = False, rl_target_closed = False, rl_stream_closed = False\<rparr>"

fun relay_step :: "relay_event \<Rightarrow> relay_state \<Rightarrow> relay_state" where
  "relay_step UpDone s =
     (let s = s\<lparr>rl_up := True, rl_target_closed := True\<rparr> in if rl_down s then s\<lparr>rl_stream_closed := True\<rparr> else s)"
| "relay_step DownDone s =
     (let s = s\<lparr>rl_down := True\<rparr> in if rl_up s then s\<lparr>rl_stream_closed := True\<rparr> else s)"

definition relay :: "relay_event list \<Rightarrow> relay_state" where
  "relay evs = fold relay_step evs relay_start"

lemma relay_fold:
  "rl_up (fold relay_step evs s) = (rl_up s \<or> UpDone \<in> set evs)"
  "rl_down (fold relay_step evs s) = (rl_down s \<or> DownDone \<in> set evs)"
proof (induction evs arbitrary: s)
  case (Cons e evs)
  { case 1 show ?case using Cons(1) by (cases e) (auto simp: Let_def) }
  { case 2 show ?case using Cons(2) by (cases e) (auto simp: Let_def) }
qed simp_all

lemma relay_closed:
  "(rl_stream_closed s \<longleftrightarrow> rl_up s \<and> rl_down s) \<Longrightarrow> (rl_target_closed s \<longleftrightarrow> rl_up s) \<Longrightarrow>
   (rl_stream_closed (fold relay_step evs s) \<longleftrightarrow> rl_up (fold relay_step evs s) \<and> rl_down (fold relay_step evs s)) \<and>
   (rl_target_closed (fold relay_step evs s) \<longleftrightarrow> rl_up (fold relay_step evs s))"
proof (induction evs arbitrary: s)
  case (Cons e evs)
  show ?case unfolding fold_Cons comp_def
    by (rule Cons.IH) (use Cons.prems in \<open>cases e; auto simp: Let_def\<close>)+
qed simp

text \<open>
  The device closes the stream to the server only when both directions have ended, and the target
  only when the server's side has: the end of the target's data alone (\<open>DownDone\<close>) is not passed
  on, so a client that waits for the target to close the connection is not told.
\<close>

theorem target_eof_not_forwarded:
  "(rl_stream_closed (relay evs) \<longleftrightarrow> UpDone \<in> set evs \<and> DownDone \<in> set evs) \<and>
   (rl_target_closed (relay evs) \<longleftrightarrow> UpDone \<in> set evs) \<and>
   \<not> rl_stream_closed (relay [DownDone])"
proof -
  have "(rl_stream_closed (relay evs) \<longleftrightarrow> rl_up (relay evs) \<and> rl_down (relay evs)) \<and>
    (rl_target_closed (relay evs) \<longleftrightarrow> rl_up (relay evs))" for evs
    unfolding relay_def by (rule relay_closed) (simp_all add: relay_start_def)
  then show ?thesis by (simp add: relay_def relay_fold) (simp add: relay_start_def)
qed

subsection \<open>One session\<close>

datatype 'e acc_event = AccStream | AccErr 'e bool   \<comment> \<open>with whether the session's context is cancelled\<close>

datatype 'e acc_end = AccCtx | AccFail 'e

fun acceptLoop :: "'e acc_event list \<Rightarrow> nat \<Rightarrow> 'e acc_end option \<times> nat" where
  "acceptLoop [] n = (None, n)"
| "acceptLoop (AccStream # evs) n = acceptLoop evs (Suc n)"
| "acceptLoop (AccErr e cancelled # evs) n = (Some (if cancelled then AccCtx else AccFail e), n)"

datatype 'e session_error =
    SeDial "'e server_dial_error"
  | SeTLS 'e
  | SeYamux
  | SeOpen
  | SeWrite
  | SeAckRead "'e line_io_error"
  | SeRegister string
  | SeAccept 'e
  | SeCanceled       \<comment> \<open>\<open>context.Canceled\<close> itself\<close>

text \<open>
  \<open>se_hb\<close> says that the heartbeat goroutine has ended and cancelled the session's context when
  \<open>AcceptStream\<close> fails, \<open>se_ctx\<close> that the client's own context is cancelled by then.
\<close>

record ('e, 'c) session_env =
  se_dial :: "'e server_dial_error + 'c"
  se_handshake :: "'e option"
  se_yamux :: bool
  se_open :: bool
  se_write :: bool
  se_ack :: "'e line_io_error + Envelope"
  se_streams :: nat
  se_acceptErr :: 'e
  se_hb :: bool
  se_ctx :: bool

text \<open>The result of a session and whether it got as far as to reset the backoff.\<close>

definition runSession :: "('e, 'c) session_env \<Rightarrow> 'e session_error \<times> bool" where
  "runSession se =
     (case se_dial se of
        Inl e \<Rightarrow> (SeDial e, False)
      | Inr conn \<Rightarrow>
     (case se_handshake se of
        Some e \<Rightarrow> (SeTLS e, False)
      | None \<Rightarrow>
          if \<not> se_yamux se then (SeYamux, False)
          else if \<not> se_open se then (SeOpen, False)
          else if \<not> se_write se then (SeWrite, False)
          else (case se_ack se of
                  Inl e \<Rightarrow> (SeAckRead e, False)
                | Inr ack \<Rightarrow>
                    if env_Type ack \<noteq> TypeRegisterAck \<or> \<not> env_OK ack then
                      (SeRegister (if env_Message ack = '''' then ''register rejected'' else env_Message ack), False)
                    else
                      (case fst (acceptLoop (replicate (se_streams se) AccStream @
                                [AccErr (se_acceptErr se) (se_hb se \<or> se_ctx se)]) 0) of
                         Some AccCtx \<Rightarrow> (SeCanceled, True)
                       | Some (AccFail e) \<Rightarrow> (SeAccept e, True)
                       | None \<Rightarrow> (SeAccept (se_acceptErr se), True)))))"

lemma acceptLoop_end:
  "acceptLoop (replicate k AccStream @ [AccErr e c]) n = (Some (if c then AccCtx else AccFail e), n + k)"
  by (induction k arbitrary: n) simp_all

subsection \<open>The reconnect loop\<close>

text \<open>\<open>errors.Is(err, context.Canceled)\<close>; \<open>isc\<close> decides it for the errors of dialer and handshake.\<close>

fun is_canceled :: "('e \<Rightarrow> bool) \<Rightarrow> 'e session_error \<Rightarrow> bool" where
  "is_canceled isc SeCanceled = True"
| "is_canceled isc (SeDial (SdDial e)) = isc e"
| "is_canceled isc (SeDial (SdResolve e)) = isc e"
| "is_canceled isc (SeTLS e) = isc e"
| "is_canceled isc (SeAccept e) = isc e"
| "is_canceled isc _ = False"

record ('e, 'c) iteration =
  it_ctx :: bool           \<comment> \<open>the context is cancelled at the top of the loop\<close>
  it_session :: "('e, 'c) session_env"
  it_rnd :: f64
  it_wait_ctx :: bool      \<comment> \<open>the context is cancelled during the wait\<close>

datatype 'e run_end = RunCtx | RunSession "'e session_error"

text \<open>The result (\<open>None\<close> while it runs) and the delays waited for.\<close>

fun runLoop ::
    "('e \<Rightarrow> bool) \<Rightarrow> (f64 \<Rightarrow> int) \<Rightarrow> ('e, 'c) iteration list \<Rightarrow> reconnectBackoff \<Rightarrow> 'e run_end option \<times> duration list" where
  "runLoop isc oob [] rb = (None, [])"
| "runLoop isc oob (it # its) rb =
     (if it_ctx it then (Some RunCtx, [])
      else case runSession (it_session it) of
        (err, registered) \<Rightarrow>
          let rb = (if registered then rb_Reset rb else rb) in
          if is_canceled isc err then (Some (RunSession err), [])
          else (case rb_Next oob (it_rnd it) rb of
                  (delay, rb) \<Rightarrow>
                    if it_wait_ctx it then (Some RunCtx, [delay])
                    else (case runLoop isc oob its rb of (r, ds) \<Rightarrow> (r, delay # ds))))"

definition Run ::
    "('e \<Rightarrow> bool) \<Rightarrow> (f64 \<Rightarrow> int) \<Rightarrow> ('e, 'c) iteration list \<Rightarrow> duration \<Rightarrow> duration \<Rightarrow> 'e run_end option \<times> duration list" where
  "Run isc oob its initial mx = runLoop isc oob its (newReconnectBackoff initial mx)"

text \<open>An iteration after which the loop goes on.\<close>

definition goes_on :: "('e \<Rightarrow> bool) \<Rightarrow> ('e, 'c) iteration \<Rightarrow> bool" where
  "goes_on isc it \<longleftrightarrow> \<not> it_ctx it \<and> \<not> is_canceled isc (fst (runSession (it_session it))) \<and> \<not> it_wait_ctx it"

text \<open>The failures since the last registration, at each delay.\<close>

fun failure_counts :: "('e, 'c) iteration list \<Rightarrow> nat \<Rightarrow> nat list" where
  "failure_counts [] k = []"
| "failure_counts (it # its) k =
     (let k = (if snd (runSession (it_session it)) then 0 else k) in k # failure_counts its (Suc k))"

lemma runLoop_Cons:
  assumes "runSession (it_session it) = (err, reg)"
    and "rb_Next oob (it_rnd it) (if reg then rb_Reset rb else rb) = (d, rb')"
    and "runLoop isc oob its rb' = (r, ds)"
  shows "runLoop isc oob (it # its) rb =
    (if it_ctx it then (Some RunCtx, []) else if is_canceled isc err then (Some (RunSession err), [])
     else if it_wait_ctx it then (Some RunCtx, [d]) else (r, d # ds))"
  using assms by (simp only: runLoop.simps prod.case Let_def)

lemma runLoop_append:
  "list_all (goes_on isc) pre \<Longrightarrow> \<exists>rb' ds. length ds = length pre \<and>
    (\<forall>its. runLoop isc oob (pre @ its) rb = (fst (runLoop isc oob its rb'), ds @ snd (runLoop isc oob its rb')))"
proof (induction pre arbitrary: rb)
  case (Cons it pre)
  obtain err reg where s: "runSession (it_session it) = (err, reg)" by fastforce
  obtain d rb1 where n: "rb_Next oob (it_rnd it) (if reg then rb_Reset rb else rb) = (d, rb1)" by fastforce
  obtain rb' ds where l: "length ds = length pre"
    "\<And>its. runLoop isc oob (pre @ its) rb1 = (fst (runLoop isc oob its rb'), ds @ snd (runLoop isc oob its rb'))"
    using Cons.IH[of rb1] Cons.prems by auto
  have "runLoop isc oob ((it # pre) @ its) rb =
      (fst (runLoop isc oob its rb'), (d # ds) @ snd (runLoop isc oob its rb'))" for its
    unfolding append_Cons runLoop_Cons[OF s n l(2)] using Cons.prems s by (simp add: goes_on_def)
  then show ?case using l(1) by (intro exI[of _ rb'] exI[of _ "d # ds"]) simp
qed (auto intro: exI[of _ rb])

lemma runLoop_None: "fst (runLoop isc oob its rb) = None \<longleftrightarrow> list_all (goes_on isc) its"
proof (induction its arbitrary: rb)
  case (Cons it its)
  obtain err reg where s: "runSession (it_session it) = (err, reg)" by fastforce
  obtain d rb1 where n: "rb_Next oob (it_rnd it) (if reg then rb_Reset rb else rb) = (d, rb1)" by fastforce
  obtain r ds where l: "runLoop isc oob its rb1 = (r, ds)" by fastforce
  have "r = None \<longleftrightarrow> list_all (goes_on isc) its" using Cons.IH[of rb1] l by simp
  then show ?case unfolding runLoop_Cons[OF s n l] using s by (simp add: goes_on_def[of isc it])
qed simp

definition delay_ok :: "duration \<Rightarrow> duration \<Rightarrow> nat \<Rightarrow> duration \<Rightarrow> bool" where
  "delay_ok i m k d \<longleftrightarrow> max Millisecond (min m (i * 2 ^ k) div 2) \<le> d \<and> d \<le> max Millisecond (min m (i * 2 ^ k))"

definition rnd_ok :: "f64 \<Rightarrow> bool" where
  "rnd_ok r \<longleftrightarrow> (case r of Fin q \<Rightarrow> 0 \<le> q \<and> q < 1 | _ \<Rightarrow> False)"

lemma Next_ok:
  assumes "0 < rb_initial b" "rb_initial b < 2 ^ 53" "0 < rb_max b" "rb_max b < 2 ^ 53" "rnd_ok r"
  shows "\<exists>d. rb_Next oob r b = (d, b\<lparr>rb_failures := Suc (rb_failures b)\<rparr>) \<and>
    delay_ok (rb_initial b) (rb_max b) (rb_failures b) d"
proof -
  obtain q where q: "r = Fin q" "0 \<le> q" "q < 1" using assms(5) by (auto simp: rnd_ok_def split: f64.splits)
  show ?thesis
    using delay_bounds[OF assms(1-4) q(2,3), of oob] unfolding q(1) delay_ok_def capped_def[symmetric]
    by (intro exI[of _ "fst (rb_Next oob (Fin q) b)"]) (simp add: prod_eq_iff)
qed

lemma runLoop_delays:
  assumes "0 < rb_initial b" "rb_initial b < 2 ^ 53" "0 < rb_max b" "rb_max b < 2 ^ 53"
    and "\<forall>it \<in> set its. rnd_ok (it_rnd it)"
  shows "list_all2 (delay_ok (rb_initial b) (rb_max b))
     (take (length (snd (runLoop isc oob its b))) (failure_counts its (rb_failures b))) (snd (runLoop isc oob its b))"
  using assms
proof (induction its arbitrary: b)
  case (Cons it its)
  obtain err reg where s: "runSession (it_session it) = (err, reg)" by fastforce
  let ?b = "if reg then rb_Reset b else b"
  have b: "rb_initial ?b = rb_initial b" "rb_max ?b = rb_max b"
    "rb_failures ?b = (if reg then 0 else rb_failures b)" by (simp_all add: rb_Reset_def)
  have "rnd_ok (it_rnd it)" using Cons.prems by simp
  from Next_ok[of ?b, OF _ _ _ _ this, of oob] Cons.prems(1-4) obtain d where
    d: "rb_Next oob (it_rnd it) ?b = (d, ?b\<lparr>rb_failures := Suc (rb_failures ?b)\<rparr>)"
      "delay_ok (rb_initial b) (rb_max b) (rb_failures ?b) d" unfolding b by blast
  let ?n = "?b\<lparr>rb_failures := Suc (rb_failures ?b)\<rparr>"
  obtain r ds where l: "runLoop isc oob its ?n = (r, ds)" by fastforce
  have "list_all2 (delay_ok (rb_initial ?n) (rb_max ?n)) (take (length ds) (failure_counts its (rb_failures ?n))) ds"
    using Cons.IH[of ?n] Cons.prems b l by (simp add: rb_Reset_def)
  then have ih: "list_all2 (delay_ok (rb_initial b) (rb_max b))
      (take (length ds) (failure_counts its (Suc (if reg then 0 else rb_failures b)))) ds"
    using b by (simp add: rb_Reset_def)
  have k: "delay_ok (rb_initial b) (rb_max b) (if reg then 0 else rb_failures b) d" using d(2) unfolding b .
  have "runLoop isc oob (it # its) b =
      (if it_ctx it then (Some RunCtx, []) else if is_canceled isc err then (Some (RunSession err), [])
       else if it_wait_ctx it then (Some RunCtx, [d]) else (r, d # ds))"
    by (rule runLoop_Cons[OF s d(1) l])
  then show ?case using ih k by (auto simp: s Let_def)
qed simp


definition registered_session :: "bool \<Rightarrow> bool \<Rightarrow> (unit, nat) session_env" where
  "registered_session hb ctx =
     \<lparr>se_dial = Inr 7, se_handshake = None, se_yamux = True, se_open = True, se_write = True,
       se_ack = Inr (zero_Envelope\<lparr>env_Type := TypeRegisterAck, env_OK := True\<rparr>),
       se_streams = 2, se_acceptErr = (), se_hb = hb, se_ctx = ctx\<rparr>"

definition demo_iteration :: "bool \<Rightarrow> bool \<Rightarrow> (unit, nat) iteration" where
  "demo_iteration hb ctx =
     \<lparr>it_ctx = False, it_session = registered_session hb ctx, it_rnd = Fin (1 / 4), it_wait_ctx = False\<rparr>"


text \<open>How a registered session ends.\<close>

definition registered :: "('e, 'c) session_env \<Rightarrow> bool" where
  "registered se \<longleftrightarrow> (\<exists>c. se_dial se = Inr c) \<and> se_handshake se = None \<and> se_yamux se \<and> se_open se \<and> se_write se \<and>
     (\<exists>a. se_ack se = Inr a \<and> env_Type a = TypeRegisterAck \<and> env_OK a)"

lemma registered_iff: "snd (runSession se) \<longleftrightarrow> registered se"
  by (auto simp: runSession_def registered_def acceptLoop_end split: sum.split option.split)

lemma registered_end:
  "registered se \<Longrightarrow> fst (runSession se) = (if se_hb se \<or> se_ctx se then SeCanceled else SeAccept (se_acceptErr se))"
  by (auto simp: runSession_def registered_def acceptLoop_end)

text \<open>
  Once registered, a client whose heartbeat goroutine is the first to see the connection break
  stops for good: the goroutine cancels the session's context, the session ends with
  \<open>context.Canceled\<close> although the client's own context is alive, and the loop takes this for its own
  cancellation, after any number of earlier sessions. Had \<open>AcceptStream\<close> failed first with an
  error of its own, it would have gone on.
\<close>

theorem heartbeat_failure_stops_client:
  assumes "list_all (goes_on isc) pre" "registered (it_session it)"
    and "\<not> it_ctx it" "\<not> se_ctx (it_session it)" "\<not> it_wait_ctx it" "\<not> isc (se_acceptErr (it_session it))"
  shows "if se_hb (it_session it)
    then fst (Run isc oob (pre @ it # rest) i m) = Some (RunSession SeCanceled) \<and>
      length (snd (Run isc oob (pre @ it # rest) i m)) = length pre
    else fst (Run isc oob (pre @ [it]) i m) = None"
proof -
  obtain rb' ds where l: "length ds = length pre"
    "\<And>its. runLoop isc oob (pre @ its) (newReconnectBackoff i m) =
      (fst (runLoop isc oob its rb'), ds @ snd (runLoop isc oob its rb'))"
    using runLoop_append[OF assms(1), of oob "newReconnectBackoff i m"] by auto
  obtain err where s: "runSession (it_session it) = (err, True)"
    using assms(2) registered_iff[of "it_session it"] by (cases "runSession (it_session it)") auto
  show ?thesis
  proof (cases "se_hb (it_session it)")
    case True
    then have "err = SeCanceled" using registered_end[OF assms(2)] s by simp
    then have "runLoop isc oob (it # rest) rb' = (Some (RunSession SeCanceled), [])"
      using s assms(3) by simp
    then show ?thesis using l True by (simp add: Run_def)
  next
    case False
    then have "goes_on isc it" using registered_end[OF assms(2)] assms(3-6) by (simp add: goes_on_def)
    then show ?thesis using False assms(1) by (simp add: Run_def runLoop_None)
  qed
qed

theorem heartbeat_failure_stops_client_witness:
  "fst (Run (\<lambda>_. False) (\<lambda>_. 0) [demo_iteration False False, demo_iteration True False] Second (60 * Second)) =
     Some (RunSession SeCanceled) \<and>
   fst (Run (\<lambda>_. False) (\<lambda>_. 0) [demo_iteration False False, demo_iteration False False] Second (60 * Second)) = None"
proof -
  have r: "registered (registered_session x y)" for x y
    by (simp add: registered_def registered_session_def zero_Envelope_def)
  have sel: "it_ctx (demo_iteration x y) = False" "it_wait_ctx (demo_iteration x y) = False"
    "it_session (demo_iteration x y) = registered_session x y" "se_hb (registered_session x y) = x"
    "se_ctx (registered_session x y) = y" for x y
    by (simp_all add: demo_iteration_def registered_session_def)
  have g: "goes_on (\<lambda>_. False) (demo_iteration False False)"
    using registered_end[OF r, of False False] by (simp add: goes_on_def sel)
  have "fst (Run (\<lambda>_. False) (\<lambda>_. 0) ([demo_iteration False False] @ demo_iteration True False # []) Second (60 * Second)) =
     Some (RunSession SeCanceled)"
    using heartbeat_failure_stops_client[of "\<lambda>_. False" "[demo_iteration False False]" "demo_iteration True False"
        "\<lambda>_. 0" "[]" Second "60 * Second"] r g by (simp add: sel)
  moreover have "fst (Run (\<lambda>_. False) (\<lambda>_. 0) ([demo_iteration False False] @ [demo_iteration False False]) Second (60 * Second)) = None"
    using heartbeat_failure_stops_client[of "\<lambda>_. False" "[demo_iteration False False]" "demo_iteration False False"
        "\<lambda>_. 0" "[]" Second "60 * Second"] r g by (simp add: sel)
  ultimately show ?thesis by simp
qed

end
