(* ===== verification/Tunnel.thy ===== *)
theory Tunnel
  imports Dial Client_Session
begin

text \<open>
  The two ends of a \<open>CONNECT\<close> stream together: \<open>DialThroughDevice\<close> of \<open>server/hub/dial.go\<close>, which
  asks, and \<open>handleConnectStream\<close> of \<open>client/core/run.go\<close>, which dials and answers. The lemmas show
  that they agree on the outcome: the server gets a connection exactly when the device reached the target.
\<close>

text \<open>What the device writes on the stream before it relays.\<close>

fun sent_text :: "'e marshal_fun \<Rightarrow> 'c cs_effect list \<Rightarrow> string" where
  "sent_text marshal [] = ''''"
| "sent_text marshal (CsSend v # effs) = snd (WriteLine marshal append_out v '''') @ sent_text marshal effs"
| "sent_text marshal (_ # effs) = sent_text marshal effs"

lemma sent_text_append [simp]: "sent_text marshal (xs @ ys) = sent_text marshal xs @ sent_text marshal ys"
  by (induction marshal xs rule: sent_text.induct) simp_all

lemma sent_text_dials [simp]: "sent_text marshal (map (\<lambda>(n, a). CsDial n a) tried) = ''''"
  by (induction tried) (auto split: prod.split)

text \<open>The device's answer to a request, over the wire.\<close>

definition device_answer ::
    "('e target_error \<Rightarrow> string) \<Rightarrow> ('e, 'c) dial_fun \<Rightarrow> 'e lookup_fun option \<Rightarrow> 'j marshal_fun \<Rightarrow> 'j unmarshal_fun \<Rightarrow>
     Envelope \<Rightarrow> string" where
  "device_answer render dial lookup marshal unmarshal req =
     sent_text marshal (handleConnectStream render dial lookup True
       (fst (ReadLine unmarshal (snd (WriteLine marshal append_out req '''')))))"

definition outcome_envelope :: "('e target_error \<Rightarrow> string) \<Rightarrow> string \<Rightarrow> 'e target_error + 'c \<Rightarrow> Envelope" where
  "outcome_envelope render i r =
     (case r of Inl e \<Rightarrow> connect_result i False (render e) | Inr c \<Rightarrow> connect_result i True '''')"

lemma wire_read:
  assumes "codec_ok marshal unmarshal v"
  shows "fst (ReadLine unmarshal (snd (WriteLine marshal append_out v ''''))) = Inr v"
proof -
  obtain b where b: "WriteLine marshal append_out v '''' = (None, '''' @ b @ [newline])" "newline \<notin> set b" "unmarshal b = Inr v"
    using assms by (rule WriteLine_append)
  then show ?thesis using ReadLine_line[OF b(2), of unmarshal "''''"] by simp
qed

lemma device_answer_text:
  assumes "i \<noteq> ''''" "a \<noteq> ''''" "network \<noteq> ''''"
    and "codec_ok marshal unmarshal (connect_request i network a)"
  shows "device_answer render dial lookup marshal unmarshal (connect_request i network a) =
    snd (WriteLine marshal append_out (outcome_envelope render i (fst (dialConnectTarget dial lookup network a))) '''')"
proof -
  obtain r tried where r: "dialConnectTarget dial lookup network a = (r, tried)" by fastforce
  have req: "env_Type (connect_request i network a) = TypeConnect" "env_ID (connect_request i network a) = i"
    "env_Address (connect_request i network a) = a" "env_Network (connect_request i network a) = network"
    by (simp_all add: connect_request_def)
  show ?thesis
    unfolding device_answer_def wire_read[OF assms(4)] handleConnectStream_def
    by (cases r) (simp_all add: req assms(1-3) r outcome_envelope_def Let_def)
qed

lemma await_line:
  assumes "newline \<notin> set b" "unmarshal b = Inr env" "concat chunks = b @ newline # data"
  shows "\<exists>cs. await_result unmarshal i (Some (SelReply chunks)) =
    (case connect_outcome i env of
       Some e \<Rightarrow> (Some (Inl e), [ClosedStream]) | None \<Rightarrow> (Some (Inr \<lparr>conn_reads = cs\<rparr>), []))"
proof -
  obtain r cs where "buf_read '''' chunks = Some (b @ [newline], r, cs)"
    using buf_read_line[OF assms(1), of "''''" chunks data] assms(3) by auto
  moreover have "fst (ReadLine unmarshal (b @ [newline])) = Inr env"
    using ReadLine_line[OF assms(1), of unmarshal "''''"] assms(2) by simp
  ultimately show ?thesis by (auto simp: await_result_def split: option.split)
qed

lemma connect_outcome_result:
  "connect_outcome i (outcome_envelope render i r) =
     (case r of Inl e \<Rightarrow> Some (DeviceRejected (if render e = '''' then ''connect failed'' else render e)) | Inr c \<Rightarrow> None)"
  by (simp add: connect_outcome_def outcome_envelope_def connect_result_def split: sum.split)

text \<open>
  C6. When the device has a session and the stream carries the messages, the server's dial and the
  device's agree, however the answer and the relayed data are cut into chunks: the server returns a
  connection exactly when the device connected to the target it was asked for, and
  otherwise the device's reason, with the stream closed.
\<close>

theorem connect_handshake:
  assumes "network \<in> {''tcp'', ''tcp4'', ''tcp6''}" "a \<noteq> ''''"
    and "WaitSession devID (de_reg de) (de_waits de) = Some (Inr sess)" "de_open de (fst sess)" "de_write de"
    and "randomID (de_rand de) (de_nano de) = i" "i \<noteq> ''''"
    and "codec_ok marshal unmarshal (connect_request i network a)"
    and "codec_ok marshal unmarshal (outcome_envelope render i (fst (dialConnectTarget dial lookup network a)))"
    and "de_select de = Some (SelReply chunks)"
    and "concat chunks = device_answer render dial lookup marshal unmarshal (connect_request i network a) @ data"
  shows "case fst (dialConnectTarget dial lookup network a) of
      Inr c \<Rightarrow> \<exists>cs. DialThroughDevice unmarshal de devID network a =
        (Some (Inr \<lparr>conn_reads = cs\<rparr>), [OpenedStream, SentLine (connect_request i network a)])
    | Inl e \<Rightarrow> DialThroughDevice unmarshal de devID network a =
        (Some (Inl (DeviceRejected (if render e = '''' then ''connect failed'' else render e))),
         [OpenedStream, SentLine (connect_request i network a), ClosedStream])"
proof -
  let ?r = "fst (dialConnectTarget dial lookup network a)"
  have "network \<noteq> ''''" using assms(1) by auto
  then have ans: "device_answer render dial lookup marshal unmarshal (connect_request i network a) =
      snd (WriteLine marshal append_out (outcome_envelope render i ?r) '''')"
    by (rule device_answer_text[OF assms(7,2) _ assms(8)])
  obtain b where b: "WriteLine marshal append_out (outcome_envelope render i ?r) '''' = (None, '''' @ b @ [newline])"
    "newline \<notin> set b" "unmarshal b = Inr (outcome_envelope render i ?r)"
    using assms(9) by (rule WriteLine_append)
  then have "concat chunks = b @ newline # data" using assms(11) ans by simp
  then obtain cs where aw: "await_result unmarshal i (de_select de) =
    (case connect_outcome i (outcome_envelope render i ?r) of
       Some e \<Rightarrow> (Some (Inl e), [ClosedStream]) | None \<Rightarrow> (Some (Inr \<lparr>conn_reads = cs\<rparr>), []))"
    using await_line[of b unmarshal "outcome_envelope render i ?r" chunks data i, OF b(2,3)] assms(10) by auto
  obtain s x where "sess = (s, x)" by fastforce
  then have "DialThroughDevice unmarshal de devID network a =
      (case await_result unmarshal i (de_select de) of
         (res, effs) \<Rightarrow> (res, [OpenedStream, SentLine (connect_request i network a)] @ effs))"
    using assms(1,3-6) by (auto simp: DialThroughDevice_def Let_def)
  then show ?thesis unfolding aw connect_outcome_result by (cases ?r) auto
qed

text \<open>One connection that is refused and one that succeeds, with the text of \<open>encoding/json\<close>.\<close>

definition demo_connect_marshal :: "unit marshal_fun" where
  "demo_connect_marshal v =
     (if v = connect_request ''00010203040506ff'' ''tcp'' ''192.0.2.1:22''
      then Inr ''{\"type\":\"connect\",\"id\":\"00010203040506ff\",\"network\":\"tcp\",\"address\":\"192.0.2.1:22\"}''
      else if v = connect_result ''00010203040506ff'' True '''' then Inr demo_result_json
      else if v = connect_result ''00010203040506ff'' False ''refused''
      then Inr ''{\"type\":\"connect_result\",\"id\":\"00010203040506ff\",\"message\":\"refused\"}'' else Inl ())"

definition demo_connect_unmarshal :: "unit unmarshal_fun" where
  "demo_connect_unmarshal s =
     (if s = demo_result_json then Inr (connect_result ''00010203040506ff'' True '''')
      else if s = ''{\"type\":\"connect\",\"id\":\"00010203040506ff\",\"network\":\"tcp\",\"address\":\"192.0.2.1:22\"}''
      then Inr (connect_request ''00010203040506ff'' ''tcp'' ''192.0.2.1:22'')
      else if s = ''{\"type\":\"connect_result\",\"id\":\"00010203040506ff\",\"message\":\"refused\"}''
      then Inr (connect_result ''00010203040506ff'' False ''refused'') else Inl ())"

lemma demo_connect_codec:
  "codec_ok demo_connect_marshal demo_connect_unmarshal (connect_request ''00010203040506ff'' ''tcp'' ''192.0.2.1:22'')"
  "codec_ok demo_connect_marshal demo_connect_unmarshal (connect_result ''00010203040506ff'' True '''')"
  "codec_ok demo_connect_marshal demo_connect_unmarshal (connect_result ''00010203040506ff'' False ''refused'')"
  by (simp_all add: codec_ok_def demo_connect_marshal_def demo_connect_unmarshal_def connect_request_def
      connect_result_def zero_Envelope_def envelope_types demo_result_json_def)

definition demo_answer :: "bool \<Rightarrow> string" where
  "demo_answer ok = device_answer (\<lambda>_. ''refused'') (\<lambda>n x. if ok then Inr (5::nat) else Inl ()) None
     demo_connect_marshal demo_connect_unmarshal (connect_request ''00010203040506ff'' ''tcp'' ''192.0.2.1:22'')"

theorem connect_handshake_witness:
  "fst (DialThroughDevice demo_connect_unmarshal (demo_dial_env [demo_answer False]) ''dev-1'' ''tcp'' ''192.0.2.1:22'') =
     Some (Inl (DeviceRejected ''refused'')) \<and>
   (\<exists>cs. fst (DialThroughDevice demo_connect_unmarshal (demo_dial_env [demo_answer True, ''SSH'']) ''dev-1'' ''tcp'' ''192.0.2.1:22'') =
     Some (Inr \<lparr>conn_reads = cs\<rparr>))"
proof -
  have w: "WaitSession ''dev-1'' (de_reg (demo_dial_env c)) (de_waits (demo_dial_env c)) = Some (Inr (Sess 1, ''dev-1''))" for c
    unfolding demo_dial_env_def by simp code_simp
  have r: "randomID (de_rand (demo_dial_env c)) (de_nano (demo_dial_env c)) = ''00010203040506ff''" for c
    unfolding demo_dial_env_def by simp code_simp
  have d: "fst (dialConnectTarget (\<lambda>n x. if ok then Inr (5::nat) else Inl ()) None ''tcp'' ''192.0.2.1:22'') =
      (if ok then Inr 5 else Inl (TdDial ()))" for ok
    by (simp add: dialConnectTarget_def Let_def)
  have sel: "de_open (demo_dial_env c) s" "de_write (demo_dial_env c)" "de_select (demo_dial_env c) = Some (SelReply c)" for c s
    by (simp_all add: demo_dial_env_def)
  note hs = connect_handshake[where network = "''tcp''" and a = "''192.0.2.1:22''" and devID = "''dev-1''"
      and i = "''00010203040506ff''" and marshal = demo_connect_marshal and unmarshal = demo_connect_unmarshal
      and render = "\<lambda>_. ''refused''" and lookup = None, OF _ _ w sel(1,2) r _ _ _ sel(3)]
  show ?thesis
    using hs[of "\<lambda>n x. if False then Inr (5::nat) else Inl ()" "[demo_answer False]" "''''"]
      hs[of "\<lambda>n x. if True then Inr (5::nat) else Inl ()" "[demo_answer True, ''SSH'']" "''SSH''"]
      demo_connect_codec d[of True] d[of False] by (auto simp: outcome_envelope_def demo_answer_def)
qed

end
