(* ===== verification/Client_Config.thy ===== *)
theory Client_Config
  imports Server_Config Backoff
begin

text \<open>
  \<open>client/config/client.go\<close>: the device's settings, from YAML or JSON, as in \<open>Server_Config\<close>: the codecs and
  \<open>time.ParseDuration\<close> are arguments. The lemmas show that what is accepted is complete and
  consistent, and that the reconnect loop then uses the configured delays unchanged.
\<close>

record ClientCfg =
  cc_DeviceID :: string
  cc_ServerAddr :: string
  cc_HeartbeatInterval :: duration
  cc_ReconnectInitialBackoff :: duration
  cc_ReconnectMaxBackoff :: duration

record ClientWire =
  cw_DeviceID :: string
  cw_ServerAddr :: string
  cw_HeartbeatInterval :: string
  cw_ReconnectInitialBackoff :: string
  cw_ReconnectMaxBackoff :: string

definition validateClient :: "ClientCfg \<Rightarrow> config_error + ClientCfg" where
  "validateClient c =
     (if cc_DeviceID c = '''' then Inl (Required ''device_id'')
      else if cc_ServerAddr c = '''' then Inl (Required ''server_addr'')
      else
        let c = (if cc_HeartbeatInterval c = 0 then c\<lparr>cc_HeartbeatInterval := 30 * Second\<rparr> else c);
            c = (if cc_ReconnectInitialBackoff c = 0 then c\<lparr>cc_ReconnectInitialBackoff := Second\<rparr> else c);
            c = (if cc_ReconnectMaxBackoff c = 0 then c\<lparr>cc_ReconnectMaxBackoff := 60 * Second\<rparr> else c);
            c = (if cc_ReconnectMaxBackoff c < cc_ReconnectInitialBackoff c
                 then c\<lparr>cc_ReconnectMaxBackoff := cc_ReconnectInitialBackoff c\<rparr> else c)
        in Inr c)"

definition ParseClientYAML :: "(string \<Rightarrow> string + ClientCfg) \<Rightarrow> string \<Rightarrow> config_error + ClientCfg" where
  "ParseClientYAML unyaml data =
     (case unyaml data of Inl e \<Rightarrow> Inl (DecodeErr e) | Inr c \<Rightarrow> validateClient c)"

definition Client_parseJSONDurationField ::
    "(string \<Rightarrow> string option) \<Rightarrow> (string \<Rightarrow> int option) \<Rightarrow> (string \<Rightarrow> duration option) \<Rightarrow> string \<Rightarrow> string \<Rightarrow>
     config_error + duration" where
  "Client_parseJSONDurationField unstr unint pdur raw nm =
     (if length raw = 0 then Inr 0
      else case unstr raw of
        Some s \<Rightarrow> (case pdur s of None \<Rightarrow> Inl (BadDuration nm) | Some d \<Rightarrow> Inr d)
      | None \<Rightarrow> (case unint raw of None \<Rightarrow> Inl (BadDuration nm) | Some ns \<Rightarrow> Inr ns))"

definition client_of_wire :: "(string \<Rightarrow> string \<Rightarrow> config_error + duration) \<Rightarrow> ClientWire \<Rightarrow> config_error + ClientCfg" where
  "client_of_wire dur w =
     (case dur (cw_HeartbeatInterval w) ''heartbeat_interval'' of Inl e \<Rightarrow> Inl e | Inr d1 \<Rightarrow>
     (case dur (cw_ReconnectInitialBackoff w) ''reconnect_initial_backoff'' of Inl e \<Rightarrow> Inl e | Inr d2 \<Rightarrow>
     (case dur (cw_ReconnectMaxBackoff w) ''reconnect_max_backoff'' of Inl e \<Rightarrow> Inl e | Inr d3 \<Rightarrow>
        validateClient \<lparr>cc_DeviceID = cw_DeviceID w, cc_ServerAddr = cw_ServerAddr w, cc_HeartbeatInterval = d1,
          cc_ReconnectInitialBackoff = d2, cc_ReconnectMaxBackoff = d3\<rparr>)))"

definition ParseClientJSON ::
    "(string \<Rightarrow> string + ClientWire) \<Rightarrow> (string \<Rightarrow> string option) \<Rightarrow> (string \<Rightarrow> int option) \<Rightarrow>
     (string \<Rightarrow> duration option) \<Rightarrow> string \<Rightarrow> config_error + ClientCfg" where
  "ParseClientJSON unwire unstr unint pdur data =
     (case unwire data of
        Inl e \<Rightarrow> Inl (DecodeErr e)
      | Inr w \<Rightarrow> client_of_wire (Client_parseJSONDurationField unstr unint pdur) w)"

definition Client_isJSONPath :: "string \<Rightarrow> bool" where
  "Client_isJSONPath path = EqualFold (ext_rev '''' (rev path)) ''.json''"

text \<open>\<open>readf\<close> reads a file; \<open>json\<close> and \<open>yaml\<close> are the two parsers.\<close>

definition LoadClient ::
    "(string \<Rightarrow> string + string) \<Rightarrow> (string \<Rightarrow> config_error + ClientCfg) \<Rightarrow> (string \<Rightarrow> config_error + ClientCfg) \<Rightarrow>
     string \<Rightarrow> config_error + ClientCfg" where
  "LoadClient readf json yaml path =
     (case readf path of
        Inl e \<Rightarrow> Inl (DecodeErr e)
      | Inr data \<Rightarrow> if Client_isJSONPath path then json data else yaml data)"

subsection \<open>What is accepted\<close>

definition valid_client :: "ClientCfg \<Rightarrow> bool" where
  "valid_client c \<longleftrightarrow> cc_DeviceID c \<noteq> '''' \<and> cc_ServerAddr c \<noteq> '''' \<and> cc_HeartbeatInterval c \<noteq> 0 \<and>
     cc_ReconnectInitialBackoff c \<noteq> 0 \<and> cc_ReconnectInitialBackoff c \<le> cc_ReconnectMaxBackoff c"

lemma validateClient_valid: "validateClient c = Inr c' \<Longrightarrow> valid_client c'"
  by (auto simp: validateClient_def valid_client_def Let_def split: if_splits)

lemma validateClient_idem: "valid_client c \<Longrightarrow> cc_ReconnectMaxBackoff c \<noteq> 0 \<Longrightarrow> validateClient c = Inr c"
  by (simp add: validateClient_def valid_client_def Let_def)

text \<open>For positive delays the reconnect loop starts from exactly the configured ones.\<close>

lemma configured_backoff:
  "valid_client c \<Longrightarrow> 0 < cc_ReconnectInitialBackoff c \<Longrightarrow>
   newReconnectBackoff (cc_ReconnectInitialBackoff c) (cc_ReconnectMaxBackoff c) =
     \<lparr>rb_initial = cc_ReconnectInitialBackoff c, rb_max = cc_ReconnectMaxBackoff c, rb_failures = 0\<rparr>"
  by (simp add: valid_client_def newReconnectBackoff_def Let_def)

text \<open>Both formats, and both programs, agree on durations and on what is JSON.\<close>

lemma duration_fields_agree: "Client_parseJSONDurationField = parseJSONDurationField"
  by (intro ext) (simp add: Client_parseJSONDurationField_def parseJSONDurationField_def)

lemma json_paths_agree: "Client_isJSONPath = isJSONPath"
  by (intro ext) (simp add: Client_isJSONPath_def isJSONPath_def)

lemma LoadClient_valid:
  "LoadClient readf (ParseClientJSON unwire unstr unint pdur) (ParseClientYAML unyaml) path = Inr c \<Longrightarrow> valid_client c"
  by (auto simp: LoadClient_def ParseClientJSON_def ParseClientYAML_def client_of_wire_def
      split: sum.splits if_splits dest: validateClient_valid)

end
