(* ===== verification/Aes_Cbc.thy ===== *)
theory Aes_Cbc
  imports Go_Net
begin

text \<open>
  \<open>common/crypto/aescbc/aescbc.go\<close>: AES-CBC with PKCS#7 padding. The block cipher and SHA-256 are a
  record of functions; the chaining of \<open>crypto/cipher\<close>, the padding and the wire format are written
  out. Byte slices are lists of 8-bit words.

  The lemmas show that padding and its removal are exact inverses, errors included, and that
  decryption undoes encryption for every block cipher whose decryption inverts its encryption.
\<close>

definition BlockSize :: nat where "BlockSize = 16"

text \<open>\<open>aes.NewCipher\<close> fails on other key lengths than these; \<open>ca_enc\<close> and \<open>ca_dec\<close> work on one block.\<close>

record cipher_alg =
  ca_sha256 :: "byte list \<Rightarrow> byte list"
  ca_enc :: "byte list \<Rightarrow> byte list \<Rightarrow> byte list"
  ca_dec :: "byte list \<Rightarrow> byte list \<Rightarrow> byte list"

definition aes_key_len :: "byte list \<Rightarrow> bool" where
  "aes_key_len k \<longleftrightarrow> length k = 16 \<or> length k = 24 \<or> length k = 32"

datatype aes_error = KeySize nat | RandErr | ShortWire nat | NotAligned | BadLength | BadLastByte | BadPadding

definition NormalizeKey :: "cipher_alg \<Rightarrow> byte list \<Rightarrow> byte list" where
  "NormalizeKey alg b = (if length b = 16 \<or> length b = 24 \<or> length b = 32 then b else ca_sha256 alg b)"

definition NewCipher :: "byte list \<Rightarrow> aes_error option" where
  "NewCipher k = (if aes_key_len k then None else Some (KeySize (length k)))"

text \<open>The conversion \<open>byte(n)\<close> keeps the low eight bits.\<close>

definition PadPKCS7 :: "byte list \<Rightarrow> nat \<Rightarrow> byte list" where
  "PadPKCS7 p block =
     (let n = block - length p mod block;
          n = (if n = 0 then block else n)
      in p @ replicate n (of_nat n))"

text \<open>The loop that compares the last \<open>n\<close> bytes.\<close>

definition UnpadPKCS7 :: "byte list \<Rightarrow> nat \<Rightarrow> aes_error + byte list" where
  "UnpadPKCS7 p block =
     (if length p = 0 \<or> length p mod block \<noteq> 0 then Inl BadLength
      else let n = unat (p ! (length p - 1)) in
        if n < 1 \<or> n > block then Inl BadLastByte
        else if list_ex (\<lambda>b. b \<noteq> of_nat n) (drop (length p - n) p) then Inl BadPadding
        else Inr (take (length p - n) p))"

definition xor_bytes :: "byte list \<Rightarrow> byte list \<Rightarrow> byte list" where
  "xor_bytes = map2 xor"

text \<open>\<open>CryptBlocks\<close> of the CBC modes, on a slice of whole blocks.\<close>

function cbc_encrypt :: "(byte list \<Rightarrow> byte list) \<Rightarrow> byte list \<Rightarrow> byte list \<Rightarrow> byte list" where
  "cbc_encrypt E iv p =
     (if p = [] then []
      else let c = E (xor_bytes (take BlockSize p) iv) in c @ cbc_encrypt E c (drop BlockSize p))"
  by pat_completeness auto
termination by (relation "measure (\<lambda>(E, iv, p). length p)") (auto simp: BlockSize_def)

function cbc_decrypt :: "(byte list \<Rightarrow> byte list) \<Rightarrow> byte list \<Rightarrow> byte list \<Rightarrow> byte list" where
  "cbc_decrypt D iv c =
     (if c = [] then []
      else xor_bytes (D (take BlockSize c)) iv @ cbc_decrypt D (take BlockSize c) (drop BlockSize c))"
  by pat_completeness auto
termination by (relation "measure (\<lambda>(D, iv, c). length c)") (auto simp: BlockSize_def)

declare cbc_encrypt.simps [simp del] cbc_decrypt.simps [simp del]

text \<open>\<open>rand\<close> is what \<open>io.ReadFull(rand.Reader, iv)\<close> delivers, if it does.\<close>

definition Encrypt :: "cipher_alg \<Rightarrow> byte list option \<Rightarrow> byte list \<Rightarrow> byte list \<Rightarrow> aes_error + byte list" where
  "Encrypt alg rand key plaintext =
     (let k = NormalizeKey alg key in
      case NewCipher k of
        Some e \<Rightarrow> Inl e
      | None \<Rightarrow>
          (case rand of
             None \<Rightarrow> Inl RandErr
           | Some iv \<Rightarrow> Inr (iv @ cbc_encrypt (ca_enc alg k) iv (PadPKCS7 plaintext BlockSize))))"

definition Decrypt :: "cipher_alg \<Rightarrow> byte list \<Rightarrow> byte list \<Rightarrow> aes_error + byte list" where
  "Decrypt alg key wire =
     (if length wire < BlockSize then Inl (ShortWire (length wire))
      else if (length wire - BlockSize) mod BlockSize \<noteq> 0 then Inl NotAligned
      else let iv = take BlockSize wire; ct = drop BlockSize wire; k = NormalizeKey alg key in
        case NewCipher k of
          Some e \<Rightarrow> Inl e
        | None \<Rightarrow> UnpadPKCS7 (cbc_decrypt (ca_dec alg k) iv ct) BlockSize)"

subsection \<open>Padding\<close>

lemma pad_form:
  assumes "0 < block"
  shows "PadPKCS7 p block = p @ replicate (block - length p mod block) (of_nat (block - length p mod block))"
  using mod_less_divisor[OF assms, of "length p"] by (simp add: PadPKCS7_def Let_def)

lemma length_pad: "0 < block \<Longrightarrow> length (PadPKCS7 p block) mod block = 0 \<and> length p < length (PadPKCS7 p block)"
proof -
  assume b: "0 < block"
  have "length p = block * (length p div block) + length p mod block" by simp
  moreover have r: "length p mod block < block" using b by simp
  ultimately have "length p + (block - length p mod block) = block * Suc (length p div block)"
    by (simp only: mult_Suc_right)
  then have "length (PadPKCS7 p block) = block * Suc (length p div block)" unfolding pad_form[OF b] by simp
  moreover have "length p < length (PadPKCS7 p block)" 
    using r unfolding pad_form[OF b] length_append length_replicate by linarith
  ultimately show ?thesis by (simp only: mod_mult_self1_is_0 simp_thms)
qed

lemma unat_byte: "n < 256 \<Longrightarrow> unat (of_nat n :: byte) = n"
  by (simp add: unsigned_of_nat take_bit_eq_mod)

lemma unpad_pad:
  assumes "0 < block" "block < 256"
  shows "UnpadPKCS7 (PadPKCS7 q block) block = Inr q"
proof -
  define n where "n = block - length q mod block"
  have n: "0 < n" "n \<le> block" using assms by (simp_all add: n_def)
  have f: "PadPKCS7 q block = q @ replicate n (of_nat n)" using pad_form[OF assms(1)] by (simp add: n_def)
  have "(q @ replicate n (of_nat n :: byte)) ! (length q + n - 1) = of_nat n"
    by (metis One_nat_def Suc_diff_1 add_diff_assoc2 n(1) diff_add_inverse diff_less lessI nth_append_length_plus nth_replicate Suc_leI zero_less_one Nat.add_diff_assoc)
  moreover have "unat (of_nat n :: byte) = n" using n assms by (simp add: unat_byte)
  ultimately show ?thesis using length_pad[OF assms(1), of q] n
    by (simp add: UnpadPKCS7_def f Let_def list_ex_iff)
qed

lemma pad_unpad:
  assumes "0 < block" "UnpadPKCS7 p block = Inr q"
  shows "p = PadPKCS7 q block"
proof -
  define n where "n = unat (p ! (length p - 1))"
  have c: "p \<noteq> []" "length p mod block = 0" "1 \<le> n" "n \<le> block"
    "\<forall>b \<in> set (drop (length p - n) p). b = of_nat n" "q = take (length p - n) p"
    using assms(2) by (auto simp: UnpadPKCS7_def n_def Let_def list_ex_iff split: if_splits)
  have "block \<le> length p" using c(1,2) by (meson mod_less dvd_imp_le length_greater_0_conv mod_0_imp_dvd)
  then have l: "length q = length p - n" "n \<le> length p" using c(4,6) by simp_all
  have "drop (length p - n) p = replicate n (of_nat n)"
    using c(5) l by (intro replicate_eqI) auto
  then have p: "p = q @ replicate n (of_nat n)" using c(6) by (metis append_take_drop_id)
  obtain k where k: "length p = block * k" using c(2) by (metis mod_0_imp_dvd dvd_def)
  then obtain j where j: "k = Suc j" using c(1) by (cases k) auto
  have "length q = block * j + (block - n)" using l k j c(4) by simp
  then have "length q mod block = (block - n) mod block" by simp
  then have "block - length q mod block = n" using c(3,4) by simp
  then show ?thesis using p pad_form[OF assms(1), of q] by simp
qed

text \<open>
  For block sizes below 256 \<open>UnpadPKCS7\<close> accepts exactly the outputs of \<open>PadPKCS7\<close>, and returns
  what was padded: it never cuts bytes that are no padding, and never rejects a padded text.
\<close>

theorem Unpad_exact:
  assumes "0 < block" "block < 256"
  shows "UnpadPKCS7 p block = Inr q \<longleftrightarrow> p = PadPKCS7 q block"
  using pad_unpad[OF assms(1)] unpad_pad[OF assms] by blast

theorem Unpad_exact_witness:
  "UnpadPKCS7 [7, 7, 2, 2] 4 = Inr [7, 7] \<and> UnpadPKCS7 [7, 7, 3, 2] 4 \<noteq> Inr [7, 7]"
  using Unpad_exact[of 4 "[7, 7, 2, 2]" "[7, 7]"] Unpad_exact[of 4 "[7, 7, 3, 2]" "[7, 7]"]
  by (simp add: PadPKCS7_def Let_def numeral_2_eq_2)

subsection \<open>The round trip\<close>

text \<open>What AES and SHA-256 promise: a permutation of the blocks for every key, and the digest's length.\<close>

definition cipher_ok :: "cipher_alg \<Rightarrow> bool" where
  "cipher_ok alg \<longleftrightarrow> (\<forall>b. length (ca_sha256 alg b) = 32) \<and>
     (\<forall>k b. aes_key_len k \<longrightarrow> length b = BlockSize \<longrightarrow>
        length (ca_enc alg k b) = BlockSize \<and> ca_dec alg k (ca_enc alg k b) = b)"

lemma xor_bytes_twice: "length a = length b \<Longrightarrow> xor_bytes (xor_bytes a b) b = a"
  by (induction a b rule: list_induct2) (simp_all add: xor_bytes_def xor.assoc)

lemma length_xor_bytes [simp]: "length (xor_bytes a b) = min (length a) (length b)"
  by (simp add: xor_bytes_def)

lemma cbc_inverse:
  assumes "\<And>b. length b = BlockSize \<Longrightarrow> length (E b) = BlockSize \<and> D (E b) = b"
  shows "length iv = BlockSize \<Longrightarrow> length p mod BlockSize = 0 \<Longrightarrow>
    cbc_decrypt D iv (cbc_encrypt E iv p) = p \<and> length (cbc_encrypt E iv p) = length p"
proof (induction p arbitrary: iv rule: length_induct)
  case (1 p)
  show ?case
  proof (cases "p = []")
    case False
    let ?b = "take BlockSize p" and ?q = "drop BlockSize p"
    define c where "c = E (xor_bytes ?b iv)"
    have "BlockSize dvd length p" using 1(3) by auto
    then have le: "BlockSize \<le> length p" using False by (intro dvd_imp_le) simp_all
    then have c: "length c = BlockSize" "D c = xor_bytes ?b iv" using assms 1(2) by (simp_all add: c_def)
    have x: "xor_bytes (xor_bytes ?b iv) iv = ?b" using le 1(2) by (intro xor_bytes_twice) simp
    have "length ?q < length p" using le by (simp add: BlockSize_def)
    moreover have "length ?q mod BlockSize = 0" using 1(3) le by (simp add: le_mod_geq)
    ultimately have ih: "cbc_decrypt D c (cbc_encrypt E c ?q) = ?q \<and> length (cbc_encrypt E c ?q) = length ?q"
      using 1(1)[rule_format, of ?q c] c(1) by simp
    have e: "cbc_encrypt E iv p = c @ cbc_encrypt E c ?q"
      using False by (subst cbc_encrypt.simps) (simp add: c_def Let_def)
    have "c \<noteq> []" using c(1) by (auto simp: BlockSize_def)
    then have "cbc_decrypt D iv (c @ cbc_encrypt E c ?q) = xor_bytes (D c) iv @ cbc_decrypt D c (cbc_encrypt E c ?q)"
      using c(1) by (subst cbc_decrypt.simps) simp
    then show ?thesis using ih c x e le by simp
  qed (simp add: cbc_encrypt.simps cbc_decrypt.simps)
qed

lemma NormalizeKey_len: "cipher_ok alg \<Longrightarrow> aes_key_len (NormalizeKey alg k)"
  by (simp add: cipher_ok_def NormalizeKey_def aes_key_len_def)

lemma decrypt_encrypt:
  assumes "cipher_ok alg" "case rand of None \<Rightarrow> True | Some iv \<Rightarrow> length iv = BlockSize"
  shows "case Encrypt alg rand key plaintext of
      Inl e \<Rightarrow> rand = None \<and> e = RandErr
    | Inr wire \<Rightarrow> Decrypt alg key wire = Inr plaintext \<and> take BlockSize wire = the rand \<and>
        length plaintext + BlockSize < length wire"
proof (cases rand)
  case (Some iv)
  let ?k = "NormalizeKey alg key" and ?p = "PadPKCS7 plaintext BlockSize"
  let ?ct = "cbc_encrypt (ca_enc alg ?k) iv ?p"
  have k: "aes_key_len ?k" by (rule NormalizeKey_len[OF assms(1)])
  have iv: "length iv = BlockSize" using assms(2) Some by simp
  have p: "length ?p mod BlockSize = 0 \<and> length plaintext < length ?p"
    by (rule length_pad) (simp add: BlockSize_def)
  then have "length ?p mod BlockSize = 0" by simp
  then have ct: "cbc_decrypt (ca_dec alg ?k) iv ?ct = ?p \<and> length ?ct = length ?p"
    using assms(1) k iv by (intro cbc_inverse) (auto simp: cipher_ok_def)
  have "UnpadPKCS7 ?p BlockSize = Inr plaintext" by (rule unpad_pad) (simp_all add: BlockSize_def)
  then show ?thesis using Some k iv p ct by (simp add: Encrypt_def Decrypt_def NewCipher_def Let_def)
qed (use NormalizeKey_len[OF assms(1)] in \<open>simp add: Encrypt_def NewCipher_def\<close>)

text \<open>
  Decryption with the same key returns the plaintext of every successful encryption, whatever its
  length and that of the key, when the block cipher's decryption inverts its encryption; encryption fails only
  when there is no randomness.
\<close>

theorem Decrypt_Encrypt:
  assumes "cipher_ok alg" "case rand of None \<Rightarrow> True | Some iv \<Rightarrow> length iv = BlockSize"
  shows "case Encrypt alg rand key plaintext of
      Inl e \<Rightarrow> rand = None \<and> e = RandErr
    | Inr wire \<Rightarrow> Decrypt alg key wire = Inr plaintext \<and> take BlockSize wire = the rand \<and>
        length plaintext + BlockSize < length wire"
  using assms(2) by (rule decrypt_encrypt[OF assms(1)])

text \<open>A block cipher that adds the first key byte, and a digest of the right length.\<close>

definition demo_cipher :: cipher_alg where
  "demo_cipher = \<lparr>ca_sha256 = (\<lambda>b. replicate 32 (of_nat (length b))), ca_enc = (\<lambda>k. map (\<lambda>x. x + hd k)),
     ca_dec = (\<lambda>k. map (\<lambda>x. x - hd k))\<rparr>"

lemma demo_cipher_ok: "cipher_ok demo_cipher"
  by (simp add: cipher_ok_def demo_cipher_def comp_def)

theorem Decrypt_Encrypt_witness:
  "Decrypt demo_cipher [1, 2, 3] (projr (Encrypt demo_cipher (Some (replicate 16 9)) [1, 2, 3] [7, 8])) = Inr [7, 8]"
proof -
  have "isl (Encrypt demo_cipher (Some (replicate 16 9)) [1, 2, 3] [7, 8]) = False"
    by (simp add: Encrypt_def NormalizeKey_def NewCipher_def aes_key_len_def demo_cipher_def)
  then show ?thesis
    using Decrypt_Encrypt[OF demo_cipher_ok, of "Some (replicate 16 9)" "[1, 2, 3]" "[7, 8]"]
    by (auto simp: BlockSize_def split: sum.splits)
qed

end
