(* ===== verification/Register_Client.thy ===== *)
theory Register_Client
  imports Aes_Cbc Go_Encoding
begin

text \<open>
  \<open>client/register/crypto.go\<close> and \<open>client/register/register.go\<close>: the device's first registration. The JSON
  codec, the HTTP client and the clock are arguments; the encryption is that of \<open>Aes_Cbc\<close>.
\<close>

subsection \<open>The payload\<close>

text \<open>The base64 text of the JSON is what is encrypted; \<open>[]byte(s)\<close> is \<open>bytes_of_string\<close>.\<close>

definition BuildRegisterPlayloadB64 :: "cipher_alg \<Rightarrow> byte list option \<Rightarrow> byte list \<Rightarrow> byte list \<Rightarrow> aes_error + string" where
  "BuildRegisterPlayloadB64 alg rand aesKey jsonA =
     (case Encrypt alg rand aesKey (bytes_of_string (b64_encode jsonA)) of
        Inl e \<Rightarrow> Inl e
      | Inr wire \<Rightarrow> Inr (b64_encode wire))"

datatype payload_error = OuterBase64 | AesErr aes_error | InnerBase64

definition decodeEncryptedPayloadForTest :: "cipher_alg \<Rightarrow> byte list \<Rightarrow> string \<Rightarrow> payload_error + string" where
  "decodeEncryptedPayloadForTest alg aesKey b64Wire =
     (case b64_decode b64Wire of
        None \<Rightarrow> Inl OuterBase64
      | Some wire \<Rightarrow>
          (case Decrypt alg aesKey wire of
             Inl e \<Rightarrow> Inl (AesErr e)
           | Inr plain \<Rightarrow>
               (case b64_decode (string_of_bytes plain) of
                  None \<Rightarrow> Inl InnerBase64
                | Some out \<Rightarrow> Inr (string_of_bytes out))))"

subsection \<open>Registration\<close>

record RegDeviceInfo =
  ri_OS :: string
  ri_Brand :: string
  ri_Model :: string
  ri_IMEI :: string
  ri_AndroidID :: string
  ri_SerialNumber :: string
  ri_Timestamp :: int

record requestEnvelope =
  re_Playload :: string
  re_Timestamp :: int

record RegResponse =
  rr_DeviceID :: string
  rr_ServerAddr :: string
  rr_HeartbeatIntervalSec :: int
  rr_ReconnectInitialBackoffSec :: int
  rr_ReconnectMaxBackoffSec :: int

text \<open>The durations are products of 64-bit integers.\<close>

definition rr_HeartbeatInterval :: "RegResponse \<Rightarrow> duration" where
  "rr_HeartbeatInterval r = wrap64 (rr_HeartbeatIntervalSec r * Second)"

definition rr_ReconnectInitialBackoff :: "RegResponse \<Rightarrow> duration" where
  "rr_ReconnectInitialBackoff r = wrap64 (rr_ReconnectInitialBackoffSec r * Second)"

definition rr_ReconnectMaxBackoff :: "RegResponse \<Rightarrow> duration" where
  "rr_ReconnectMaxBackoff r = wrap64 (rr_ReconnectMaxBackoffSec r * Second)"

datatype 'e register_error =
    KeyRequired
  | MarshalInfoErr 'e
  | EncryptErr aes_error
  | MarshalEnvErr 'e
  | RequestErr 'e
  | HttpErr 'e
  | StatusErr int string
  | ParseRespErr 'e
  | IncompleteResp

text \<open>
  What registration meets: the clock in milliseconds, the codecs, the randomness, whether a request
  can be made, and the HTTP exchange: the status and the body, or an error.
\<close>

record 'e reg_env =
  rg_now :: int
  rg_info :: "RegDeviceInfo \<Rightarrow> 'e + byte list"
  rg_rand :: "byte list option"
  rg_envelope :: "requestEnvelope \<Rightarrow> 'e + string"
  rg_newreq :: "'e option"
  rg_do :: "string \<Rightarrow> 'e + (int \<times> string)"
  rg_resp :: "string \<Rightarrow> 'e + RegResponse"

definition RegisterDevice ::
    "cipher_alg \<Rightarrow> 'e reg_env \<Rightarrow> RegDeviceInfo \<Rightarrow> byte list \<Rightarrow> 'e register_error + RegResponse" where
  "RegisterDevice alg g info aesKey =
     (if length aesKey = 0 then Inl KeyRequired
      else let info = (if ri_Timestamp info = 0 then info\<lparr>ri_Timestamp := rg_now g\<rparr> else info) in
        (case rg_info g info of
           Inl e \<Rightarrow> Inl (MarshalInfoErr e)
         | Inr jsonA \<Rightarrow>
        (case BuildRegisterPlayloadB64 alg (rg_rand g) aesKey jsonA of
           Inl e \<Rightarrow> Inl (EncryptErr e)
         | Inr playload \<Rightarrow>
        (case rg_envelope g \<lparr>re_Playload = playload, re_Timestamp = ri_Timestamp info\<rparr> of
           Inl e \<Rightarrow> Inl (MarshalEnvErr e)
         | Inr envBytes \<Rightarrow>
        (case rg_newreq g of
           Some e \<Rightarrow> Inl (RequestErr e)
         | None \<Rightarrow>
        (case rg_do g envBytes of
           Inl e \<Rightarrow> Inl (HttpErr e)
         | Inr (status, body) \<Rightarrow>
             if status \<noteq> 200 then
               let snippet = TrimSpace body in
               Inl (StatusErr status (if length snippet > 256 then take 256 snippet else snippet))
             else (case rg_resp g body of
                     Inl e \<Rightarrow> Inl (ParseRespErr e)
                   | Inr r \<Rightarrow> if rr_DeviceID r = '''' \<or> rr_ServerAddr r = '''' then Inl IncompleteResp else Inr r)))))))"

text \<open>The payload is undone by the decoder, whatever the JSON and the key.\<close>

lemma payload_bytes:
  assumes "cipher_ok alg" "length iv = BlockSize" "BuildRegisterPlayloadB64 alg (Some iv) key jsonA = Inr p"
  obtains wire where "b64_decode p = Some wire" "Decrypt alg key wire = Inr (bytes_of_string (b64_encode jsonA))" "p \<noteq> ''''"
proof -
  obtain wire where w: "Encrypt alg (Some iv) key (bytes_of_string (b64_encode jsonA)) = Inr wire" "p = b64_encode wire"
    using assms(3) by (auto simp: BuildRegisterPlayloadB64_def split: sum.splits)
  have "Decrypt alg key wire = Inr (bytes_of_string (b64_encode jsonA)) \<and> BlockSize < length wire"
    using decrypt_encrypt[OF assms(1), of "Some iv" key "bytes_of_string (b64_encode jsonA)"] assms(2) w(1)
    by (auto simp: BlockSize_def)
  then have "wire \<noteq> []" "Decrypt alg key wire = Inr (bytes_of_string (b64_encode jsonA))" by auto
  then show thesis using that[of wire] w(2) b64_roundtrip by simp
qed

lemma payload_builds: "cipher_ok alg \<Longrightarrow> length iv = BlockSize \<Longrightarrow> \<exists>p. BuildRegisterPlayloadB64 alg (Some iv) key jsonA = Inr p"
  using decrypt_encrypt[of alg "Some iv" key "bytes_of_string (b64_encode jsonA)"]
  by (auto simp: BuildRegisterPlayloadB64_def split: sum.splits)

end
