(* ===== verification/Mobile.thy ===== *)
theory Mobile
  imports Step_System Client_Config Client_Session Register_Client
begin

text \<open>
  \<open>mobile/mobile.go\<close>: the binding for Android. Its global state is guarded by a mutex, but \<open>Stop\<close> and
  \<open>SetNetworkType\<close> use what they read under the lock only after releasing it, so each of them is
  two steps, and the second may come at any later time.

  The lemmas show that at most one client runs, that a late \<open>Stop\<close> or \<open>SetNetworkType\<close> never reaches
  another client than the one that ran when it was called, and that the binding accepts the same
  settings as the command-line client.
\<close>

subsection \<open>Settings\<close>

record MobileCfg =
  mc_DeviceID :: string
  mc_ServerAddr :: string
  mc_HeartbeatIntervalNs :: int
  mc_ReconnectInitialBackoffNs :: int
  mc_ReconnectMaxBackoffNs :: int

datatype mobile_error = CfgNil | MobileRequired string

text \<open>The argument may be a nil pointer.\<close>

definition parseClientCfg :: "MobileCfg option \<Rightarrow> mobile_error + ClientCfg" where
  "parseClientCfg cfg =
     (case cfg of
        None \<Rightarrow> Inl CfgNil
      | Some cfg \<Rightarrow>
          if mc_DeviceID cfg = '''' then Inl (MobileRequired ''device_id'')
          else if mc_ServerAddr cfg = '''' then Inl (MobileRequired ''server_addr'')
          else
            let c = \<lparr>cc_DeviceID = mc_DeviceID cfg, cc_ServerAddr = mc_ServerAddr cfg,
                     cc_HeartbeatInterval = mc_HeartbeatIntervalNs cfg,
                     cc_ReconnectInitialBackoff = mc_ReconnectInitialBackoffNs cfg,
                     cc_ReconnectMaxBackoff = mc_ReconnectMaxBackoffNs cfg\<rparr>;
                c = (if cc_HeartbeatInterval c = 0 then c\<lparr>cc_HeartbeatInterval := 30 * Second\<rparr> else c);
                c = (if cc_ReconnectInitialBackoff c = 0 then c\<lparr>cc_ReconnectInitialBackoff := Second\<rparr> else c);
                c = (if cc_ReconnectMaxBackoff c = 0 then c\<lparr>cc_ReconnectMaxBackoff := 60 * Second\<rparr> else c);
                c = (if cc_ReconnectMaxBackoff c < cc_ReconnectInitialBackoff c
                     then c\<lparr>cc_ReconnectMaxBackoff := cc_ReconnectInitialBackoff c\<rparr> else c)
            in Inr c)"

definition client_cfg :: "MobileCfg \<Rightarrow> ClientCfg" where
  "client_cfg cfg = \<lparr>cc_DeviceID = mc_DeviceID cfg, cc_ServerAddr = mc_ServerAddr cfg,
     cc_HeartbeatInterval = mc_HeartbeatIntervalNs cfg, cc_ReconnectInitialBackoff = mc_ReconnectInitialBackoffNs cfg,
     cc_ReconnectMaxBackoff = mc_ReconnectMaxBackoffNs cfg\<rparr>"

definition as_config_error :: "mobile_error \<Rightarrow> config_error" where
  "as_config_error e = (case e of CfgNil \<Rightarrow> Required ''cfg'' | MobileRequired f \<Rightarrow> Required f)"

text \<open>
  C28. The Android binding and the command-line client treat the same settings alike: both accept them
  with the same defaults and corrections, or both reject them for the same field.
\<close>

theorem mobile_config_agrees:
  "validateClient (client_cfg cfg) =
     (case parseClientCfg (Some cfg) of Inl e \<Rightarrow> Inl (as_config_error e) | Inr c \<Rightarrow> Inr c)"
  by (simp add: validateClient_def parseClientCfg_def client_cfg_def as_config_error_def Let_def)

subsection \<open>The lifecycle\<close>

text \<open>
  Each \<open>Run\<close> that passes its check gets a number; \<open>mb_cancel\<close> and \<open>mb_stats\<close> are the pointers of
  \<open>runState\<close>, \<open>mb_heap\<close> the statistics they point to, \<open>mb_cancelled\<close> the runs whose context is cancelled.
  \<open>mb_late\<close> holds the second halves of calls that have read the state. \<open>mb_running\<close> are the runs
  that have not returned; \<open>mb_stopped\<close> and \<open>mb_set\<close> record, for the statements, the run that was
  active when \<open>Stop\<close> or \<open>SetNetworkType\<close> was called.
\<close>

datatype late_call = LateCancel nat | LateSet nat string

record mobile =
  mb_next :: nat
  mb_cancel :: "nat option"
  mb_stats :: "nat option"
  mb_heap :: "nat \<Rightarrow> HeartbeatStats"
  mb_cancelled :: "nat set"
  mb_late :: "late_call list"
  mb_running :: "nat set"
  mb_stopped :: "nat set"
  mb_set :: "(nat \<times> string) set"

definition mobile_init :: mobile where
  "mobile_init = \<lparr>mb_next = 0, mb_cancel = None, mb_stats = None, mb_heap = (\<lambda>_. NewHeartbeatStats 0), mb_cancelled = {},
     mb_late = [], mb_running = {}, mb_stopped = {}, mb_set = {}\<rparr>"

datatype mobile_call =
    MbRun "MobileCfg option"
  | MbReturn nat
  | MbStop
  | MbSetNetworkType string
  | MbLate nat
  | MbStats nat "HeartbeatStats \<Rightarrow> HeartbeatStats"   \<comment> \<open>the heartbeat loop of a run\<close>

datatype run_result = RunConfig mobile_error | RunInProgress | RunStarted nat

definition Mobile_Run :: "MobileCfg option \<Rightarrow> mobile \<Rightarrow> run_result \<times> mobile" where
  "Mobile_Run cfg s =
     (case parseClientCfg cfg of
        Inl e \<Rightarrow> (RunConfig e, s)
      | Inr c \<Rightarrow>
          let i = mb_next s;
              s = s\<lparr>mb_next := Suc i, mb_heap := (mb_heap s)(i := NewHeartbeatStats 0)\<rparr> in
          if mb_cancel s \<noteq> None then (RunInProgress, s\<lparr>mb_cancelled := insert i (mb_cancelled s)\<rparr>)
          else (RunStarted i, s\<lparr>mb_cancel := Some i, mb_stats := Some i, mb_running := insert i (mb_running s)\<rparr>))"

text \<open>The deferred function of \<open>Run\<close>.\<close>

definition Mobile_Return :: "nat \<Rightarrow> mobile \<Rightarrow> mobile" where
  "Mobile_Return i s =
     s\<lparr>mb_cancel := None, mb_stats := None, mb_cancelled := insert i (mb_cancelled s), mb_running := mb_running s - {i}\<rparr>"

definition Mobile_Stop :: "mobile \<Rightarrow> mobile" where
  "Mobile_Stop s =
     (case mb_cancel s of
        None \<Rightarrow> s
      | Some i \<Rightarrow> s\<lparr>mb_late := mb_late s @ [LateCancel i], mb_stopped := insert i (mb_stopped s)\<rparr>)"

definition Mobile_SetNetworkType :: "string \<Rightarrow> mobile \<Rightarrow> mobile" where
  "Mobile_SetNetworkType t s =
     (case mb_stats s of
        None \<Rightarrow> s
      | Some i \<Rightarrow> s\<lparr>mb_late := mb_late s @ [LateSet i t], mb_set := insert (i, t) (mb_set s)\<rparr>)"

definition late_exec :: "late_call \<Rightarrow> mobile \<Rightarrow> mobile" where
  "late_exec l s =
     (case l of
        LateCancel i \<Rightarrow> s\<lparr>mb_cancelled := insert i (mb_cancelled s)\<rparr>
      | LateSet i t \<Rightarrow> s\<lparr>mb_heap := (mb_heap s)(i := SetNetType t (mb_heap s i))\<rparr>)"

text \<open>The heartbeat loop changes the counters, never the network type.\<close>

definition keeps_netType :: "(HeartbeatStats \<Rightarrow> HeartbeatStats) \<Rightarrow> bool" where
  "keeps_netType f \<longleftrightarrow> (\<forall>s. hs_netType (f s) = hs_netType s)"

inductive mobile_step :: "mobile \<Rightarrow> mobile_call \<Rightarrow> mobile \<Rightarrow> bool" where
  mb_run: "mobile_step s (MbRun cfg) (snd (Mobile_Run cfg s))"
| mb_return: "i \<in> mb_running s \<Longrightarrow> mobile_step s (MbReturn i) (Mobile_Return i s)"
| mb_stop: "mobile_step s MbStop (Mobile_Stop s)"
| mb_set_type: "mobile_step s (MbSetNetworkType t) (Mobile_SetNetworkType t s)"
| mb_late_call: "n < length (mb_late s) \<Longrightarrow>
    mobile_step s (MbLate n) (late_exec (mb_late s ! n) (s\<lparr>mb_late := take n (mb_late s) @ drop (Suc n) (mb_late s)\<rparr>))"
| mb_heartbeat: "i \<in> mb_running s \<Longrightarrow> keeps_netType f \<Longrightarrow>
    mobile_step s (MbStats i f) (s\<lparr>mb_heap := (mb_heap s)(i := f (mb_heap s i))\<rparr>)"

inductive_cases mobile_stepE: "mobile_step s c s'"

lemma heartbeat_keeps_netType: "keeps_netType Sent" "keeps_netType (AckOK r)" "keeps_netType AckLost"
  "keeps_netType (\<lambda>s. snd (SnapshotForSend s))"
  by (simp_all add: keeps_netType_def Sent_def AckOK_def AckLost_def SnapshotForSend_def Let_def)

subsection \<open>The invariant\<close>

definition late_ok :: "mobile \<Rightarrow> late_call \<Rightarrow> bool" where
  "late_ok s l \<longleftrightarrow> (case l of LateCancel i \<Rightarrow> i \<in> mb_stopped s \<and> i < mb_next s
     | LateSet i t \<Rightarrow> (i, t) \<in> mb_set s \<and> i < mb_next s)"

definition mobile_inv :: "mobile \<Rightarrow> bool" where
  "mobile_inv s \<longleftrightarrow> mb_running s = set_option (mb_cancel s) \<and> mb_stats s = mb_cancel s \<and>
     (\<forall>i \<in> mb_running s. i < mb_next s \<and> (i \<in> mb_cancelled s \<longrightarrow> i \<in> mb_stopped s)) \<and>
     (\<forall>l \<in> set (mb_late s). late_ok s l) \<and>
     (\<forall>i. i \<in> mb_cancelled s \<longrightarrow> i < mb_next s) \<and>
     (\<forall>i t. hs_netType (mb_heap s i) = Some t \<longrightarrow> (i, t) \<in> mb_set s \<and> i < mb_next s)"

lemma new_stats_netType: "hs_netType (NewHeartbeatStats w) = None"
  by (simp add: NewHeartbeatStats_def Let_def)

lemma mobile_inv_init: "mobile_inv mobile_init"
  by (simp add: mobile_inv_def mobile_init_def new_stats_netType)

lemma late_ok_mono:
  "late_ok s l \<Longrightarrow> mb_stopped s \<subseteq> mb_stopped s' \<Longrightarrow> mb_set s \<subseteq> mb_set s' \<Longrightarrow> mb_next s \<le> mb_next s' \<Longrightarrow> late_ok s' l"
  by (auto simp: late_ok_def split: late_call.splits)

lemma mobile_inv_run: "mobile_inv s \<Longrightarrow> mobile_inv (snd (Mobile_Run cfg s))"
  by (fastforce simp: mobile_inv_def Mobile_Run_def Let_def new_stats_netType less_Suc_eq late_ok_def
      split: sum.splits late_call.splits if_splits)

lemma mobile_inv_step: "mobile_step s c s' \<Longrightarrow> mobile_inv s \<Longrightarrow> mobile_inv s'"
proof (induction rule: mobile_step.induct)
  case (mb_run s cfg)
  then show ?case by (rule mobile_inv_run)
next
  case (mb_return i s)
  then show ?case by (auto simp: mobile_inv_def Mobile_Return_def late_ok_def split: late_call.splits option.splits)
next
  case (mb_stop s)
  then show ?case
    by (auto simp: mobile_inv_def Mobile_Stop_def late_ok_def split: late_call.splits option.splits)
next
  case (mb_set_type s t)
  then show ?case
    by (auto simp: mobile_inv_def Mobile_SetNetworkType_def late_ok_def split: late_call.splits option.splits)
next
  case (mb_late_call n s)
  let ?l = "mb_late s ! n" and ?s = "s\<lparr>mb_late := take n (mb_late s) @ drop (Suc n) (mb_late s)\<rparr>"
  have "late_ok s ?l" using mb_late_call by (simp add: mobile_inv_def)
  moreover have "mobile_inv ?s"
    using mb_late_call by (auto simp: mobile_inv_def late_ok_def dest: in_set_takeD in_set_dropD split: late_call.splits)
  ultimately show ?case
    by (cases ?l) (auto simp: mobile_inv_def late_exec_def late_ok_def SetNetType_def split: late_call.splits)
next
  case (mb_heartbeat i s f)
  then show ?case by (auto simp: mobile_inv_def keeps_netType_def late_ok_def split: late_call.splits)
qed

interpretation mobile_life: step_system "\<lambda>s. s = mobile_init" mobile_step mobile_inv
  by unfold_locales (auto simp: mobile_inv_init intro: mobile_inv_step)

text \<open>Where the recorded calls come from.\<close>

lemma run_snoc_cases:
  assumes "run step s (xs @ [x]) t"
  obtains m where "run step s xs m" "step m x t"
  using assms by (auto simp: run_append)

lemma stopped_step: "mobile_step s c s' \<Longrightarrow> i \<in> mb_stopped s' \<Longrightarrow> i \<in> mb_stopped s \<or> c = MbStop \<and> mb_cancel s = Some i"
  by (auto simp: Mobile_Run_def Mobile_Return_def Mobile_Stop_def Mobile_SetNetworkType_def late_exec_def Let_def
      split: sum.splits option.splits late_call.splits if_splits elim!: mobile_stepE)

lemma set_step: "mobile_step s c s' \<Longrightarrow> (i, t) \<in> mb_set s' \<Longrightarrow>
   (i, t) \<in> mb_set s \<or> c = MbSetNetworkType t \<and> mb_stats s = Some i"
  by (auto simp: Mobile_Run_def Mobile_Return_def Mobile_Stop_def Mobile_SetNetworkType_def late_exec_def Let_def
      split: sum.splits option.splits late_call.splits if_splits elim!: mobile_stepE)

text \<open>The call \<open>c\<close> came while run \<open>i\<close> was active.\<close>

definition called_during :: "mobile_call list \<Rightarrow> mobile_call \<Rightarrow> nat \<Rightarrow> bool" where
  "called_during calls c i \<longleftrightarrow> (\<exists>pre post s. calls = pre @ c # post \<and> run mobile_step mobile_init pre s \<and> mb_running s = {i})"

lemma called_during_snoc: "called_during calls c i \<Longrightarrow> called_during (calls @ [x]) c i"
  unfolding called_during_def by fastforce

lemma recorded_calls:
  "run mobile_step mobile_init calls s \<Longrightarrow>
   (\<forall>i \<in> mb_stopped s. called_during calls MbStop i) \<and>
   (\<forall>(i, t) \<in> mb_set s. called_during calls (MbSetNetworkType t) i)"
proof (induction calls arbitrary: s rule: rev_induct)
  case Nil
  then show ?case by (auto simp: mobile_init_def)
next
  case (snoc c calls)
  then obtain m where m: "run mobile_step mobile_init calls m" "mobile_step m c s" by (blast elim: run_snoc_cases)
  have inv: "mobile_inv m" by (rule mobile_life.history_inv[OF refl m(1)])
  have now: "called_during (calls @ [c]) c i" if "mb_cancel m = Some i" for i
    unfolding called_during_def using m(1) inv that
    by (intro exI[of _ calls] exI[of _ "[]"] exI[of _ m]) (simp add: mobile_inv_def)
  have "mb_stats m = mb_cancel m" using inv by (simp add: mobile_inv_def)
  then show ?case
    using snoc.IH[OF m(1)] stopped_step[OF m(2)] set_step[OF m(2)] now called_during_snoc
    by (fastforce simp: called_during_def[symmetric])
qed

text \<open>
  C21. In every history of calls from any threads, at most one client runs; \<open>Run\<close> starts exactly when none
  does; and the calls that finish late hit no other client: a running client is cancelled only
  by a \<open>Stop\<close>, and reports only a network type by a \<open>SetNetworkType\<close>, that was called while it ran.
\<close>

theorem one_client_at_a_time:
  assumes "run mobile_step mobile_init calls s"
  shows "(case fst (Mobile_Run cfg s) of
      RunConfig e \<Rightarrow> parseClientCfg cfg = Inl e
    | RunInProgress \<Rightarrow> \<exists>i. mb_running s = {i}
    | RunStarted i \<Rightarrow> mb_running s = {} \<and> mb_running (snd (Mobile_Run cfg s)) = {i}) \<and>
    (\<forall>i \<in> mb_running s. mb_running s = {i} \<and>
      (i \<in> mb_cancelled s \<longrightarrow> called_during calls MbStop i) \<and>
      (NetType (mb_heap s i) \<noteq> '''' \<longrightarrow> called_during calls (MbSetNetworkType (NetType (mb_heap s i))) i))"
proof -
  have inv: "mobile_inv s" by (rule mobile_life.history_inv[OF refl assms])
  note rec = recorded_calls[OF assms]
  have "case fst (Mobile_Run cfg s) of
      RunConfig e \<Rightarrow> parseClientCfg cfg = Inl e
    | RunInProgress \<Rightarrow> \<exists>i. mb_running s = {i}
    | RunStarted i \<Rightarrow> mb_running s = {} \<and> mb_running (snd (Mobile_Run cfg s)) = {i}"
    using inv by (auto simp: Mobile_Run_def mobile_inv_def Let_def split: sum.split)
  moreover have "mb_running s = {i} \<and> (i \<in> mb_cancelled s \<longrightarrow> called_during calls MbStop i) \<and>
      (NetType (mb_heap s i) \<noteq> '''' \<longrightarrow> called_during calls (MbSetNetworkType (NetType (mb_heap s i))) i)"
    if "i \<in> mb_running s" for i
  proof (intro conjI impI)
    show "mb_running s = {i}" using inv that by (cases "mb_cancel s") (auto simp: mobile_inv_def)
    show "called_during calls MbStop i" if "i \<in> mb_cancelled s"
      using inv that \<open>i \<in> mb_running s\<close> rec by (auto simp: mobile_inv_def)
    show "called_during calls (MbSetNetworkType (NetType (mb_heap s i))) i" if "NetType (mb_heap s i) \<noteq> ''''"
    proof -
      have "hs_netType (mb_heap s i) = Some (NetType (mb_heap s i))"
        using that by (auto simp: NetType_def split: option.splits if_splits)
      then show ?thesis using inv rec by (auto simp: mobile_inv_def)
    qed
  qed
  ultimately show ?thesis by blast
qed

definition demo_mobile_cfg :: MobileCfg where
  "demo_mobile_cfg = \<lparr>mc_DeviceID = ''dev-1'', mc_ServerAddr = ''s.example:443'', mc_HeartbeatIntervalNs = 0,
     mc_ReconnectInitialBackoffNs = 0, mc_ReconnectMaxBackoffNs = 0\<rparr>"

definition demo_running :: mobile where
  "demo_running = snd (Mobile_Run (Some demo_mobile_cfg) mobile_init)"

theorem one_client_at_a_time_witness:
  "mb_running demo_running = {0} \<and> (\<exists>i. mb_running (Mobile_Stop demo_running) = {i}) \<and>
   fst (Mobile_Run (Some demo_mobile_cfg) (Mobile_Stop demo_running)) = RunInProgress"
proof -
  have r: "fst (Mobile_Run (Some demo_mobile_cfg) mobile_init) = RunStarted 0"
    "fst (Mobile_Run (Some demo_mobile_cfg) (Mobile_Stop demo_running)) = RunInProgress"
    by code_simp+
  have h0: "run mobile_step mobile_init [] mobile_init" by (rule run_Nil)
  have h1: "run mobile_step mobile_init [MbRun (Some demo_mobile_cfg), MbStop] (Mobile_Stop demo_running)"
    unfolding demo_running_def by (auto intro: mb_run mb_stop)
  show ?thesis
    using one_client_at_a_time[OF h0, of "Some demo_mobile_cfg"] one_client_at_a_time[OF h1, of "Some demo_mobile_cfg"] r
    unfolding demo_running_def by simp
qed

subsection \<open>Registration\<close>

record RegisterResult =
  mr_DeviceID :: string
  mr_ServerAddr :: string
  mr_HeartbeatIntervalSec :: int
  mr_ReconnectInitialBackoffSec :: int
  mr_ReconnectMaxBackoffSec :: int

text \<open>The timeout only bounds the HTTP exchange, which is in the environment.\<close>

definition Mobile_Register ::
    "cipher_alg \<Rightarrow> 'e reg_env \<Rightarrow> string \<Rightarrow> string \<Rightarrow> string \<Rightarrow> string \<Rightarrow> string \<Rightarrow> string \<Rightarrow> int \<Rightarrow> byte list \<Rightarrow>
     'e register_error + RegisterResult" where
  "Mobile_Register alg g osName brand model imei androidID serial timestampMs aesKey =
     (case RegisterDevice alg g \<lparr>ri_OS = osName, ri_Brand = brand, ri_Model = model, ri_IMEI = imei,
         ri_AndroidID = androidID, ri_SerialNumber = serial, ri_Timestamp = timestampMs\<rparr> aesKey of
        Inl e \<Rightarrow> Inl e
      | Inr r \<Rightarrow> Inr \<lparr>mr_DeviceID = rr_DeviceID r, mr_ServerAddr = rr_ServerAddr r,
          mr_HeartbeatIntervalSec = rr_HeartbeatIntervalSec r,
          mr_ReconnectInitialBackoffSec = rr_ReconnectInitialBackoffSec r,
          mr_ReconnectMaxBackoffSec = rr_ReconnectMaxBackoffSec r\<rparr>)"

text \<open>The lookup that \<open>Run\<close> hands to the client, from the platform's resolver.\<close>

definition resolver_lookup :: "(string \<Rightarrow> 'e + string) option \<Rightarrow> 'e lookup_fun option" where
  "resolver_lookup resolver =
     (case resolver of
        None \<Rightarrow> None
      | Some lookupHost \<Rightarrow>
          Some (\<lambda>host. case lookupHost host of Inl e \<Rightarrow> Inl e | Inr s \<Rightarrow> Inr (ParseAddrsFromLookupString s)))"

text \<open>What a registered device passes on is accepted as a configuration.\<close>

lemma registered_config:
  assumes "Mobile_Register alg g os b m im an se ts key = Inr r"
  shows "\<exists>c. parseClientCfg (Some \<lparr>mc_DeviceID = mr_DeviceID r, mc_ServerAddr = mr_ServerAddr r,
    mc_HeartbeatIntervalNs = h, mc_ReconnectInitialBackoffNs = i, mc_ReconnectMaxBackoffNs = x\<rparr>) = Inr c"
proof -
  have "mr_DeviceID r \<noteq> ''''" "mr_ServerAddr r \<noteq> ''''"
    using assms by (auto simp: Mobile_Register_def RegisterDevice_def Let_def split: sum.splits option.splits if_splits)
  then show ?thesis by (simp add: parseClientCfg_def Let_def)
qed

end
