(* ===== verification/Admin_Store.thy ===== *)
theory Admin_Store
  imports Go_Encoding Go_Float "HOL-Library.AList"
begin

text \<open>
  \<open>admin/store/store.go\<close> and \<open>admin/store/mongo.go\<close>: the persisted devices. A MongoDB document is a
  map from field paths to BSON values; the collection is the driver's, so its operations are
  arguments: a record of functions on an abstract collection \<open>'col\<close>, with a view of its documents by
  \<open>_id\<close>. What the driver's documentation says of them is the predicate \<open>mongo_ok\<close>.

  The lemmas show that devices are deduplicated by fingerprint, that re-registration keeps the
  network data and the id, and that a network update never clobbers what a heartbeat leaves out.
\<close>

subsection \<open>Data\<close>

record DeviceInfo =
  di_OS :: string
  di_Brand :: string
  di_Model :: string
  di_IMEI :: string
  di_AndroidID :: string
  di_SerialNumber :: string
  di_ClientTimestampMs :: int
  di_RemoteAddr :: string

text \<open>Times are nanoseconds of the Unix epoch, in UTC; \<open>None\<close> is the zero time.\<close>

record StoredDevice =
  sd_DeviceID :: string
  sd_Fingerprint :: string
  sd_OS :: string
  sd_Brand :: string
  sd_Model :: string
  sd_IMEI :: string
  sd_AndroidID :: string
  sd_SerialNumber :: string
  sd_FirstRegisterAt :: "int option"
  sd_LastRegisterAt :: "int option"
  sd_LastClientTimestamp :: int
  sd_LastRemoteAddr :: string
  sd_RegisterCount :: int

record NetworkSnapshot =
  ns_LastIP :: string
  ns_NetType :: string
  ns_AvgRTTms :: "int option"
  ns_LossRate :: "f64 option"
  ns_Country :: string
  ns_CountryName :: string
  ns_Region :: string
  ns_RegionCode :: string
  ns_City :: string
  ns_CurTsMs :: int
  ns_ServerRecvMs :: int

definition Fingerprint :: "DeviceInfo \<Rightarrow> string" where
  "Fingerprint i =
     (case filter (\<lambda>s. s \<noteq> '''') (map TrimSpace [di_AndroidID i, di_IMEI i, di_SerialNumber i]) of
        [] \<Rightarrow> '''' | s # _ \<Rightarrow> s)"

text \<open>\<open>rand\<close> is what \<open>rand.Read\<close> delivers: six bytes, or nothing.\<close>

definition NewDeviceID :: "byte list option \<Rightarrow> string option" where
  "NewDeviceID rand = (case rand of None \<Rightarrow> None | Some b \<Rightarrow> Some (''dev-'' @ hex_encode b))"

subsection \<open>The collection\<close>

datatype bson = BStr string | BInt64 int | BInt32 int | BDateTime int | BDouble f64

type_synonym doc = "string \<rightharpoonup> bson"

text \<open>The driver stores a \<open>time.Time\<close> as a date of milliseconds.\<close>

definition bson_time :: "int \<Rightarrow> bson" where
  "bson_time ns = BDateTime (ns div 1000000)"

record update_doc =
  u_setOnInsert :: "(string \<times> bson) list"
  u_set :: "(string \<times> bson) list"
  u_inc :: "(string \<times> int) list"

text \<open>
  \<open>c_insert\<close> fails or succeeds; \<open>c_upsert fp\<close> is \<open>FindOneAndUpdate\<close> with the filter on the fingerprint,
  upsert and the document after the update; \<open>c_update id\<close> is \<open>UpdateOne\<close> with the filter on \<open>_id\<close>, which
  returns the number of matched documents.
\<close>

record ('col, 'e) collection =
  c_docs :: "'col \<Rightarrow> (string \<rightharpoonup> doc)"
  c_insert :: "(string \<times> bson) list \<Rightarrow> 'col \<Rightarrow> 'e option \<times> 'col"
  c_upsert :: "string \<Rightarrow> update_doc \<Rightarrow> 'col \<Rightarrow> ('e + doc option) \<times> 'col"
  c_update :: "string \<Rightarrow> (string \<times> bson) list \<Rightarrow> 'col \<Rightarrow> ('e + nat) \<times> 'col"

datatype 'e store_error = DeviceIDErr | InsertErr 'e | UpsertErr 'e | UpsertNoDoc | EmptyStoreID | UpdateErr 'e | ErrUnknownDevice

subsection \<open>Operations\<close>

definition str_field :: "doc \<Rightarrow> string \<Rightarrow> string" where
  "str_field m k = (case m k of Some (BStr v) \<Rightarrow> v | _ \<Rightarrow> '''')"

definition date_field :: "doc \<Rightarrow> string \<Rightarrow> int option" where
  "date_field m k = (case m k of Some (BDateTime v) \<Rightarrow> Some (v * 1000000) | _ \<Rightarrow> None)"

definition decodeDevice :: "doc \<Rightarrow> StoredDevice" where
  "decodeDevice m =
     \<lparr>sd_DeviceID = str_field m ''_id'', sd_Fingerprint = str_field m ''fingerprint'', sd_OS = str_field m ''os'',
       sd_Brand = str_field m ''brand'', sd_Model = str_field m ''model'', sd_IMEI = str_field m ''imei'',
       sd_AndroidID = str_field m ''android_id'', sd_SerialNumber = str_field m ''serial_number'',
       sd_FirstRegisterAt = date_field m ''first_register_at'', sd_LastRegisterAt = date_field m ''last_register_at'',
       sd_LastClientTimestamp = (case m ''last_client_ts'' of Some (BInt64 v) \<Rightarrow> v | _ \<Rightarrow> 0),
       sd_LastRemoteAddr = str_field m ''last_remote'',
       sd_RegisterCount = (case m ''register_count'' of Some (BInt64 v) \<Rightarrow> v | Some (BInt32 v) \<Rightarrow> v | _ \<Rightarrow> 0)\<rparr>"

definition info_fields :: "DeviceInfo \<Rightarrow> (string \<times> bson) list" where
  "info_fields i =
     [(''os'', BStr (di_OS i)), (''brand'', BStr (di_Brand i)), (''model'', BStr (di_Model i)),
      (''imei'', BStr (di_IMEI i)), (''android_id'', BStr (di_AndroidID i)), (''serial_number'', BStr (di_SerialNumber i))]"

definition insert_doc :: "int \<Rightarrow> string \<Rightarrow> DeviceInfo \<Rightarrow> (string \<times> bson) list" where
  "insert_doc now i info =
     [(''_id'', BStr i), (''fingerprint'', BStr '''')] @ info_fields info @
     [(''first_register_at'', bson_time now), (''last_register_at'', bson_time now),
      (''last_client_ts'', BInt64 (di_ClientTimestampMs info)), (''last_remote'', BStr (di_RemoteAddr info)),
      (''register_count'', BInt64 1)]"

definition upsert_doc :: "int \<Rightarrow> string \<Rightarrow> DeviceInfo \<Rightarrow> update_doc" where
  "upsert_doc now newID info =
     \<lparr>u_setOnInsert = [(''_id'', BStr newID), (''fingerprint'', BStr (Fingerprint info)), (''first_register_at'', bson_time now)],
       u_set = info_fields info @
         [(''last_register_at'', bson_time now), (''last_client_ts'', BInt64 (di_ClientTimestampMs info)),
          (''last_remote'', BStr (di_RemoteAddr info))],
       u_inc = [(''register_count'', 1)]\<rparr>"

definition UpsertDevice ::
    "('col, 'e) collection \<Rightarrow> int \<Rightarrow> byte list option \<Rightarrow> DeviceInfo \<Rightarrow> 'col \<Rightarrow> ('e store_error + StoredDevice) \<times> 'col" where
  "UpsertDevice m now rand info c =
     (let fp = Fingerprint info in
      if fp = '''' then
        (case NewDeviceID rand of
           None \<Rightarrow> (Inl DeviceIDErr, c)
         | Some i \<Rightarrow>
             (case c_insert m (insert_doc now i info) c of
                (Some e, c) \<Rightarrow> (Inl (InsertErr e), c)
              | (None, c) \<Rightarrow>
                  (Inr \<lparr>sd_DeviceID = i, sd_Fingerprint = '''', sd_OS = di_OS info, sd_Brand = di_Brand info,
                     sd_Model = di_Model info, sd_IMEI = di_IMEI info, sd_AndroidID = di_AndroidID info,
                     sd_SerialNumber = di_SerialNumber info, sd_FirstRegisterAt = Some now, sd_LastRegisterAt = Some now,
                     sd_LastClientTimestamp = di_ClientTimestampMs info, sd_LastRemoteAddr = di_RemoteAddr info,
                     sd_RegisterCount = 1\<rparr>, c)))
      else
        (case NewDeviceID rand of
           None \<Rightarrow> (Inl DeviceIDErr, c)
         | Some newID \<Rightarrow>
             (case c_upsert m fp (upsert_doc now newID info) c of
                (Inl e, c) \<Rightarrow> (Inl (UpsertErr e), c)
              | (Inr None, c) \<Rightarrow> (Inl UpsertNoDoc, c)
              | (Inr (Some raw), c) \<Rightarrow> (Inr (decodeDevice raw), c))))"

text \<open>The fields that a snapshot writes; \<open>now\<close> is the clock.\<close>

definition set_str :: "string \<Rightarrow> string \<Rightarrow> (string \<times> bson) list" where
  "set_str k v = (if v \<noteq> '''' then [(k, BStr v)] else [])"

definition network_set :: "int \<Rightarrow> NetworkSnapshot \<Rightarrow> (string \<times> bson) list" where
  "network_set now s =
     set_str ''network.last_ip'' (ns_LastIP s) @
     set_str ''network.net_type'' (ns_NetType s) @
     (case ns_AvgRTTms s of None \<Rightarrow> [] | Some v \<Rightarrow> [(''network.avg_rtt_ms'', BInt64 v)]) @
     (case ns_LossRate s of None \<Rightarrow> [] | Some v \<Rightarrow> [(''network.loss_rate'', BDouble v)]) @
     set_str ''network.country'' (ns_Country s) @
     set_str ''network.country_name'' (ns_CountryName s) @
     set_str ''network.region'' (ns_Region s) @
     set_str ''network.region_code'' (ns_RegionCode s) @
     set_str ''network.city'' (ns_City s) @
     (if ns_CurTsMs s > 0 then [(''network.cur_ts_ms'', BInt64 (ns_CurTsMs s))] else []) @
     [(''network.last_seen_at'',
       if ns_ServerRecvMs s > 0 then BDateTime (ns_ServerRecvMs s) else bson_time now)]"

definition UpdateDeviceNetwork ::
    "('col, 'e) collection \<Rightarrow> int \<Rightarrow> string \<Rightarrow> NetworkSnapshot \<Rightarrow> 'col \<Rightarrow> 'e store_error option \<times> 'col" where
  "UpdateDeviceNetwork m now deviceID snap c =
     (if deviceID = '''' then (Some EmptyStoreID, c)
      else case c_update m deviceID (network_set now snap) c of
        (Inl e, c) \<Rightarrow> (Some (UpdateErr e), c)
      | (Inr matched, c) \<Rightarrow> (if matched = 0 then Some ErrUnknownDevice else None, c))"

subsection \<open>Opening and closing\<close>

datatype mongo_effect = MConnect | MPing | MDisconnect | MIndex string "(string \<times> int) list" bool bool

datatype 'e open_error = ConnectErr 'e | PingErr 'e | IndexErr string 'e

text \<open>\<open>MIndex name keys unique partial\<close>; \<open>create\<close> says how the creation of an index ends.\<close>

definition ensureIndexes :: "(string \<Rightarrow> 'e option) \<Rightarrow> 'e open_error option \<times> mongo_effect list" where
  "ensureIndexes create =
     (let i1 = MIndex ''uniq_fingerprint'' [(''fingerprint'', 1)] True True;
          i2 = MIndex ''country_lastseen'' [(''network.country'', 1), (''network.last_seen_at'', - 1)] False False
      in case create ''uniq_fingerprint'' of
           Some e \<Rightarrow> (Some (IndexErr ''uniq_fingerprint'' e), [i1])
         | None \<Rightarrow>
             (case create ''country_lastseen'' of
                Some e \<Rightarrow> (Some (IndexErr ''country_lastseen'' e), [i1, i2])
              | None \<Rightarrow> (None, [i1, i2])))"

definition NewMongoDeviceStore ::
    "'e option \<Rightarrow> 'e option \<Rightarrow> (string \<Rightarrow> 'e option) \<Rightarrow> 'e open_error option \<times> mongo_effect list" where
  "NewMongoDeviceStore connect ping create =
     (case connect of
        Some e \<Rightarrow> (Some (ConnectErr e), [])
      | None \<Rightarrow>
          (case ping of
             Some e \<Rightarrow> (Some (PingErr e), [MConnect, MPing, MDisconnect])
           | None \<Rightarrow>
               (case ensureIndexes create of
                  (Some e, effs) \<Rightarrow> (Some e, [MConnect, MPing] @ effs @ [MDisconnect])
                | (None, effs) \<Rightarrow> (None, [MConnect, MPing] @ effs))))"

text \<open>A store that cannot be opened leaves no connection behind.\<close>

lemma open_disconnects:
  assumes "NewMongoDeviceStore connect ping create = (r, effs)"
  shows "(MDisconnect \<in> set effs \<longleftrightarrow> MConnect \<in> set effs \<and> r \<noteq> None) \<and>
    (r = None \<longrightarrow> MIndex ''uniq_fingerprint'' [(''fingerprint'', 1)] True True \<in> set effs)"
  using assms by (auto simp: NewMongoDeviceStore_def ensureIndexes_def Let_def split: option.splits prod.splits)

definition MongoDeviceStore_Close :: "bool \<Rightarrow> 'e option \<Rightarrow> 'e option \<times> mongo_effect list" where
  "MongoDeviceStore_Close isnil disconnect = (if isnil then (None, []) else (disconnect, [MDisconnect]))"

subsection \<open>What the driver promises\<close>

text \<open>
  \<open>$set\<close> and \<open>$setOnInsert\<close> write fields, \<open>$inc\<close> adds to a 64-bit counter. An operation that
  reports an error may or may not have taken effect.
\<close>

definition inc_field :: "string \<times> int \<Rightarrow> doc option \<Rightarrow> doc option" where
  "inc_field kn od =
     (case od of
        None \<Rightarrow> None
      | Some d \<Rightarrow>
          (case d (fst kn) of
             None \<Rightarrow> Some (d(fst kn \<mapsto> BInt64 (snd kn)))
           | Some (BInt64 v) \<Rightarrow> if in_int64 (v + snd kn) then Some (d(fst kn \<mapsto> BInt64 (v + snd kn))) else None
           | Some (BInt32 v) \<Rightarrow> Some (d(fst kn \<mapsto> BInt64 (v + snd kn)))
           | _ \<Rightarrow> None))"

definition apply_update :: "update_doc \<Rightarrow> bool \<Rightarrow> doc \<Rightarrow> doc option" where
  "apply_update u ins d =
     fold inc_field (u_inc u) (Some (d ++ map_of (if ins then u_setOnInsert u else []) ++ map_of (u_set u)))"

definition has_fp :: "string \<Rightarrow> doc \<Rightarrow> bool" where
  "has_fp fp d \<longleftrightarrow> d ''fingerprint'' = Some (BStr fp)"

definition insert_effect :: "(string \<times> bson) list \<Rightarrow> (string \<rightharpoonup> doc) \<Rightarrow> (string \<rightharpoonup> doc) \<Rightarrow> bool" where
  "insert_effect fs D D' \<longleftrightarrow>
     (\<exists>i. map_of fs ''_id'' = Some (BStr i) \<and> D i = None \<and> D' = D(i \<mapsto> map_of fs))"

definition upsert_effect :: "string \<Rightarrow> update_doc \<Rightarrow> (string \<rightharpoonup> doc) \<Rightarrow> doc \<Rightarrow> (string \<rightharpoonup> doc) \<Rightarrow> bool" where
  "upsert_effect fp u D d D' \<longleftrightarrow>
     (\<exists>i d0. D i = Some d0 \<and> has_fp fp d0 \<and> apply_update u False d0 = Some d \<and> D' = D(i \<mapsto> d)) \<or>
     (\<forall>i d0. D i = Some d0 \<longrightarrow> \<not> has_fp fp d0) \<and>
     (\<exists>i. map_of (u_setOnInsert u) ''_id'' = Some (BStr i) \<and> D i = None \<and>
        apply_update u True [''fingerprint'' \<mapsto> BStr fp] = Some d \<and> D' = D(i \<mapsto> d))"

definition update_effect :: "string \<Rightarrow> (string \<times> bson) list \<Rightarrow> (string \<rightharpoonup> doc) \<Rightarrow> nat \<Rightarrow> (string \<rightharpoonup> doc) \<Rightarrow> bool" where
  "update_effect i fs D n D' \<longleftrightarrow>
     (case D i of None \<Rightarrow> n = 0 \<and> D' = D | Some d \<Rightarrow> n = 1 \<and> D' = D(i \<mapsto> d ++ map_of fs))"

definition mongo_ok :: "('col, 'e) collection \<Rightarrow> bool" where
  "mongo_ok m \<longleftrightarrow>
     (\<forall>fs c. case c_insert m fs c of
        (None, c') \<Rightarrow> insert_effect fs (c_docs m c) (c_docs m c')
      | (Some e, c') \<Rightarrow> c_docs m c' = c_docs m c \<or> insert_effect fs (c_docs m c) (c_docs m c')) \<and>
     (\<forall>fp u c. case c_upsert m fp u c of
        (Inr (Some d), c') \<Rightarrow> upsert_effect fp u (c_docs m c) d (c_docs m c')
      | (_, c') \<Rightarrow> c_docs m c' = c_docs m c \<or> (\<exists>d. upsert_effect fp u (c_docs m c) d (c_docs m c'))) \<and>
     (\<forall>i fs c. case c_update m i fs c of
        (Inr n, c') \<Rightarrow> update_effect i fs (c_docs m c) n (c_docs m c')
      | (Inl e, c') \<Rightarrow> c_docs m c' = c_docs m c \<or> (\<exists>n. update_effect i fs (c_docs m c) n (c_docs m c')))"

lemma mongo_insert:
  assumes "mongo_ok m" "c_insert m fs c = (r, c')"
  shows "insert_effect fs (c_docs m c) (c_docs m c') \<or> r \<noteq> None \<and> c_docs m c' = c_docs m c"
  using assms(1)[unfolded mongo_ok_def, THEN conjunct1, rule_format, of fs c] assms(2)
  by (auto split: option.splits)

lemma mongo_upsert:
  assumes "mongo_ok m" "c_upsert m fp u c = (r, c')"
  shows "(\<exists>d. upsert_effect fp u (c_docs m c) d (c_docs m c') \<and> (\<forall>d'. r = Inr (Some d') \<longrightarrow> d' = d)) \<or>
   (\<forall>d'. r \<noteq> Inr (Some d')) \<and> c_docs m c' = c_docs m c"
  using assms(1)[unfolded mongo_ok_def, THEN conjunct2, THEN conjunct1, THEN spec, of fp, THEN spec, of u, THEN spec, of c] assms(2)
  by (auto split: option.splits sum.splits)

lemma mongo_update:
  assumes "mongo_ok m" "c_update m i fs c = (r, c')"
  shows "(\<exists>n. update_effect i fs (c_docs m c) n (c_docs m c') \<and> (\<forall>k. r = Inr k \<longrightarrow> k = n)) \<or>
   (\<exists>e. r = Inl e) \<and> c_docs m c' = c_docs m c"
  using assms(1)[unfolded mongo_ok_def, THEN conjunct2, THEN conjunct2, THEN spec, of i, THEN spec, of fs, THEN spec, of c] assms(2)
  by (auto split: sum.splits)

subsection \<open>The store's invariant\<close>

definition store_ok :: "(string \<rightharpoonup> doc) \<Rightarrow> bool" where
  "store_ok D \<longleftrightarrow> (\<forall>i d. D i = Some d \<longrightarrow> d ''_id'' = Some (BStr i)) \<and>
     (\<forall>i j d d' fp. D i = Some d \<longrightarrow> D j = Some d' \<longrightarrow> has_fp fp d \<longrightarrow> has_fp fp d' \<longrightarrow> fp \<noteq> '''' \<longrightarrow> i = j)"

text \<open>The fields of a device's document that are no registration data.\<close>

definition is_network :: "string \<Rightarrow> bool" where
  "is_network k \<longleftrightarrow> take 8 k = ''network.''"

lemma inc_field_Some:
  assumes "inc_field (k, n) (Some b) = Some d"
  shows "k' \<noteq> k \<Longrightarrow> d k' = b k'"
    and "d k = (case b k of None \<Rightarrow> Some (BInt64 n) | Some (BInt64 v) \<Rightarrow> Some (BInt64 (v + n))
      | Some (BInt32 v) \<Rightarrow> Some (BInt64 (v + n)) | x \<Rightarrow> x)"
  using assms by (auto simp: inc_field_def split: option.splits bson.splits if_splits)

definition upsert_base :: "int \<Rightarrow> string \<Rightarrow> DeviceInfo \<Rightarrow> bool \<Rightarrow> doc \<Rightarrow> doc" where
  "upsert_base now newID info ins d0 =
     d0 ++ map_of (if ins then u_setOnInsert (upsert_doc now newID info) else []) ++
     map_of (u_set (upsert_doc now newID info))"

lemma upsert_base_fields:
  "upsert_base now newID info ins d0 ''_id'' = (if ins then Some (BStr newID) else d0 ''_id'')"
  "upsert_base now newID info ins d0 ''fingerprint'' = (if ins then Some (BStr (Fingerprint info)) else d0 ''fingerprint'')"
  "upsert_base now newID info ins d0 ''first_register_at'' = (if ins then Some (bson_time now) else d0 ''first_register_at'')"
  "upsert_base now newID info ins d0 ''last_register_at'' = Some (bson_time now)"
  "upsert_base now newID info ins d0 ''register_count'' = d0 ''register_count''"
  by (simp_all add: upsert_base_def upsert_doc_def info_fields_def map_add_def)

lemma upsert_keys:
  "list_all (\<lambda>(k, v). \<not> is_network k) (u_setOnInsert (upsert_doc now newID info) @ u_set (upsert_doc now newID info))"
  by (simp add: upsert_doc_def info_fields_def is_network_def)

lemma upsert_base_network: "is_network k \<Longrightarrow> upsert_base now newID info ins d0 k = d0 k"
proof -
  assume k: "is_network k"
  then have "map_of (u_setOnInsert (upsert_doc now newID info)) k = None" "map_of (u_set (upsert_doc now newID info)) k = None"
    using upsert_keys[of now newID info] by (auto simp: map_of_eq_None_iff list_all_iff)
  then show ?thesis by (simp add: upsert_base_def map_add_def)
qed

lemma upsert_fields:
  assumes "apply_update (upsert_doc now newID info) ins d0 = Some d"
  shows "is_network k \<Longrightarrow> d k = d0 k"
    and "d ''_id'' = (if ins then Some (BStr newID) else d0 ''_id'')"
    and "d ''fingerprint'' = (if ins then Some (BStr (Fingerprint info)) else d0 ''fingerprint'')"
    and "d ''first_register_at'' = (if ins then Some (bson_time now) else d0 ''first_register_at'')"
    and "d ''last_register_at'' = Some (bson_time now)"
    and "d ''register_count'' = (case d0 ''register_count'' of
        None \<Rightarrow> Some (BInt64 1) | Some (BInt64 v) \<Rightarrow> Some (BInt64 (v + 1)) | Some (BInt32 v) \<Rightarrow> Some (BInt64 (v + 1)) | x \<Rightarrow> x)"
proof -
  have "u_inc (upsert_doc now newID info) = [(''register_count'', 1)]" by (simp add: upsert_doc_def)
  then have "inc_field (''register_count'', 1) (Some (upsert_base now newID info ins d0)) = Some d"
    using assms by (simp add: apply_update_def upsert_base_def)
  note d = inc_field_Some[OF this]
  { assume "is_network k"
    then have "k \<noteq> ''register_count''" by (auto simp: is_network_def)
    then show "d k = d0 k" using d(1)[of k] upsert_base_network \<open>is_network k\<close> by simp }
  show "d ''_id'' = (if ins then Some (BStr newID) else d0 ''_id'')"
    "d ''fingerprint'' = (if ins then Some (BStr (Fingerprint info)) else d0 ''fingerprint'')"
    "d ''first_register_at'' = (if ins then Some (bson_time now) else d0 ''first_register_at'')"
    "d ''last_register_at'' = Some (bson_time now)"
    using d(1)[of "''_id''"] d(1)[of "''fingerprint''"] d(1)[of "''first_register_at''"]
      d(1)[of "''last_register_at''"] by (simp_all add: upsert_base_fields)
  show "d ''register_count'' = (case d0 ''register_count'' of
        None \<Rightarrow> Some (BInt64 1) | Some (BInt64 v) \<Rightarrow> Some (BInt64 (v + 1)) | Some (BInt32 v) \<Rightarrow> Some (BInt64 (v + 1)) | x \<Rightarrow> x)"
    using d(2) unfolding upsert_base_fields .
qed

lemma network_fields: "k \<in> fst ` set (network_set now s) \<Longrightarrow> is_network k"
  by (auto simp: network_set_def set_str_def is_network_def split: option.splits if_splits)

lemma network_not_key [simp]: "\<not> is_network ''_id''" "\<not> is_network ''fingerprint''"
  by (simp_all add: is_network_def)

lemma update_other: "\<not> is_network k \<Longrightarrow> (d ++ map_of (network_set now s)) k = d k"
  using network_fields[of k now s] by (metis map_add_dom_app_simps(3) map_of_eq_None_iff domIff)

text \<open>What one call does to the documents: nothing, a new document, or new fields of one.\<close>

lemma Upsert_cases:
  assumes "mongo_ok m" "UpsertDevice m now rand info c = (r, c')"
  obtains "c_docs m c' = c_docs m c" "\<forall>dev. r \<noteq> Inr dev"
  | (anonymous) i where "Fingerprint info = ''''" "NewDeviceID rand = Some i" "c_docs m c i = None"
      "c_docs m c' = (c_docs m c)(i \<mapsto> map_of (insert_doc now i info))"
      "\<forall>dev. r = Inr dev \<longrightarrow> sd_DeviceID dev = i"
  | (known) i newID d0 d where "Fingerprint info \<noteq> ''''" "NewDeviceID rand = Some newID" "c_docs m c i = Some d0"
      "has_fp (Fingerprint info) d0" "apply_update (upsert_doc now newID info) False d0 = Some d"
      "c_docs m c' = (c_docs m c)(i \<mapsto> d)" "\<forall>dev. r = Inr dev \<longrightarrow> dev = decodeDevice d"
  | (new) newID d where "Fingerprint info \<noteq> ''''" "NewDeviceID rand = Some newID" "c_docs m c newID = None"
      "\<forall>i d0. c_docs m c i = Some d0 \<longrightarrow> \<not> has_fp (Fingerprint info) d0"
      "apply_update (upsert_doc now newID info) True [''fingerprint'' \<mapsto> BStr (Fingerprint info)] = Some d"
      "c_docs m c' = (c_docs m c)(newID \<mapsto> d)" "\<forall>dev. r = Inr dev \<longrightarrow> dev = decodeDevice d"
proof (cases "NewDeviceID rand")
  case None
  then show thesis using that(1) assms(2) by (auto simp: UpsertDevice_def Let_def split: if_splits)
next
  case (Some newID)
  show thesis
  proof (cases "Fingerprint info = ''''")
    case True
    obtain r' where i: "c_insert m (insert_doc now newID info) c = (r', c')" "\<forall>dev. r = Inr dev \<longrightarrow> r' = None \<and> sd_DeviceID dev = newID"
      using assms(2) True Some by (auto simp: UpsertDevice_def Let_def split: prod.splits option.splits)
    have "map_of (insert_doc now newID info) ''_id'' = Some (BStr newID)" by (simp add: insert_doc_def)
    then show thesis using mongo_insert[OF assms(1) i(1)] i(2) that(1,2) True Some
      by (auto simp: insert_effect_def)
  next
    case False
    obtain r' where u: "c_upsert m (Fingerprint info) (upsert_doc now newID info) c = (r', c')"
      "\<forall>dev. r = Inr dev \<longrightarrow> (\<exists>raw. r' = Inr (Some raw) \<and> dev = decodeDevice raw)"
      using assms(2) False Some by (auto simp: UpsertDevice_def Let_def split: prod.splits option.splits sum.splits)
    have "map_of (u_setOnInsert (upsert_doc now newID info)) ''_id'' = Some (BStr newID)" by (simp add: upsert_doc_def)
    then show thesis using mongo_upsert[OF assms(1) u(1)] u(2) that(1,3,4) False Some
      unfolding upsert_effect_def by fastforce
  qed
qed

lemma Network_cases:
  assumes "mongo_ok m" "UpdateDeviceNetwork m now deviceID snap c = (r, c')"
  obtains "c_docs m c' = c_docs m c" "r \<noteq> None" "r = Some ErrUnknownDevice \<Longrightarrow> deviceID \<noteq> '''' \<and> c_docs m c deviceID = None"
  | d where "deviceID \<noteq> ''''" "c_docs m c deviceID = Some d"
      "c_docs m c' = (c_docs m c)(deviceID \<mapsto> d ++ map_of (network_set now snap))" "r \<noteq> Some ErrUnknownDevice"
proof (cases "deviceID = ''''")
  case True
  then show thesis using that(1) assms(2) by (auto simp: UpdateDeviceNetwork_def)
next
  case False
  obtain r' where u: "c_update m deviceID (network_set now snap) c = (r', c')"
    and r: "r = (case r' of Inl e \<Rightarrow> Some (UpdateErr e) | Inr n \<Rightarrow> if n = 0 then Some ErrUnknownDevice else None)"
    using assms(2) False by (auto simp: UpdateDeviceNetwork_def split: prod.splits sum.splits)
  show thesis
    using mongo_update[OF assms(1) u] that False
    by (cases r') (auto simp: r update_effect_def split: option.splits)
qed

text \<open>Histories of the store.\<close>

datatype store_call =
    CallUpsert int "byte list option" DeviceInfo
  | CallNetwork int string NetworkSnapshot

fun store_exec :: "('col, 'e) collection \<Rightarrow> store_call \<Rightarrow> 'col \<Rightarrow> 'col" where
  "store_exec m (CallUpsert now rand info) c = snd (UpsertDevice m now rand info c)"
| "store_exec m (CallNetwork now i snap) c = snd (UpdateDeviceNetwork m now i snap c)"

definition store_run :: "('col, 'e) collection \<Rightarrow> store_call list \<Rightarrow> 'col \<Rightarrow> 'col" where
  "store_run m calls c = fold (store_exec m) calls c"

subsection \<open>The interface of the store\<close>

text \<open>
  What the handler and the consumer rely on, as the interface \<open>DeviceStore\<close> of \<open>store.go\<close> promises it:
  \<open>has st i fp\<close> says that \<open>st\<close> holds a device with id \<open>i\<close> and fingerprint \<open>fp\<close>. Devices stay, a
  registration returns one of them, and a fingerprint has one id.
\<close>

locale device_store =
  fixes ok :: "'st \<Rightarrow> bool" and has :: "'st \<Rightarrow> string \<Rightarrow> string \<Rightarrow> bool"
    and exec :: "store_call \<Rightarrow> 'st \<Rightarrow> 'st"
    and upsert :: "int \<Rightarrow> byte list option \<Rightarrow> DeviceInfo \<Rightarrow> 'st \<Rightarrow> ('e store_error + StoredDevice) \<times> 'st"
  assumes exec_upsert: "exec (CallUpsert now rand info) st = snd (upsert now rand info st)"
    and exec_ok: "ok st \<Longrightarrow> ok (exec c st)"
    and exec_has: "ok st \<Longrightarrow> has st i fp \<Longrightarrow> has (exec c st) i fp"
    and upsert_has: "ok st \<Longrightarrow> upsert now rand info st = (Inr dev, st') \<Longrightarrow> has st' (sd_DeviceID dev) (Fingerprint info)"
    and has_unique: "ok st \<Longrightarrow> has st i fp \<Longrightarrow> has st j fp \<Longrightarrow> fp \<noteq> '''' \<Longrightarrow> i = j"
begin

lemma upsert_ok: "ok st \<Longrightarrow> upsert now rand info st = (r, st') \<Longrightarrow> ok st'"
  using exec_ok[of st "CallUpsert now rand info"] by (simp add: exec_upsert)

lemma run_ok: "ok st \<Longrightarrow> ok (fold exec calls st)"
  by (induction calls arbitrary: st) (simp_all add: exec_ok)

lemma run_has: "ok st \<Longrightarrow> has st i fp \<Longrightarrow> has (fold exec calls st) i fp"
  by (induction calls arbitrary: st) (simp_all add: exec_ok exec_has)

lemma registered_stays:
  "ok st \<Longrightarrow> upsert now rand info st = (Inr dev, st') \<Longrightarrow>
   ok (fold exec calls st') \<and> has (fold exec calls st') (sd_DeviceID dev) (Fingerprint info)"
  using upsert_ok upsert_has run_ok run_has by blast

lemma same_fingerprint_same_id:
  assumes "ok st" "Fingerprint info2 = Fingerprint info1" "Fingerprint info1 \<noteq> ''''"
    and "upsert now1 rand1 info1 st = (Inr d1, st1)"
    and "upsert now2 rand2 info2 (fold exec calls st1) = (Inr d2, st2)"
  shows "sd_DeviceID d2 = sd_DeviceID d1 \<and> ok st2"
proof -
  have 1: "ok (fold exec calls st1)" "has (fold exec calls st1) (sd_DeviceID d1) (Fingerprint info1)"
    using registered_stays[OF assms(1,4)] by simp_all
  have "st2 = exec (CallUpsert now2 rand2 info2) (fold exec calls st1)" using assms(5) by (simp add: exec_upsert)
  then have "ok st2" "has st2 (sd_DeviceID d1) (Fingerprint info1)" using exec_ok exec_has 1 by simp_all
  moreover have "has st2 (sd_DeviceID d2) (Fingerprint info1)" using upsert_has[OF 1(1) assms(5)] assms(2) by simp
  ultimately show ?thesis using has_unique assms(3) by blast
qed

end

text \<open>With the update of the network data: a device that the store holds is never unknown.\<close>

locale network_store = device_store ok has exec upsert
  for ok :: "'st \<Rightarrow> bool" and has and exec and upsert :: "int \<Rightarrow> byte list option \<Rightarrow> DeviceInfo \<Rightarrow> 'st \<Rightarrow> ('e store_error + StoredDevice) \<times> 'st" +
  fixes update :: "int \<Rightarrow> string \<Rightarrow> NetworkSnapshot \<Rightarrow> 'st \<Rightarrow> 'e store_error option \<times> 'st"
  assumes update_known: "ok st \<Longrightarrow> has st i fp \<Longrightarrow> update now i snap st = (r, st') \<Longrightarrow> r \<noteq> Some ErrUnknownDevice"
begin

lemma registered_never_unknown:
  assumes "ok st" "upsert now rand info st = (Inr dev, st')"
    and "update now' (sd_DeviceID dev) snap (fold exec calls st') = (r, st'')"
  shows "r \<noteq> Some ErrUnknownDevice"
  using registered_stays[OF assms(1,2)] update_known assms(3) by blast

end

subsection \<open>The MongoDB store keeps it\<close>

lemma store_ok_upd:
  assumes "store_ok D" "d ''_id'' = Some (BStr i)"
    and "\<And>j d' fp. has_fp fp d \<Longrightarrow> fp \<noteq> '''' \<Longrightarrow> D j = Some d' \<Longrightarrow> has_fp fp d' \<Longrightarrow> j = i"
  shows "store_ok (D(i \<mapsto> d))"
  using assms unfolding store_ok_def by (auto split: if_splits)

text \<open>Every call keeps the invariant, and a document keeps its fingerprint.\<close>

definition keeps_docs :: "(string \<rightharpoonup> doc) \<Rightarrow> (string \<rightharpoonup> doc) \<Rightarrow> bool" where
  "keeps_docs D D' \<longleftrightarrow> (\<forall>i d. D i = Some d \<longrightarrow> (\<exists>d'. D' i = Some d' \<and> d' ''fingerprint'' = d ''fingerprint''))"

lemma keeps_upd: "D i = None \<or> (\<exists>d0. D i = Some d0 \<and> d ''fingerprint'' = d0 ''fingerprint'') \<Longrightarrow> keeps_docs D (D(i \<mapsto> d))"
  by (auto simp: keeps_docs_def)

lemma store_exec_ok:
  assumes "mongo_ok m" "store_ok (c_docs m c)"
  shows "store_ok (c_docs m (store_exec m call c)) \<and> keeps_docs (c_docs m c) (c_docs m (store_exec m call c))"
proof (cases call)
  case (CallUpsert now rand info)
  obtain r c' where u: "UpsertDevice m now rand info c = (r, c')" by fastforce
  have "store_ok (c_docs m c') \<and> keeps_docs (c_docs m c) (c_docs m c')"
    using assms(1) u
  proof (cases rule: Upsert_cases)
    case 1
    then show ?thesis using assms(2) by (auto simp: keeps_docs_def)
  next
    case (anonymous i)
    have "map_of (insert_doc now i info) ''_id'' = Some (BStr i)" "map_of (insert_doc now i info) ''fingerprint'' = Some (BStr '''')"
      by (simp_all add: insert_doc_def)
    then show ?thesis unfolding anonymous(4) using anonymous(3) assms(2)
      by (intro conjI store_ok_upd keeps_upd) (auto simp: has_fp_def)
  next
    case (known i newID d0 d)
    note f = upsert_fields(2,3)[OF known(5)]
    show ?thesis unfolding known(6) using known(3,4) f assms(2)
      by (intro conjI store_ok_upd keeps_upd) (auto simp: has_fp_def store_ok_def)
  next
    case (new newID d)
    note f = upsert_fields(2,3)[OF new(5)]
    show ?thesis unfolding new(6) using new(3,4) f assms(2)
      by (intro conjI store_ok_upd keeps_upd) (auto simp: has_fp_def store_ok_def)
  qed
  then show ?thesis using CallUpsert u by simp
next
  case (CallNetwork now i snap)
  obtain r c' where u: "UpdateDeviceNetwork m now i snap c = (r, c')" by fastforce
  have "store_ok (c_docs m c') \<and> keeps_docs (c_docs m c) (c_docs m c')"
  proof (cases rule: Network_cases[OF assms(1) u])
    case 1
    then show ?thesis using assms(2) by (auto simp: keeps_docs_def)
  next
    case (2 d)
    have f: "(d ++ map_of (network_set now snap)) ''_id'' = d ''_id''"
      "(d ++ map_of (network_set now snap)) ''fingerprint'' = d ''fingerprint''" by (simp_all add: update_other)
    show ?thesis unfolding 2(3) using 2(2) f assms(2)
      by (intro conjI store_ok_upd keeps_upd) (auto simp: has_fp_def store_ok_def)
  qed
  then show ?thesis using CallNetwork u by simp
qed

subsection \<open>A collection in memory\<close>

text \<open>An association list with the documented behaviour.\<close>

type_synonym mem_col = "(string \<times> doc) list"

definition mem_find :: "string \<Rightarrow> mem_col \<Rightarrow> (string \<times> doc) option" where
  "mem_find fp c = find (\<lambda>(i, d). d ''fingerprint'' = Some (BStr fp)) (AList.clearjunk c)"

definition mem_collection :: "(mem_col, unit) collection" where
  "mem_collection =
     \<lparr>c_docs = map_of,
      c_insert = (\<lambda>fs c. case map_of fs ''_id'' of
         Some (BStr i) \<Rightarrow> if map_of c i = None then (None, (i, map_of fs) # c) else (Some (), c)
       | _ \<Rightarrow> (Some (), c)),
      c_upsert = (\<lambda>fp u c. case mem_find fp c of
         Some (i, d0) \<Rightarrow> (case apply_update u False d0 of Some d \<Rightarrow> (Inr (Some d), (i, d) # c) | None \<Rightarrow> (Inl (), c))
       | None \<Rightarrow>
           (case map_of (u_setOnInsert u) ''_id'' of
              Some (BStr i) \<Rightarrow>
                if map_of c i \<noteq> None then (Inl (), c)
                else (case apply_update u True [''fingerprint'' \<mapsto> BStr fp] of
                        Some d \<Rightarrow> (Inr (Some d), (i, d) # c) | None \<Rightarrow> (Inl (), c))
            | _ \<Rightarrow> (Inl (), c))),
      c_update = (\<lambda>i fs c. case map_of c i of
         None \<Rightarrow> (Inr 0, c) | Some d \<Rightarrow> (Inr 1, (i, d ++ map_of fs) # c))\<rparr>"

lemma mem_find_Some: "mem_find fp c = Some (i, d) \<Longrightarrow> map_of c i = Some d \<and> has_fp fp d"
  using map_of_clearjunk[of c]
  by (auto simp: mem_find_def find_Some_iff has_fp_def distinct_clearjunk dest!: nth_mem)
    (metis map_of_is_SomeI distinct_clearjunk)

lemma mem_find_None: "mem_find fp c = None \<Longrightarrow> map_of c i = Some d \<Longrightarrow> \<not> has_fp fp d"
  by (auto simp: mem_find_def find_None_iff has_fp_def) (metis map_of_SomeD map_of_clearjunk case_prod_conv)

lemma mem_ok: "mongo_ok mem_collection"
proof -
  have "case c_insert mem_collection fs c of
        (None, c') \<Rightarrow> insert_effect fs (map_of c) (map_of c')
      | (Some e, c') \<Rightarrow> map_of c' = map_of c \<or> insert_effect fs (map_of c) (map_of c')" for fs c
    by (auto simp: mem_collection_def insert_effect_def split: option.split bson.split)
  moreover have "case c_upsert mem_collection fp u c of
        (Inr (Some d), c') \<Rightarrow> upsert_effect fp u (map_of c) d (map_of c')
      | (_, c') \<Rightarrow> map_of c' = map_of c \<or> (\<exists>d. upsert_effect fp u (map_of c) d (map_of c'))" for fp u c
  proof (cases "mem_find fp c")
    case None
    then show ?thesis using mem_find_None[OF None]
      by (auto simp: mem_collection_def upsert_effect_def split: option.split bson.split)
  next
    case (Some p)
    then obtain i d0 where "mem_find fp c = Some (i, d0)" by (cases p) auto
    then show ?thesis using mem_find_Some[of fp c i d0]
      by (auto simp: mem_collection_def upsert_effect_def split: option.split)
  qed
  moreover have "case c_update mem_collection i fs c of
        (Inr n, c') \<Rightarrow> update_effect i fs (map_of c) n (map_of c')
      | (Inl e, c') \<Rightarrow> map_of c' = map_of c \<or> (\<exists>n. update_effect i fs (map_of c) n (map_of c'))" for i fs c
    by (auto simp: mem_collection_def update_effect_def split: option.split)
  moreover have "c_docs mem_collection = map_of" by (simp add: mem_collection_def)
  ultimately show ?thesis unfolding mongo_ok_def by metis
qed

definition demo_info :: "string \<Rightarrow> DeviceInfo" where
  "demo_info brand = \<lparr>di_OS = ''android'', di_Brand = brand, di_Model = ''M1'', di_IMEI = ''3550'', di_AndroidID = '' a1 '',
     di_SerialNumber = '''', di_ClientTimestampMs = 1700000000000, di_RemoteAddr = ''203.0.113.7''\<rparr>"

definition demo_snapshot :: NetworkSnapshot where
  "demo_snapshot = \<lparr>ns_LastIP = ''203.0.113.7'', ns_NetType = ''wifi'', ns_AvgRTTms = Some 40, ns_LossRate = None,
     ns_Country = ''DE'', ns_CountryName = '''', ns_Region = '''', ns_RegionCode = '''', ns_City = '''',
     ns_CurTsMs = 5, ns_ServerRecvMs = 6\<rparr>"

definition demo_first :: "(unit store_error + StoredDevice) \<times> mem_col" where
  "demo_first = UpsertDevice mem_collection 1000000 (Some [1, 2, 3, 4, 5, 6]) (demo_info ''A'') []"

definition demo_again :: "(unit store_error + StoredDevice) \<times> mem_col" where
  "demo_again = UpsertDevice mem_collection 9000000 (Some [9, 9, 9, 9, 9, 9]) (demo_info ''B'')
     (store_run mem_collection [CallNetwork 7 ''dev-010203040506'' demo_snapshot] (snd demo_first))"

lemma demo_registrations:
  "\<not> isl (fst demo_first)" "\<not> isl (fst demo_again)" "Fingerprint (demo_info b) = ''a1''" "c_docs mem_collection [] = Map.empty"
  "store_ok Map.empty"
proof -
  show "\<not> isl (fst demo_first)" by code_simp
  show "\<not> isl (fst demo_again)" by code_simp
  show "Fingerprint (demo_info b) = ''a1''" unfolding demo_info_def Fingerprint_def by simp code_simp
  show "c_docs mem_collection [] = Map.empty" by (simp add: mem_collection_def)
  show "store_ok Map.empty" by (simp add: store_ok_def)
qed

subsection \<open>Registration\<close>

lemma decode_id: "d ''_id'' = Some (BStr i) \<Longrightarrow> sd_DeviceID (decodeDevice d) = i"
  and decode_fp: "has_fp fp d \<Longrightarrow> sd_Fingerprint (decodeDevice d) = fp"
  by (simp_all add: decodeDevice_def str_field_def has_fp_def)

lemma Upsert_result:
  assumes "mongo_ok m" "store_ok (c_docs m c)" "Fingerprint info \<noteq> ''''"
    and "UpsertDevice m now rand info c = (Inr dev, c')"
  obtains d where "c_docs m c' (sd_DeviceID dev) = Some d" "has_fp (Fingerprint info) d" "dev = decodeDevice d"
  using assms(1,4)
proof (cases rule: Upsert_cases)
  case (known i newID d0 d)
  have "d ''_id'' = Some (BStr i)" "has_fp (Fingerprint info) d"
    using upsert_fields(2,3)[OF known(5)] known(3,4) assms(2) by (auto simp: store_ok_def has_fp_def)
  then show thesis using known(6,7) decode_id that by auto
next
  case (new newID d)
  have "d ''_id'' = Some (BStr newID)" "has_fp (Fingerprint info) d"
    using upsert_fields(2,3)[OF new(5)] by (auto simp: has_fp_def)
  then show thesis using new(6,7) decode_id that by auto
qed (use assms(3) in auto)

lemma store_fp_unique:
  "store_ok D \<Longrightarrow> D i = Some d \<Longrightarrow> has_fp fp d \<Longrightarrow> D j = Some d' \<Longrightarrow> has_fp fp d' \<Longrightarrow> fp \<noteq> '''' \<Longrightarrow> i = j"
  unfolding store_ok_def by blast

definition mongo_has :: "('col, 'e) collection \<Rightarrow> 'col \<Rightarrow> string \<Rightarrow> string \<Rightarrow> bool" where
  "mongo_has m c i fp \<longleftrightarrow> (\<exists>d. c_docs m c i = Some d \<and> has_fp fp d)"

lemma mongo_has_upsert:
  assumes "mongo_ok m" "store_ok (c_docs m c)" "UpsertDevice m now rand info c = (Inr dev, c')"
  shows "mongo_has m c' (sd_DeviceID dev) (Fingerprint info)"
proof (cases "Fingerprint info = ''''")
  case True
  from assms(1,3) show ?thesis
  proof (cases rule: Upsert_cases)
    case (anonymous i)
    then show ?thesis by (simp add: mongo_has_def has_fp_def insert_doc_def)
  qed (use True in auto)
next
  case False
  then show ?thesis using Upsert_result[OF assms(1,2) _ assms(3)] unfolding mongo_has_def by blast
qed

text \<open>The store of \<open>mongo.go\<close> implements the interface, on every driver that behaves as documented.\<close>

interpretation mongo: network_store "\<lambda>c. mongo_ok m \<and> store_ok (c_docs m c)" "mongo_has m" "store_exec m" "UpsertDevice m"
    "UpdateDeviceNetwork m" for m
proof (unfold_locales, goal_cases)
  case (1 now rand info st)
  show ?case by simp
next
  case (2 st c)
  then show ?case using store_exec_ok[of m st c] by simp
next
  case (3 st i fp c)
  then have "keeps_docs (c_docs m st) (c_docs m (store_exec m c st))" using store_exec_ok[of m st c] by simp
  then show ?case using 3(2) unfolding keeps_docs_def mongo_has_def has_fp_def by metis
next
  case (4 st now rand info dev st')
  then show ?case using mongo_has_upsert[of m st now rand info dev st'] by simp
next
  case (5 st i fp j)
  then show ?case using store_fp_unique[of "c_docs m st" i _ fp j] by (auto simp: mongo_has_def)
next
  case (6 st i fp now snap r st')
  then have m: "mongo_ok m" and d: "c_docs m st i \<noteq> None" by (auto simp: mongo_has_def)
  from m 6(3) show ?case
  proof (cases rule: Network_cases)
    case 1
    then show ?thesis using d by auto
  next
    case (2 d)
    then show ?thesis by simp
  qed
qed

text \<open>
  C13. A physical device keeps its id: two successful registrations with the same fingerprint, with
  any registrations and heartbeats in between, return the same device id, from a store in which
  ids and non-empty fingerprints are unique; and every call keeps them so.
\<close>

theorem same_device_same_id:
  assumes "mongo_ok m" "store_ok (c_docs m c)"
    and "Fingerprint info2 = Fingerprint info1" "Fingerprint info1 \<noteq> ''''"
    and "UpsertDevice m now1 rand1 info1 c = (Inr d1, c1)"
    and "UpsertDevice m now2 rand2 info2 (store_run m calls c1) = (Inr d2, c2)"
  shows "sd_DeviceID d2 = sd_DeviceID d1 \<and> store_ok (c_docs m c2)"
  using mongo.same_fingerprint_same_id[OF conjI[OF assms(1,2)] assms(3-5) assms(6)[unfolded store_run_def]] by simp

theorem same_device_same_id_witness:
  "sd_DeviceID (projr (fst demo_again)) = sd_DeviceID (projr (fst demo_first)) \<and> \<not> isl (fst demo_again)"
proof -
  have f: "UpsertDevice mem_collection 1000000 (Some [1, 2, 3, 4, 5, 6]) (demo_info ''A'') [] =
      (Inr (projr (fst demo_first)), snd demo_first)"
    using demo_registrations(1) unfolding demo_first_def by (simp add: prod_eq_iff)
  have a: "UpsertDevice mem_collection 9000000 (Some [9, 9, 9, 9, 9, 9]) (demo_info ''B'')
      (store_run mem_collection [CallNetwork 7 ''dev-010203040506'' demo_snapshot] (snd demo_first)) =
      (Inr (projr (fst demo_again)), snd demo_again)"
    using demo_registrations(2) unfolding demo_again_def by (simp add: prod_eq_iff)
  show ?thesis
    using same_device_same_id[OF mem_ok _ _ _ f a] demo_registrations(2-5) by simp
qed

definition doc_count :: "doc \<Rightarrow> int" where
  "doc_count d = (case d ''register_count'' of Some (BInt64 v) \<Rightarrow> v | Some (BInt32 v) \<Rightarrow> v | _ \<Rightarrow> 0)"

text \<open>
  C30. A successful registration of a device with a fingerprint touches one document: for a known
  device the one with that fingerprint, whose id, first registration and network data stay
  and whose counter grows by one; for a new device a document with the fresh id, the counter one and
  no network data.
\<close>

theorem registration_contract:
  assumes "mongo_ok m" "store_ok (c_docs m c)" "Fingerprint info \<noteq> ''''"
    and "UpsertDevice m now rand info c = (Inr dev, c')"
  shows "\<exists>d. c_docs m c' = (c_docs m c)(sd_DeviceID dev \<mapsto> d) \<and> dev = decodeDevice d \<and>
    d ''last_register_at'' = Some (bson_time now) \<and>
    (case c_docs m c (sd_DeviceID dev) of
       Some d0 \<Rightarrow> has_fp (Fingerprint info) d0 \<and> d ''first_register_at'' = d0 ''first_register_at'' \<and>
         sd_RegisterCount dev = doc_count d0 + 1 \<and> (\<forall>k. is_network k \<longrightarrow> d k = d0 k)
     | None \<Rightarrow> Some (sd_DeviceID dev) = NewDeviceID rand \<and> d ''first_register_at'' = Some (bson_time now) \<and>
         sd_RegisterCount dev = 1 \<and> (\<forall>k. is_network k \<longrightarrow> d k = None))"
  using assms(1,4)
proof (cases rule: Upsert_cases)
  case (known i newID d0 d)
  note f = upsert_fields[OF known(5)]
  have "d ''_id'' = Some (BStr i)" using f(2) known(3) assms(2) by (simp add: store_ok_def)
  then have i: "sd_DeviceID dev = i" using known(7) decode_id by simp
  have "sd_RegisterCount dev = (case d ''register_count'' of Some (BInt64 v) \<Rightarrow> v | Some (BInt32 v) \<Rightarrow> v | _ \<Rightarrow> 0)"
    using known(7) by (simp add: decodeDevice_def)
  moreover have "apply_update (upsert_doc now newID info) False d0 \<noteq> None" using known(5) by simp
  ultimately have "sd_RegisterCount dev = doc_count d0 + 1"
    using f(6) known(5) by (auto simp: doc_count_def apply_update_def upsert_doc_def inc_field_def info_fields_def
        map_add_def split: option.splits bson.splits)
  then show ?thesis using i known f(1,4,5) by auto
next
  case (new newID d)
  note f = upsert_fields[OF new(5)]
  have i: "sd_DeviceID dev = newID" using f(2) new(7) decode_id by simp
  have "sd_RegisterCount dev = 1" using f(6) new(7) by (simp add: decodeDevice_def)
  moreover have "d k = None" if "is_network k" for k using f(1)[OF that] that by auto
  ultimately show ?thesis using i new f(4,5) by auto
qed (use assms(3) in auto)

theorem registration_contract_witness:
  "sd_RegisterCount (projr (fst demo_first)) = 1 \<and>
   Some (sd_DeviceID (projr (fst demo_first))) = NewDeviceID (Some [1, 2, 3, 4, 5, 6])"
proof -
  have f: "UpsertDevice mem_collection 1000000 (Some [1, 2, 3, 4, 5, 6]) (demo_info ''A'') [] =
      (Inr (projr (fst demo_first)), snd demo_first)"
    using demo_registrations(1) unfolding demo_first_def by (simp add: prod_eq_iff)
  have c: "c_docs mem_collection [] x = None" for x by (simp add: demo_registrations(4))
  have "store_ok (c_docs mem_collection [])" "Fingerprint (demo_info ''A'') \<noteq> ''''"
    by (simp_all add: demo_registrations(3,4,5))
  from registration_contract[OF mem_ok this f] show ?thesis unfolding c option.case by blast
qed

subsection \<open>Types of the documents\<close>

datatype bson_type = TStr | TInt | TDate | TDouble

fun bson_type_of :: "bson \<Rightarrow> bson_type" where
  "bson_type_of (BStr v) = TStr"
| "bson_type_of (BInt64 v) = TInt"
| "bson_type_of (BInt32 v) = TInt"
| "bson_type_of (BDateTime v) = TDate"
| "bson_type_of (BDouble v) = TDouble"

text \<open>The schema that the file's comment gives: the fields of every device, and the network fields.\<close>

definition device_schema :: "(string \<times> bson_type) list" where
  "device_schema =
     [(''_id'', TStr), (''fingerprint'', TStr), (''os'', TStr), (''brand'', TStr), (''model'', TStr), (''imei'', TStr),
      (''android_id'', TStr), (''serial_number'', TStr), (''first_register_at'', TDate), (''last_register_at'', TDate),
      (''last_client_ts'', TInt), (''last_remote'', TStr), (''register_count'', TInt)]"

definition network_schema :: "(string \<times> bson_type) list" where
  "network_schema =
     [(''network.last_ip'', TStr), (''network.net_type'', TStr), (''network.avg_rtt_ms'', TInt), (''network.loss_rate'', TDouble),
      (''network.country'', TStr), (''network.country_name'', TStr), (''network.region'', TStr),
      (''network.region_code'', TStr), (''network.city'', TStr), (''network.cur_ts_ms'', TInt), (''network.last_seen_at'', TDate)]"

definition schema :: "string \<Rightarrow> bson_type option" where
  "schema = map_of (device_schema @ network_schema)"

definition fields_typed :: "doc \<Rightarrow> bool" where
  "fields_typed d \<longleftrightarrow> (\<forall>k v. d k = Some v \<longrightarrow> schema k = Some (bson_type_of v))"

definition doc_typed :: "doc \<Rightarrow> bool" where
  "doc_typed d \<longleftrightarrow> fields_typed d \<and> fst ` set device_schema \<subseteq> dom d"

lemma fields_typed_add:
  "fields_typed d \<Longrightarrow> list_all (\<lambda>(k, v). schema k = Some (bson_type_of v)) fs \<Longrightarrow> fields_typed (d ++ map_of fs)"
  unfolding fields_typed_def by (auto simp: list_all_iff dest!: map_of_SomeD split: option.splits)

lemma fields_typed_inc:
  assumes "inc_field (k, n) (Some b) = Some d" "schema k = Some TInt" "fields_typed b"
  shows "fields_typed d" "dom d = insert k (dom b)"
proof -
  have "schema k' = Some (bson_type_of v)" if "d k' = Some v" for k' v
  proof (cases "k' = k")
    case True
    then show ?thesis using that inc_field_Some(2)[OF assms(1)] assms(2,3)
      by (auto simp: fields_typed_def split: option.splits bson.splits)
  next
    case False
    then show ?thesis using that inc_field_Some(1)[OF assms(1)] assms(3) by (auto simp: fields_typed_def)
  qed
  then show "fields_typed d" by (simp add: fields_typed_def)
  show "dom d = insert k (dom b)"
    using assms(1) by (auto simp: inc_field_def split: option.splits bson.splits if_splits)
qed

lemma schema_rows:
  "list_all (\<lambda>(k, v). schema k = Some (bson_type_of v)) (info_fields i)"
  "list_all (\<lambda>(k, v). schema k = Some (bson_type_of v)) (insert_doc now x i)"
  "list_all (\<lambda>(k, v). schema k = Some (bson_type_of v)) (u_setOnInsert (upsert_doc now x i))"
  "list_all (\<lambda>(k, v). schema k = Some (bson_type_of v)) (u_set (upsert_doc now x i))"
  "schema ''register_count'' = Some TInt" "schema ''fingerprint'' = Some TStr"
  by (simp_all add: schema_def device_schema_def info_fields_def insert_doc_def upsert_doc_def bson_time_def)

lemma schema_network_names:
  "list_all (\<lambda>(k, t). schema k = Some t) network_schema"
  by (simp add: schema_def device_schema_def network_schema_def)

lemma typed_pieces:
  "schema k = Some TStr \<Longrightarrow> list_all (\<lambda>(k, v). schema k = Some (bson_type_of v)) (set_str k s)"
  "schema k = Some TInt \<Longrightarrow>
     list_all (\<lambda>(k, v). schema k = Some (bson_type_of v)) (case oi of None \<Rightarrow> [] | Some v \<Rightarrow> [(k, BInt64 v)])"
  "schema k = Some TDouble \<Longrightarrow>
     list_all (\<lambda>(k, v). schema k = Some (bson_type_of v)) (case od of None \<Rightarrow> [] | Some v \<Rightarrow> [(k, BDouble v)])"
  "schema k = Some TInt \<Longrightarrow> list_all (\<lambda>(k, v). schema k = Some (bson_type_of v)) (if b then [(k, BInt64 i)] else [])"
  by (simp_all add: set_str_def split: option.split)

lemma schema_network_row:
  "list_all (\<lambda>(k, v). schema k = Some (bson_type_of v)) (network_set now s)"
proof -
  note names = schema_network_names[unfolded network_schema_def, simplified]
  show ?thesis unfolding network_set_def list_all_append
    by (intro conjI typed_pieces) (simp_all add: names bson_time_def)
qed

lemma upsert_typed:
  assumes "apply_update (upsert_doc now x info) ins d0 = Some d" "fields_typed d0"
    and "fst ` set device_schema \<subseteq> dom d0 \<or> ins"
  shows "doc_typed d"
proof -
  let ?b = "upsert_base now x info ins d0"
  have inc: "inc_field (''register_count'', 1) (Some ?b) = Some d"
  proof -
    have "u_inc (upsert_doc now x info) = [(''register_count'', 1)]" by (simp add: upsert_doc_def)
    then show ?thesis using assms(1) by (simp add: apply_update_def upsert_base_def)
  qed
  have b: "fields_typed ?b" unfolding upsert_base_def
    by (intro fields_typed_add assms(2)) (simp_all add: schema_rows)
  have "dom ?b = dom d0 \<union> (if ins then fst ` set (u_setOnInsert (upsert_doc now x info)) else {}) \<union>
      fst ` set (u_set (upsert_doc now x info))"
    by (auto simp: upsert_base_def dom_map_of_conv_image_fst)
  then have "fst ` set device_schema \<subseteq> insert ''register_count'' (dom ?b)"
    using assms(3) by (auto simp: device_schema_def upsert_doc_def info_fields_def)
  then show ?thesis
    using fields_typed_inc[OF inc schema_rows(5) b] by (simp add: doc_typed_def)
qed

definition all_typed :: "(string \<rightharpoonup> doc) \<Rightarrow> bool" where
  "all_typed D \<longleftrightarrow> (\<forall>i d. D i = Some d \<longrightarrow> doc_typed d)"

lemma all_typed_upd: "all_typed D \<Longrightarrow> doc_typed d \<Longrightarrow> all_typed (D(i \<mapsto> d))"
  by (simp add: all_typed_def)

lemma Upsert_typed:
  assumes "mongo_ok m" "all_typed (c_docs m c)" "UpsertDevice m now rand info c = (r, c')"
  shows "all_typed (c_docs m c')"
  using assms(1,3)
proof (cases rule: Upsert_cases)
  case (anonymous i)
  have "fields_typed (Map.empty ++ map_of (insert_doc now i info))"
    by (intro fields_typed_add) (simp_all add: fields_typed_def schema_rows)
  moreover have "fst ` set device_schema \<subseteq> dom (map_of (insert_doc now i info))"
    unfolding dom_map_of_conv_image_fst by (simp add: device_schema_def insert_doc_def info_fields_def)
  ultimately show ?thesis using anonymous(4) assms(2) by (simp add: all_typed_upd doc_typed_def)
next
  case (known i newID d0 d)
  then have "doc_typed d0" using assms(2) by (simp add: all_typed_def)
  then have "doc_typed d" using upsert_typed[OF known(5)] by (simp add: doc_typed_def)
  then show ?thesis using known(6) assms(2) by (simp add: all_typed_upd)
next
  case (new newID d)
  have "doc_typed d" by (rule upsert_typed[OF new(5)]) (simp_all add: fields_typed_def schema_rows)
  then show ?thesis using new(6) assms(2) by (simp add: all_typed_upd)
qed (use assms(2) in simp)

lemma Network_typed:
  assumes "mongo_ok m" "all_typed (c_docs m c)" "UpdateDeviceNetwork m now i snap c = (r, c')"
  shows "all_typed (c_docs m c')"
proof (cases rule: Network_cases[OF assms(1,3)])
  case (2 d)
  then have "doc_typed d" using assms(2) by (simp add: all_typed_def)
  then have "doc_typed (d ++ map_of (network_set now snap))"
    using fields_typed_add[OF _ schema_network_row, of d now snap] by (auto simp: doc_typed_def)
  then show ?thesis using 2(3) assms(2) by (simp add: all_typed_upd)
qed (use assms(2) in simp)

lemma store_run_typed: "mongo_ok m \<Longrightarrow> all_typed (c_docs m c) \<Longrightarrow> all_typed (c_docs m (store_run m calls c))"
proof (induction calls arbitrary: c)
  case (Cons x calls)
  have "all_typed (c_docs m (store_exec m x c))"
    using Cons.prems by (cases x) (auto intro: Upsert_typed Network_typed prod.collapse[symmetric])
  then show ?case using Cons.IH Cons.prems(1) by (simp add: store_run_def)
qed (simp add: store_run_def)

text \<open>On a typed document every type assertion of \<open>decodeDevice\<close> succeeds.\<close>

definition decodes :: "doc \<Rightarrow> bool" where
  "decodes d \<longleftrightarrow> (\<forall>k \<in> {''_id'', ''fingerprint'', ''os'', ''brand'', ''model'', ''imei'', ''android_id'', ''serial_number'', ''last_remote''}.
       d k = Some (BStr (str_field d k))) \<and>
     (\<forall>k \<in> {''first_register_at'', ''last_register_at''}. date_field d k \<noteq> None) \<and>
     (\<forall>k \<in> {''last_client_ts'', ''register_count''}. \<exists>v. d k = Some (BInt64 v) \<or> d k = Some (BInt32 v))"

lemma typed_field: "doc_typed d \<Longrightarrow> (k, t) \<in> set device_schema \<Longrightarrow> \<exists>v. d k = Some v \<and> schema k = Some (bson_type_of v)"
  by (force simp: doc_typed_def fields_typed_def)

lemma bson_type_iff:
  "TStr = bson_type_of v \<longleftrightarrow> (\<exists>x. v = BStr x)" "TDate = bson_type_of v \<longleftrightarrow> (\<exists>x. v = BDateTime x)"
  "TInt = bson_type_of v \<longleftrightarrow> (\<exists>x. v = BInt64 x \<or> v = BInt32 x)"
  by (cases v; simp)+

lemma typed_decodes: "doc_typed d \<Longrightarrow> decodes d"
proof -
  assume t: "doc_typed d"
  have ex: "\<exists>v. d k = Some v \<and> t' = bson_type_of v" if "(k, t') \<in> set device_schema" for k t'
  proof -
    have "distinct (map fst device_schema)" by (simp add: device_schema_def)
    then have "schema k = Some t'" using that by (simp add: schema_def map_add_Some_iff)
    then show ?thesis using typed_field[OF t that] by auto
  qed
  show ?thesis
    unfolding decodes_def
  proof (intro conjI ballI)
    fix k
    show "d k = Some (BStr (str_field d k))"
      if "k \<in> {''_id'', ''fingerprint'', ''os'', ''brand'', ''model'', ''imei'', ''android_id'', ''serial_number'', ''last_remote''}"
      using ex[of k TStr] that by (auto simp: device_schema_def bson_type_iff str_field_def)
    show "date_field d k \<noteq> None" if "k \<in> {''first_register_at'', ''last_register_at''}"
      using ex[of k TDate] that by (auto simp: device_schema_def bson_type_iff date_field_def)
    show "\<exists>v. d k = Some (BInt64 v) \<or> d k = Some (BInt32 v)" if "k \<in> {''last_client_ts'', ''register_count''}"
      using ex[of k TInt] that by (auto simp: device_schema_def bson_type_iff)
  qed
qed

text \<open>
  C26. Documents are well typed: from a collection whose documents have all the fields of the schema, each
  with its type, every history of registrations and heartbeats leads to such a collection, and
  \<open>decodeDevice\<close>, which ignores a field of another type, reads every field of its documents.
\<close>

theorem documents_typed:
  assumes "mongo_ok m" "all_typed (c_docs m c)" "c_docs m (store_run m calls c) i = Some d"
  shows "doc_typed d \<and> decodes d"
  using store_run_typed[OF assms(1,2), of calls] assms(3) typed_decodes by (simp add: all_typed_def)

theorem documents_typed_witness:
  "\<exists>d. map_of (store_run mem_collection [CallUpsert 1000000 (Some [1, 2, 3, 4, 5, 6]) (demo_info ''A''),
       CallNetwork 7 ''dev-010203040506'' demo_snapshot] []) ''dev-010203040506'' = Some d \<and> decodes d"
proof -
  let ?c = "store_run mem_collection [CallUpsert 1000000 (Some [1, 2, 3, 4, 5, 6]) (demo_info ''A''),
       CallNetwork 7 ''dev-010203040506'' demo_snapshot] []"
  have m: "c_docs mem_collection = map_of" by (simp add: mem_collection_def)
  have "map_of ?c ''dev-010203040506'' \<noteq> None" by code_simp
  then obtain d where d: "map_of ?c ''dev-010203040506'' = Some d" by blast
  then have "c_docs mem_collection ?c ''dev-010203040506'' = Some d" by (simp only: m)
  from documents_typed[OF mem_ok _ this] have "decodes d" by (simp add: m all_typed_def)
  then show ?thesis using d by blast
qed

end
