(* ===== verification/Register_Handler.thy ===== *)
theory Register_Handler
  imports Admin_Config Admin_Store Register_Client
begin

text \<open>
  \<open>admin/handler/register.go\<close>: the handler of \<open>POST /register\<close>, on the configuration of \<open>Admin_Config\<close> and the
  encryption of \<open>Aes_Cbc\<close>; the store is the operation it calls, as in the code. The response writer is
  the status and the body, and the body is the value that is encoded as JSON.

  The lemmas show what a request must satisfy to reach the store, that the requests of
  \<open>Register_Client\<close> do, and that one timestamp passes the freshness check at any time.
\<close>

record devicePayload =
  dv_OS :: string
  dv_Brand :: string
  dv_Model :: string
  dv_IMEI :: string
  dv_AndroidID :: string
  dv_SerialNumber :: string
  dv_Timestamp :: int

definition maxBodyBytes :: nat where "maxBodyBytes = 64 * 1024"

datatype http_body = ErrorBody string | OkBody RegResponse

record http_request =
  hq_method :: string
  hq_body :: "byte list"
  hq_read_err :: "string option"   \<comment> \<open>an error of the connection while the body is read\<close>
  hq_forwarded :: string     \<comment> \<open>the header \<open>X-Forwarded-For\<close>\<close>
  hq_remote :: string

definition clientIP :: "http_request \<Rightarrow> string" where
  "clientIP r =
     (let v = hq_forwarded r in
      if v \<noteq> '''' then
        (case index_byte (CHR '','') v of Some i \<Rightarrow> TrimSpace (take i v) | None \<Rightarrow> TrimSpace v)
      else (case SplitHostPort (hq_remote r) of None \<Rightarrow> hq_remote r | Some (host, port) \<Rightarrow> host))"

text \<open>Negation wraps: the smallest integer is its own absolute value.\<close>

definition abs64 :: "int \<Rightarrow> int" where
  "abs64 x = (if x < 0 then wrap64 (- x) else x)"

definition decryptPlayload :: "cipher_alg \<Rightarrow> byte list \<Rightarrow> string \<Rightarrow> payload_error + byte list" where
  "decryptPlayload alg aesKey b64 =
     (case b64_decode b64 of
        None \<Rightarrow> Inl OuterBase64
      | Some wire \<Rightarrow>
          (case Decrypt alg aesKey wire of
             Inl e \<Rightarrow> Inl (AesErr e)
           | Inr plain \<Rightarrow>
               (case b64_decode (string_of_bytes plain) of None \<Rightarrow> Inl InnerBase64 | Some jsonA \<Rightarrow> Inr jsonA)))"

text \<open>\<open>http.MaxBytesReader\<close> fails on a longer body.\<close>

definition read_body :: "http_request \<Rightarrow> string + byte list" where
  "read_body r =
     (case hq_read_err r of
        Some e \<Rightarrow> Inl e
      | None \<Rightarrow> if length (hq_body r) > maxBodyBytes then Inl ''http: request body too large'' else Inr (hq_body r))"

text \<open>\<open>%d\<close> of a 64-bit integer.\<close>

definition int_text :: "int \<Rightarrow> string" where
  "int_text n = (if n < 0 then ''-'' @ Itoa (nat (- n)) else Itoa (nat n))"

definition store_info :: "http_request \<Rightarrow> devicePayload \<Rightarrow> DeviceInfo" where
  "store_info r dp =
     \<lparr>di_OS = dv_OS dp, di_Brand = dv_Brand dp, di_Model = dv_Model dp, di_IMEI = dv_IMEI dp,
       di_AndroidID = dv_AndroidID dp, di_SerialNumber = dv_SerialNumber dp, di_ClientTimestampMs = dv_Timestamp dp,
       di_RemoteAddr = clientIP r\<rparr>"

record RegisterHandler =
  rh_cfg :: AdminCfg
  rh_aesKey :: "byte list"

definition RegisterHandler_New :: "AdminCfg \<Rightarrow> admin_error + RegisterHandler" where
  "RegisterHandler_New cfg =
     (case AESKeyBytes cfg of Inl e \<Rightarrow> Inl e | Inr key \<Rightarrow> Inr \<lparr>rh_cfg = cfg, rh_aesKey = key\<rparr>)"

text \<open>\<open>unenv\<close> and \<open>undev\<close> decode the two JSON texts, \<open>now\<close> is the clock in milliseconds, \<open>upsert\<close> the store.\<close>

definition ServeHTTP ::
    "cipher_alg \<Rightarrow> (byte list \<Rightarrow> requestEnvelope option) \<Rightarrow> (byte list \<Rightarrow> devicePayload option) \<Rightarrow> int \<Rightarrow>
     (DeviceInfo \<Rightarrow> 'st \<Rightarrow> ('e + StoredDevice) \<times> 'st) \<Rightarrow> RegisterHandler \<Rightarrow> http_request \<Rightarrow> 'st \<Rightarrow> (int \<times> http_body) \<times> 'st" where
  "ServeHTTP alg unenv undev now upsert h r st =
     (if hq_method r \<noteq> ''POST'' then ((405, ErrorBody ''POST only''), st)
      else case read_body r of
        Inl e \<Rightarrow> ((400, ErrorBody (''read body: '' @ e)), st)
      | Inr body \<Rightarrow>
     (case unenv body of
        None \<Rightarrow> ((400, ErrorBody ''invalid json envelope''), st)
      | Some env \<Rightarrow>
          if re_Playload env = '''' \<or> re_Timestamp env = 0 then ((400, ErrorBody ''missing playload or timestamp''), st)
          else (case decryptPlayload alg (rh_aesKey h) (re_Playload env) of
                  Inl e \<Rightarrow> ((400, ErrorBody ''decrypt failed''), st)
                | Inr plain \<Rightarrow>
               (case undev plain of
                  None \<Rightarrow> ((400, ErrorBody ''invalid inner json''), st)
                | Some dp \<Rightarrow>
                    if dv_Timestamp dp \<noteq> re_Timestamp env then ((400, ErrorBody ''timestamp mismatch''), st)
                    else
                      let skewMs = wrap64 (ad_MaxClockSkewSec (rh_cfg h) * 1000);
                          delta = abs64 (wrap64 (now - re_Timestamp env))
                      in if delta > skewMs then ((400, ErrorBody (''clock skew too large: '' @ int_text delta @ ''ms'')), st)
                         else (case upsert (store_info r dp) st of
                                 (Inl e, st) \<Rightarrow> ((500, ErrorBody ''store error''), st)
                               | (Inr dev, st) \<Rightarrow>
                                   ((200, OkBody \<lparr>rr_DeviceID = sd_DeviceID dev, rr_ServerAddr = ad_ServerAddr (rh_cfg h),
                                     rr_HeartbeatIntervalSec = ad_HeartbeatIntervalSec (rh_cfg h),
                                     rr_ReconnectInitialBackoffSec = ad_ReconnectInitialBackoffSec (rh_cfg h),
                                     rr_ReconnectMaxBackoffSec = ad_ReconnectMaxBackoffSec (rh_cfg h)\<rparr>), st))))))"

subsection \<open>What reaches the store\<close>

definition fresh :: "AdminCfg \<Rightarrow> int \<Rightarrow> int \<Rightarrow> bool" where
  "fresh cfg now ts \<longleftrightarrow> abs64 (wrap64 (now - ts)) \<le> wrap64 (ad_MaxClockSkewSec cfg * 1000)"

definition admissible ::
    "cipher_alg \<Rightarrow> (byte list \<Rightarrow> requestEnvelope option) \<Rightarrow> (byte list \<Rightarrow> devicePayload option) \<Rightarrow> int \<Rightarrow>
     RegisterHandler \<Rightarrow> http_request \<Rightarrow> devicePayload \<Rightarrow> bool" where
  "admissible alg unenv undev now h r dp \<longleftrightarrow>
     hq_method r = ''POST'' \<and> hq_read_err r = None \<and> length (hq_body r) \<le> maxBodyBytes \<and>
     (case unenv (hq_body r) of
        None \<Rightarrow> False
      | Some env \<Rightarrow> re_Playload env \<noteq> '''' \<and> re_Timestamp env \<noteq> 0 \<and>
          (case decryptPlayload alg (rh_aesKey h) (re_Playload env) of
             Inl e \<Rightarrow> False
           | Inr plain \<Rightarrow> undev plain = Some dp \<and> dv_Timestamp dp = re_Timestamp env \<and>
               fresh (rh_cfg h) now (re_Timestamp env)))"

definition ok_response :: "AdminCfg \<Rightarrow> StoredDevice \<Rightarrow> RegResponse" where
  "ok_response cfg dev =
     \<lparr>rr_DeviceID = sd_DeviceID dev, rr_ServerAddr = ad_ServerAddr cfg,
       rr_HeartbeatIntervalSec = ad_HeartbeatIntervalSec cfg,
       rr_ReconnectInitialBackoffSec = ad_ReconnectInitialBackoffSec cfg,
       rr_ReconnectMaxBackoffSec = ad_ReconnectMaxBackoffSec cfg\<rparr>"

lemma ServeHTTP_admissible:
  "admissible alg unenv undev now h r dp \<Longrightarrow>
   ServeHTTP alg unenv undev now upsert h r st =
     (case upsert (store_info r dp) st of
        (Inl e, st) \<Rightarrow> ((500, ErrorBody ''store error''), st)
      | (Inr dev, st) \<Rightarrow> ((200, OkBody (ok_response (rh_cfg h) dev)), st))"
  by (auto simp: admissible_def ServeHTTP_def read_body_def fresh_def ok_response_def Let_def
      split: option.splits sum.splits prod.splits)

lemma ServeHTTP_rejected:
  "\<forall>dp. \<not> admissible alg unenv undev now h r dp \<Longrightarrow>
   \<exists>status msg. ServeHTTP alg unenv undev now upsert h r st = ((status, ErrorBody msg), st) \<and> status \<in> {400, 405}"
  by (auto simp: admissible_def ServeHTTP_def read_body_def fresh_def Let_def
      split: option.splits sum.splits prod.splits if_splits) blast+


text \<open>The freshness check of a timestamp near the clock is the distance in real time.\<close>

lemma fresh_near:
  assumes "\<bar>now - ts\<bar> < 2 ^ 63" "0 \<le> ad_MaxClockSkewSec cfg" "ad_MaxClockSkewSec cfg * 1000 < 2 ^ 63"
  shows "fresh cfg now ts \<longleftrightarrow> \<bar>now - ts\<bar> \<le> ad_MaxClockSkewSec cfg * 1000"
proof -
  have "in_int64 (now - ts)" "in_int64 (- (now - ts))" "in_int64 (ad_MaxClockSkewSec cfg * 1000)"
    using assms by (auto simp: in_int64_def abs_less_iff)
  then show ?thesis by (auto simp: fresh_def abs64_def)
qed

text \<open>
  The distance is computed with wrap-around, and the smallest 64-bit integer is its own negation:
  the timestamp \<open>now - 2^63\<close>, some 292 million years before \<open>now\<close>, passes the freshness check
  of every configuration.
\<close>

theorem skew_bypass:
  assumes "0 \<le> now" "now < 2 ^ 63"
  shows "in_int64 (now - 2 ^ 63) \<and> abs64 (wrap64 (now - (now - 2 ^ 63))) = - (2 ^ 63) \<and> fresh cfg now (now - 2 ^ 63)"
proof -
  have "wrap64 (now - (now - 2 ^ 63)) = - (2 ^ 63)" "wrap64 (2 ^ 63) = - (2 ^ 63)" by (simp_all add: wrap64_def)
  moreover have "- (2 ^ 63) \<le> wrap64 x" for x using in_int64_wrap64[of x] by (simp add: in_int64_def)
  ultimately show ?thesis using assms by (simp add: abs64_def in_int64_def fresh_def)
qed

subsection \<open>A device registers\<close>

definition post :: "string \<Rightarrow> string \<Rightarrow> http_request" where
  "post remote body = \<lparr>hq_method = ''POST'', hq_body = bytes_of_string body, hq_read_err = None,
     hq_forwarded = '''', hq_remote = remote\<rparr>"

text \<open>An HTTP exchange with the handler: the status and the encoded body.\<close>

definition exchange ::
    "(http_body \<Rightarrow> string) \<Rightarrow> (http_request \<Rightarrow> 'st \<Rightarrow> (int \<times> http_body) \<times> 'st) \<Rightarrow> string \<Rightarrow> 'st \<Rightarrow> string \<Rightarrow> int \<times> string" where
  "exchange render serve remote st body = (case serve (post remote body) st of ((status, b), _) \<Rightarrow> (status, render b))"

lemma decryptPlayload_built:
  assumes "cipher_ok alg" "length iv = BlockSize" "BuildRegisterPlayloadB64 alg (Some iv) key jsonA = Inr p"
  shows "decryptPlayload alg key p = Inr jsonA \<and> p \<noteq> ''''"
proof -
  obtain wire where "b64_decode p = Some wire" "Decrypt alg key wire = Inr (bytes_of_string (b64_encode jsonA))" "p \<noteq> ''''"
    using assms by (rule payload_bytes)
  then show ?thesis by (simp add: decryptPlayload_def b64_roundtrip del: map_map)
qed

text \<open>
  C12. A device that registers with the admin's key, and whose clock is fresh, is stored and gets the
  admin's settings and its id: what the client encrypts, encodes and posts is what the handler decodes and
  checks, for every key, device information and initialisation vector, with codecs that decode what they encode.
\<close>

theorem registration_end_to_end:
  assumes "cipher_ok alg" "rg_rand g = Some iv" "length iv = BlockSize" "aesKey \<noteq> []" "rh_aesKey h = aesKey"
    and "ts = (if ri_Timestamp info = 0 then rg_now g else ri_Timestamp info)" "ts \<noteq> 0" "fresh (rh_cfg h) now ts"
    and "rg_info g (info\<lparr>ri_Timestamp := ts\<rparr>) = Inr jsonA" "undev jsonA = Some dp" "dv_Timestamp dp = ts"
    and "\<And>p. BuildRegisterPlayloadB64 alg (Some iv) aesKey jsonA = Inr p \<Longrightarrow>
      rg_envelope g \<lparr>re_Playload = p, re_Timestamp = ts\<rparr> = Inr (enc p) \<and>
      unenv (bytes_of_string (enc p)) = Some \<lparr>re_Playload = p, re_Timestamp = ts\<rparr> \<and> length (enc p) \<le> maxBodyBytes"
    and "rg_newreq g = None" "rg_do g = (\<lambda>body. Inr (exchange render (ServeHTTP alg unenv undev now upsert h) remote st body))"
    and "upsert (store_info (post remote '''') dp) st = (Inr dev, st')"
    and "rg_resp g (render (OkBody (ok_response (rh_cfg h) dev))) = Inr (ok_response (rh_cfg h) dev)"
    and "sd_DeviceID dev \<noteq> ''''" "ad_ServerAddr (rh_cfg h) \<noteq> ''''"
  shows "RegisterDevice alg g info aesKey = Inr (ok_response (rh_cfg h) dev)"
proof -
  obtain p where p: "BuildRegisterPlayloadB64 alg (Some iv) aesKey jsonA = Inr p"
    using payload_builds[OF assms(1,3)] by blast
  note e = assms(12)[OF p]
  have "decryptPlayload alg aesKey p = Inr jsonA" "p \<noteq> ''''" using decryptPlayload_built[OF assms(1,3) p] by simp_all
  then have "admissible alg unenv undev now h (post remote (enc p)) dp"
    using e assms(5,7,8,10,11) by (simp add: admissible_def post_def)
  moreover have "store_info (post remote (enc p)) dp = store_info (post remote '''') dp"
    by (simp add: store_info_def post_def clientIP_def split: option.split)
  ultimately have "ServeHTTP alg unenv undev now upsert h (post remote (enc p)) st =
      ((200, OkBody (ok_response (rh_cfg h) dev)), st')"
    using assms(15) by (simp add: ServeHTTP_admissible)
  then have d: "rg_do g (enc p) = Inr (200, render (OkBody (ok_response (rh_cfg h) dev)))"
    by (simp add: assms(14) exchange_def)
  have i: "(if ri_Timestamp info = 0 then info\<lparr>ri_Timestamp := rg_now g\<rparr> else info) = info\<lparr>ri_Timestamp := ts\<rparr>"
    using assms(6) by simp
  have "rr_DeviceID (ok_response (rh_cfg h) dev) \<noteq> ''''" "rr_ServerAddr (ok_response (rh_cfg h) dev) \<noteq> ''''"
    using assms(17,18) by (simp_all add: ok_response_def)
  then show ?thesis
    unfolding RegisterDevice_def i Let_def using assms(2,4,9,13,16) e p d by simp
qed

subsection \<open>A concrete device\<close>

definition demo_admin :: AdminCfg where
  "demo_admin = \<lparr>ad_HTTPListen = '':8080'', ad_AESKeyB64 = '''', ad_AESKeyHex = '''', ad_AESKeyText = ''secret'',
     ad_MongoURI = ''mongodb://db'', ad_MongoDB = '''', ad_DeviceCollection = '''', ad_ServerAddr = ''s.example:443'',
     ad_HeartbeatIntervalSec = 30, ad_ReconnectInitialBackoffSec = 1, ad_ReconnectMaxBackoffSec = 60,
     ad_MaxClockSkewSec = 300, ad_ReadHeaderTimeout = 1, ad_ReadTimeout = 1, ad_WriteTimeout = 1, ad_ShutdownTimeout = 1,
     ad_LogLevel = '''', ad_LogFormat = '''', ad_LogFile = '''', ad_NSQLookupdHTTPAddrs = [], ad_HeartbeatTopic = '''',
     ad_HeartbeatChannel = '''', ad_HeartbeatConcurrency = 0\<rparr>"

definition demo_handler :: RegisterHandler where
  "demo_handler = \<lparr>rh_cfg = demo_admin, rh_aesKey = bytes_of_string ''secret''\<rparr>"

lemma trim_empty: "TrimSpace '''' = ''''"
  by code_simp

lemma demo_handler_new: "RegisterHandler_New demo_admin = Inr demo_handler"
proof -
  have "AESKeyBytes demo_admin = Inr (bytes_of_string ''secret'')"
    using trim_empty by (simp add: AESKeyBytes_def demo_admin_def)
  then show ?thesis by (simp add: RegisterHandler_New_def demo_handler_def)
qed

definition demo_request :: "string \<Rightarrow> string \<Rightarrow> http_request" where
  "demo_request meth fwd = \<lparr>hq_method = meth, hq_body = [1], hq_read_err = None, hq_forwarded = fwd, hq_remote = ''192.0.2.1:99''\<rparr>"


theorem skew_bypass_witness:
  "fresh demo_admin 1700000000000 (1700000000000 - 2 ^ 63) \<and> \<not> fresh demo_admin 1700000000000 0"
  using skew_bypass[of 1700000000000 demo_admin] fresh_near[of 1700000000000 0 demo_admin]
  by (simp add: demo_admin_def)

definition demo_reg_env :: "mem_col \<Rightarrow> unit reg_env" where
  "demo_reg_env st =
     \<lparr>rg_now = 1700000000000, rg_info = (\<lambda>_. Inr [123, 125]), rg_rand = Some (replicate 16 9),
       rg_envelope = (\<lambda>e. Inr (re_Playload e)), rg_newreq = None,
       rg_do = (\<lambda>body. Inr (exchange (\<lambda>b. case b of OkBody r \<Rightarrow> rr_DeviceID r | ErrorBody m \<Rightarrow> '''')
         (ServeHTTP demo_cipher (\<lambda>b. Some \<lparr>re_Playload = string_of_bytes b, re_Timestamp = 1700000000000\<rparr>)
           (\<lambda>_. Some \<lparr>dv_OS = ''android'', dv_Brand = ''B'', dv_Model = ''M'', dv_IMEI = ''3550'', dv_AndroidID = '''',
             dv_SerialNumber = '''', dv_Timestamp = 1700000000000\<rparr>) 1700000000100
           (UpsertDevice mem_collection 5 (Some [1, 2, 3, 4, 5, 6])) demo_handler) ''192.0.2.1:99'' st body)),
       rg_resp = (\<lambda>s. Inr \<lparr>rr_DeviceID = s, rr_ServerAddr = ''s.example:443'', rr_HeartbeatIntervalSec = 30,
         rr_ReconnectInitialBackoffSec = 1, rr_ReconnectMaxBackoffSec = 60\<rparr>)\<rparr>"

definition demo_reg_info :: RegDeviceInfo where
  "demo_reg_info = \<lparr>ri_OS = ''android'', ri_Brand = ''B'', ri_Model = ''M'', ri_IMEI = ''3550'', ri_AndroidID = '''',
     ri_SerialNumber = '''', ri_Timestamp = 0\<rparr>"

lemma length_b64: "length (b64_encode bs) \<le> 2 * length bs + 4"
  by (induction bs rule: b64_encode.induct) (simp_all add: Let_def)

lemma length_pad_le: "0 < block \<Longrightarrow> length (PadPKCS7 q block) \<le> length q + block"
  by (simp add: pad_form)

text \<open>The size of a payload, which the handler's limit bounds.\<close>

lemma payload_length:
  assumes "cipher_ok alg" "length iv = BlockSize" "BuildRegisterPlayloadB64 alg (Some iv) key jsonA = Inr p"
  shows "length p \<le> 4 * length jsonA + 76"
proof -
  let ?q = "bytes_of_string (b64_encode jsonA)" and ?k = "NormalizeKey alg key"
  have k: "aes_key_len ?k" by (rule NormalizeKey_len[OF assms(1)])
  have b: "0 < BlockSize" by (simp add: BlockSize_def)
  have "length (PadPKCS7 ?q BlockSize) mod BlockSize = 0" using length_pad[OF b] by simp
  then have l: "length (cbc_encrypt (ca_enc alg ?k) iv (PadPKCS7 ?q BlockSize)) = length (PadPKCS7 ?q BlockSize)"
    using cbc_inverse[of "ca_enc alg ?k" "ca_dec alg ?k" iv] assms(1,2) k by (simp add: cipher_ok_def)
  have "p = b64_encode (iv @ cbc_encrypt (ca_enc alg ?k) iv (PadPKCS7 ?q BlockSize))"
    using assms(3) k by (simp add: BuildRegisterPlayloadB64_def Encrypt_def NewCipher_def)
  then have "length p \<le> 2 * (16 + length (PadPKCS7 ?q BlockSize)) + 4"
    using length_b64[of "iv @ cbc_encrypt (ca_enc alg ?k) iv (PadPKCS7 ?q BlockSize)"] l assms(2)
    by (simp add: BlockSize_def)
  moreover have "length (PadPKCS7 ?q BlockSize) \<le> length ?q + 16" using length_pad_le[OF b, of ?q] by (simp add: BlockSize_def)
  moreover have "length ?q \<le> 2 * length jsonA + 4" using length_b64[of jsonA] by simp
  ultimately show ?thesis by simp
qed

definition demo_reg_device :: "(unit store_error + StoredDevice) \<times> mem_col" where
  "demo_reg_device = UpsertDevice mem_collection 5 (Some [1, 2, 3, 4, 5, 6]) (store_info (post ''192.0.2.1:99'' '''')
     \<lparr>dv_OS = ''android'', dv_Brand = ''B'', dv_Model = ''M'', dv_IMEI = ''3550'', dv_AndroidID = '''',
        dv_SerialNumber = '''', dv_Timestamp = 1700000000000\<rparr>) []"

lemma demo_reg_device:
  "\<not> isl (fst demo_reg_device) \<and> sd_DeviceID (projr (fst demo_reg_device)) = ''dev-010203040506''"
  by code_simp

theorem registration_end_to_end_witness:
  "\<exists>r. RegisterDevice demo_cipher (demo_reg_env []) demo_reg_info (bytes_of_string ''secret'') = Inr r \<and>
     rr_DeviceID r = ''dev-010203040506''"
proof -
  let ?dev = "projr (fst demo_reg_device)"
  have up: "UpsertDevice mem_collection 5 (Some [1, 2, 3, 4, 5, 6]) (store_info (post ''192.0.2.1:99'' '''')
     \<lparr>dv_OS = ''android'', dv_Brand = ''B'', dv_Model = ''M'', dv_IMEI = ''3550'', dv_AndroidID = '''',
        dv_SerialNumber = '''', dv_Timestamp = 1700000000000\<rparr>) [] = (Inr ?dev, snd demo_reg_device)"
    using demo_reg_device unfolding demo_reg_device_def by (simp add: prod_eq_iff)
  have ok: "ok_response (rh_cfg demo_handler) ?dev = \<lparr>rr_DeviceID = ''dev-010203040506'', rr_ServerAddr = ''s.example:443'',
      rr_HeartbeatIntervalSec = 30, rr_ReconnectInitialBackoffSec = 1, rr_ReconnectMaxBackoffSec = 60\<rparr>"
    using demo_reg_device by (simp add: ok_response_def demo_handler_def demo_admin_def)
  have fresh: "fresh (rh_cfg demo_handler) 1700000000100 1700000000000"
    by (simp add: fresh_near demo_handler_def demo_admin_def)
  have len: "length p \<le> maxBodyBytes"
    if "BuildRegisterPlayloadB64 demo_cipher (Some (replicate 16 9)) (bytes_of_string ''secret'') [123, 125] = Inr p" for p
    using payload_length[OF demo_cipher_ok _ that] by (simp add: BlockSize_def maxBodyBytes_def)
  have id: "sd_DeviceID ?dev \<noteq> ''''" "ad_ServerAddr demo_admin \<noteq> ''''" using demo_reg_device by (simp_all add: demo_admin_def)
  have "RegisterDevice demo_cipher (demo_reg_env []) demo_reg_info (bytes_of_string ''secret'') =
      Inr (ok_response (rh_cfg demo_handler) ?dev)"
    by (rule registration_end_to_end[OF demo_cipher_ok, where iv = "replicate 16 9" and ts = 1700000000000 and
          now = 1700000000100 and jsonA = "[123, 125]" and enc = "\<lambda>p. p" and remote = "''192.0.2.1:99''" and st = "[]" and
          st' = "snd demo_reg_device" and
          render = "\<lambda>b. case b of OkBody r \<Rightarrow> rr_DeviceID r | ErrorBody m \<Rightarrow> ''''" and
          unenv = "\<lambda>b. Some \<lparr>re_Playload = string_of_bytes b, re_Timestamp = 1700000000000\<rparr>" and
          undev = "\<lambda>_. Some \<lparr>dv_OS = ''android'', dv_Brand = ''B'', dv_Model = ''M'', dv_IMEI = ''3550'', dv_AndroidID = '''',
             dv_SerialNumber = '''', dv_Timestamp = 1700000000000\<rparr>" and
          upsert = "UpsertDevice mem_collection 5 (Some [1, 2, 3, 4, 5, 6])", OF _ _ _ _ _ _ fresh _ _ _ _ _ _ up])
      (simp_all add: demo_reg_env_def demo_reg_info_def BlockSize_def demo_handler_def ok[unfolded demo_handler_def, simplified]
        len[simplified] id del: map_map)
  then show ?thesis unfolding ok by simp
qed

end
