(* ===== verification/Nsq_Consumer.thy ===== *)
theory Nsq_Consumer
  imports Admin_Store Heartbeat_Sink
begin

text \<open>
  \<open>admin/nsqcons/consumer.go\<close>: the consumer of heartbeat events, on the store of \<open>Admin_Store\<close>, and the
  whole way of a heartbeat from the server's sink to the device's document. The NSQ client and the
  JSON codec are arguments.

  The lemmas show which messages are delivered again, that a heartbeat changes what it reports and
  nothing else, and that an event delivered late turns the device's data back.
\<close>

subsection \<open>The consumer\<close>

record NsqConfig =
  nc_Topic :: string
  nc_Channel :: string
  nc_LookupdHTTPAddr :: "string list"
  nc_Concurrency :: int
  nc_MaxAttempts :: nat

record Consumer =
  cn_topic :: string
  cn_chann :: string
  cn_lookupd :: "string list"
  cn_concurrent :: int
  cn_maxAttempts :: nat
  cn_maxInFlight :: int
  cn_handlers :: int       \<comment> \<open>handler goroutines added\<close>
  cn_connected :: bool
  cn_closed :: bool
  cn_stops :: nat          \<comment> \<open>how often the NSQ consumer was stopped\<close>

datatype 'e consumer_error = NoLookupd | NewConsumerErr 'e | ConnectLookupdErr 'e

text \<open>\<open>dflt\<close> is the client's default for the number of attempts; \<open>new\<close> says how its constructor ends.\<close>

definition Consumer_New ::
    "(string \<Rightarrow> string \<Rightarrow> 'e option) \<Rightarrow> nat \<Rightarrow> NsqConfig \<Rightarrow> 'e consumer_error + Consumer" where
  "Consumer_New new dflt cfg =
     (let topic = (if nc_Topic cfg = '''' then heartbeat_Topic else nc_Topic cfg);
          chann = (if nc_Channel cfg = '''' then ''admin-mongo'' else nc_Channel cfg)
      in if length (nc_LookupdHTTPAddr cfg) = 0 then Inl NoLookupd
         else let conc = (if nc_Concurrency cfg \<le> 0 then 8 else nc_Concurrency cfg) in
           (case new topic chann of
              Some e \<Rightarrow> Inl (NewConsumerErr e)
            | None \<Rightarrow>
                Inr \<lparr>cn_topic = topic, cn_chann = chann, cn_lookupd = nc_LookupdHTTPAddr cfg, cn_concurrent = conc,
                  cn_maxAttempts = (if nc_MaxAttempts cfg > 0 then nc_MaxAttempts cfg else dflt),
                  cn_maxInFlight = conc, cn_handlers = 0, cn_connected = False, cn_closed = False, cn_stops = 0\<rparr>))"

definition Consumer_Start :: "'e option \<Rightarrow> Consumer \<Rightarrow> 'e consumer_error option \<times> Consumer" where
  "Consumer_Start connect c =
     (let c = c\<lparr>cn_handlers := cn_handlers c + cn_concurrent c\<rparr> in
      case connect of
        Some e \<Rightarrow> (Some (ConnectLookupdErr e), c)
      | None \<Rightarrow> (None, c\<lparr>cn_connected := True\<rparr>))"

definition Consumer_Stop :: "Consumer \<Rightarrow> Consumer" where
  "Consumer_Stop c =
     (if cn_closed c then c else c\<lparr>cn_closed := True, cn_connected := False, cn_stops := Suc (cn_stops c)\<rparr>)"

lemma Consumer_Stop_idem [simp]: "Consumer_Stop (Consumer_Stop c) = Consumer_Stop c"
  by (simp add: Consumer_Stop_def)

text \<open>A started consumer has as many handlers as messages in flight, on the defaults where nothing is set.\<close>

lemma consumer_ready:
  assumes "Consumer_New new dflt cfg = Inr c" "Consumer_Start connect c = (r, c')"
  shows "cn_handlers c' = cn_maxInFlight c' \<and> 0 < cn_handlers c' \<and> cn_topic c' \<noteq> '''' \<and> cn_chann c' \<noteq> '''' \<and>
    cn_lookupd c' \<noteq> []"
  using assms by (auto simp: Consumer_New_def Consumer_Start_def Let_def heartbeat_Topic_def split: if_splits option.splits)

subsection \<open>Handling a message\<close>

definition snapshot_of :: "Event \<Rightarrow> NetworkSnapshot" where
  "snapshot_of evt =
     \<lparr>ns_LastIP = evt_RemoteIP evt, ns_NetType = evt_NetType evt, ns_AvgRTTms = evt_AvgRTTms evt,
       ns_LossRate = evt_LossRate evt, ns_Country = geo_Country (evt_Geo evt), ns_CountryName = geo_CountryName (evt_Geo evt),
       ns_Region = geo_Region (evt_Geo evt), ns_RegionCode = geo_RegionCode (evt_Geo evt), ns_City = geo_City (evt_Geo evt),
       ns_CurTsMs = evt_CurTsMs evt, ns_ServerRecvMs = evt_ServerRecvMs evt\<rparr>"

text \<open>The result \<open>None\<close> acknowledges the message, an error has it delivered again.\<close>

definition handle ::
    "('col, 'e) collection \<Rightarrow> (string \<Rightarrow> 'j + Event) \<Rightarrow> int \<Rightarrow> string \<Rightarrow> 'col \<Rightarrow> 'e store_error option \<times> 'col" where
  "handle m unmarshal now body c =
     (case unmarshal body of
        Inl e \<Rightarrow> (None, c)
      | Inr evt \<Rightarrow>
          if evt_DeviceID evt = '''' then (None, c)
          else (case UpdateDeviceNetwork m now (evt_DeviceID evt) (snapshot_of evt) c of
                  (None, c) \<Rightarrow> (None, c)
                | (Some ErrUnknownDevice, c) \<Rightarrow> (None, c)
                | (Some e, c) \<Rightarrow> (Some e, c)))"

text \<open>
  C29. A message is delivered again exactly when it is a well-formed event with a device id whose
  write the database driver failed; one that does not parse, has no id, or is of a device that never
  registered, is dropped and leaves every document as it is.
\<close>

theorem handle_requeues:
  assumes "mongo_ok m" "handle m unmarshal now body c = (res, c')"
  shows "(res \<noteq> None \<longleftrightarrow> (\<exists>evt e. unmarshal body = Inr evt \<and> evt_DeviceID evt \<noteq> '''' \<and>
      fst (c_update m (evt_DeviceID evt) (network_set now (snapshot_of evt)) c) = Inl e)) \<and>
    (isl (unmarshal body) \<or> evt_DeviceID (projr (unmarshal body)) = '''' \<or>
       c_docs m c (evt_DeviceID (projr (unmarshal body))) = None \<longrightarrow> c_docs m c' = c_docs m c)"
proof (cases "unmarshal body")
  case (Inl e)
  then show ?thesis using assms(2) by (simp add: handle_def)
next
  case (Inr evt)
  show ?thesis
  proof (cases "evt_DeviceID evt = ''''")
    case True
    then show ?thesis using assms(2) Inr by (simp add: handle_def)
  next
    case False
    obtain r c1 where u: "UpdateDeviceNetwork m now (evt_DeviceID evt) (snapshot_of evt) c = (r, c1)" by fastforce
    obtain r' where d: "c_update m (evt_DeviceID evt) (network_set now (snapshot_of evt)) c = (r', c1)"
      "r = (case r' of Inl e \<Rightarrow> Some (UpdateErr e) | Inr n \<Rightarrow> if n = 0 then Some ErrUnknownDevice else None)"
      using u False by (auto simp: UpdateDeviceNetwork_def split: prod.splits sum.splits)
    have h: "res = (if r = Some ErrUnknownDevice then None else r)" "c' = c1"
      using assms(2) Inr False u by (auto simp: handle_def split: option.splits store_error.splits)
    have "c_docs m c1 = c_docs m c" if "c_docs m c (evt_DeviceID evt) = None"
      using Network_cases[OF assms(1) u] that by auto
    moreover have "(res \<noteq> None) = (\<exists>e. r' = Inl e)" using h(1) d(2) by (auto split: sum.splits)
    ultimately show ?thesis using Inr False d(1) h(2) by simp
  qed
qed

text \<open>A store whose driver is down.\<close>

definition demo_event :: "int \<Rightarrow> Event" where
  "demo_event t = \<lparr>evt_DeviceID = ''dev-1'', evt_RemoteIP = ''203.0.113.7'', evt_NetType = ''wifi'', evt_CurTsMs = t,
     evt_ServerRecvMs = t, evt_AvgRTTms = Some 40, evt_LossRate = None, evt_Geo = zero_Geo\<rparr>"

definition down_collection :: "(mem_col, unit) collection" where
  "down_collection = mem_collection\<lparr>c_update := (\<lambda>i fs c. (Inl (), c))\<rparr>"

lemma down_ok: "mongo_ok down_collection"
proof -
  have sel: "c_docs down_collection = c_docs mem_collection" "c_insert down_collection = c_insert mem_collection"
    "c_upsert down_collection = c_upsert mem_collection" "c_update down_collection = (\<lambda>i fs c. (Inl (), c))"
    by (simp_all add: down_collection_def)
  show ?thesis using mem_ok unfolding mongo_ok_def sel by simp
qed

theorem handle_requeues_witness:
  "fst (handle down_collection (\<lambda>_. Inr (demo_event 5) :: unit + Event) 0 ''x'' []) \<noteq> None \<and>
   fst (handle mem_collection (\<lambda>_. Inr (demo_event 5) :: unit + Event) 0 ''x'' []) = (None :: unit store_error option)"
proof -
  let ?u = "\<lambda>_. Inr (demo_event 5) :: unit + Event"
  have "fst (c_update down_collection i fs []) = Inl ()" for i fs by (simp add: down_collection_def)
  moreover have "fst (c_update mem_collection i fs []) = Inr 0" for i fs by (simp add: mem_collection_def)
  moreover have e: "evt_DeviceID (demo_event 5) \<noteq> ''''" by (simp add: demo_event_def)
  moreover obtain r1 c1 where h1: "handle down_collection ?u 0 ''x'' [] = (r1, c1)" by fastforce
  moreover obtain r2 c2 where h2: "handle mem_collection ?u 0 ''x'' [] = (r2, c2)" by fastforce
  ultimately show ?thesis
    using handle_requeues[OF down_ok h1] handle_requeues[OF mem_ok h2] by simp
qed

subsection \<open>From the sink to the document\<close>

text \<open>A reported value, or what was there.\<close>

definition reported_str :: "doc \<Rightarrow> string \<Rightarrow> string \<Rightarrow> bson option" where
  "reported_str d k v = (if v \<noteq> '''' then Some (BStr v) else d k)"

lemma lookup_set_str:
  "map_of (set_str k v @ xs) k' = (if k' = k then (if v \<noteq> '''' then Some (BStr v) else map_of xs k') else map_of xs k')"
  by (simp add: set_str_def)

lemma lookup_opt:
  "map_of ((case o' of None \<Rightarrow> [] | Some v \<Rightarrow> [(k, f v)]) @ xs) k' =
     (if k' = k then (case o' of None \<Rightarrow> map_of xs k' | Some v \<Rightarrow> Some (f v)) else map_of xs k')"
  by (simp split: option.split)

lemma lookup_if:
  "map_of ((if b then [(k, v)] else []) @ xs) k' = (if k' = k then (if b then Some v else map_of xs k') else map_of xs k')"
  by simp

lemma network_fields_of:
  "(d ++ map_of (network_set now s)) ''network.last_ip'' = reported_str d ''network.last_ip'' (ns_LastIP s)"
  "(d ++ map_of (network_set now s)) ''network.net_type'' = reported_str d ''network.net_type'' (ns_NetType s)"
  "(d ++ map_of (network_set now s)) ''network.avg_rtt_ms'' =
     (case ns_AvgRTTms s of None \<Rightarrow> d ''network.avg_rtt_ms'' | Some v \<Rightarrow> Some (BInt64 v))"
  "(d ++ map_of (network_set now s)) ''network.loss_rate'' =
     (case ns_LossRate s of None \<Rightarrow> d ''network.loss_rate'' | Some v \<Rightarrow> Some (BDouble v))"
  "(d ++ map_of (network_set now s)) ''network.country'' = reported_str d ''network.country'' (ns_Country s)"
  "(d ++ map_of (network_set now s)) ''network.city'' = reported_str d ''network.city'' (ns_City s)"
  "(d ++ map_of (network_set now s)) ''network.last_seen_at'' =
     Some (if ns_ServerRecvMs s > 0 then BDateTime (ns_ServerRecvMs s) else bson_time now)"
  by (simp_all add: map_add_def network_set_def lookup_set_str lookup_opt lookup_if reported_str_def del: map_of_append split: option.split)


definition demo_store :: mem_col where
  "demo_store = [(''dev-1'', [''_id'' \<mapsto> BStr ''dev-1'', ''network.city'' \<mapsto> BStr ''Bonn''])]"

lemma demo_handle:
  "unmarshal b = Inr (demo_event t) \<Longrightarrow> map_of c ''dev-1'' = Some d \<Longrightarrow>
   \<exists>d'. handle mem_collection unmarshal now b c = (None, (''dev-1'', d') # c)"
  by (simp add: handle_def demo_event_def UpdateDeviceNetwork_def mem_collection_def)


text \<open>
  Events are not ordered: a message that was delivered again arrives after later ones, and its older
  time of arrival (and all it reports) replaces theirs, so a device's last-seen time can move back.
\<close>

theorem late_event_turns_back:
  assumes "mongo_ok m" "evt_DeviceID new = i" "evt_DeviceID old = i" "i \<noteq> ''''"
    and "0 < evt_ServerRecvMs old" "evt_ServerRecvMs old < evt_ServerRecvMs new"
    and "unmarshal b1 = Inr new" "unmarshal b2 = Inr old" "c_docs m c i = Some d"
    and "handle m unmarshal now1 b1 c = (None, c1)" "handle m unmarshal now2 b2 c1 = (None, c2)"
  shows "\<exists>d1 d2. c_docs m c1 i = Some d1 \<and> c_docs m c2 i = Some d2 \<and>
    d1 ''network.last_seen_at'' = Some (BDateTime (evt_ServerRecvMs new)) \<and>
    d2 ''network.last_seen_at'' = Some (BDateTime (evt_ServerRecvMs old))"
proof -
  have written: "\<exists>d'. c_docs m c' i = Some d' \<and> d' ''network.last_seen_at'' = Some (BDateTime (evt_ServerRecvMs e))"
    if "unmarshal b = Inr e" "evt_DeviceID e = i" "0 < evt_ServerRecvMs e" "c_docs m c i = Some d"
      "handle m unmarshal now b c = (None, c')" for b e c c' now d
  proof -
    obtain r' c1 where u: "UpdateDeviceNetwork m now i (snapshot_of e) c = (r', c1)" by fastforce
    have "r' = None \<or> r' = Some ErrUnknownDevice" "c1 = c'"
      using assms(4) that u by (auto simp: handle_def split: option.splits store_error.splits)
    with Network_cases[OF assms(1) u] that(4)
    have "c_docs m c' = (c_docs m c)(i \<mapsto> d ++ map_of (network_set now (snapshot_of e)))" by auto
    moreover have "ns_ServerRecvMs (snapshot_of e) = evt_ServerRecvMs e" by (simp add: snapshot_of_def)
    ultimately show ?thesis using that(3) network_fields_of(7)[of d now "snapshot_of e"] by simp
  qed
  obtain d1 where d1: "c_docs m c1 i = Some d1" "d1 ''network.last_seen_at'' = Some (BDateTime (evt_ServerRecvMs new))"
    using written[OF assms(7,2) _ assms(9,10)] assms(5,6) by auto
  then show ?thesis using written[OF assms(8,3,5) d1(1) assms(11)] by auto
qed

theorem late_event_turns_back_witness:
  "\<exists>c1 c2 d1 d2. handle mem_collection (\<lambda>b. Inr (demo_event (if b = ''new'' then 9 else 5)) :: unit + Event) 0 ''new'' demo_store = (None, c1) \<and>
     handle mem_collection (\<lambda>b. Inr (demo_event (if b = ''new'' then 9 else 5)) :: unit + Event) 0 ''old'' c1 = (None, c2) \<and>
     map_of c1 ''dev-1'' = Some d1 \<and> map_of c2 ''dev-1'' = Some d2 \<and>
     d1 ''network.last_seen_at'' = Some (BDateTime 9) \<and> d2 ''network.last_seen_at'' = Some (BDateTime 5)"
proof -
  let ?u = "\<lambda>b. Inr (demo_event (if b = ''new'' then 9 else 5)) :: unit + Event"
  have city: "map_of demo_store ''dev-1'' = Some [''_id'' \<mapsto> BStr ''dev-1'', ''network.city'' \<mapsto> BStr ''Bonn'']"
    by (simp add: demo_store_def)
  obtain e1 where h1: "handle mem_collection ?u 0 ''new'' demo_store = (None, (''dev-1'', e1) # demo_store)"
    using demo_handle[of ?u "''new''" 9, OF _ city] by auto
  obtain e2 where h2: "handle mem_collection ?u 0 ''old'' ((''dev-1'', e1) # demo_store) =
      (None, (''dev-1'', e2) # (''dev-1'', e1) # demo_store)"
    using demo_handle[of ?u "''old''" 5 "(''dev-1'', e1) # demo_store" e1] by auto
  have docs: "c_docs mem_collection = map_of" by (simp add: mem_collection_def)
  have e: "evt_DeviceID (demo_event t) = ''dev-1''" "evt_ServerRecvMs (demo_event t) = t" for t
    by (simp_all add: demo_event_def)
  have k: "c_docs mem_collection demo_store ''dev-1'' = Some [''_id'' \<mapsto> BStr ''dev-1'', ''network.city'' \<mapsto> BStr ''Bonn'']"
    using city by (simp add: docs)
  have "?u ''new'' = Inr (demo_event 9)" "?u ''old'' = Inr (demo_event 5)" by simp_all
  from late_event_turns_back[OF mem_ok e(1) e(1) _ _ _ this k h1 h2]
  show ?thesis using h1 h2 by (auto simp: e docs)
qed

end
