(* ===== verification/Admin_Main.thy ===== *)
theory Admin_Main
  imports Register_Handler Nsq_Consumer
begin

text \<open>
  \<open>admin/main.go\<close>: how the admin service is put together from the handler, the store and the consumer, what it
  answers, and how it stops. What the constructors meet is in a record; the effects are returned in
  order. A failure of the boot exits the process at once, without the deferred calls.

  The lemmas show the order of the effects, and that a device that got its id by a request is known
  to the consumer ever after.
\<close>

subsection \<open>Boot and shutdown\<close>

record 'e admin_env =
  ae_cfg :: "admin_error + AdminCfg"
  ae_connect :: "'e option"
  ae_ping :: "'e option"
  ae_index :: "string \<Rightarrow> 'e option"
  ae_consumer :: "string \<Rightarrow> string \<Rightarrow> 'e option"
  ae_attempts :: nat                 \<comment> \<open>the NSQ client's default\<close>
  ae_lookupd :: "'e option"

datatype admin_effect =
    AdmStore mongo_effect
  | AdmConsumerStart
  | AdmServe string
  | AdmHTTPShutdown
  | AdmConsumerStop

datatype 'e admin_boot_error =
    AdmConfig admin_error
  | AdmMongo "'e open_error"
  | AdmHandler admin_error
  | AdmConsumer "'e consumer_error"

record admin_service =
  as_cfg :: AdminCfg
  as_handler :: RegisterHandler
  as_consumer :: "Consumer option"

definition consumer_config :: "AdminCfg \<Rightarrow> NsqConfig" where
  "consumer_config cfg =
     \<lparr>nc_Topic = ad_HeartbeatTopic cfg, nc_Channel = ad_HeartbeatChannel cfg,
       nc_LookupdHTTPAddr = ad_NSQLookupdHTTPAddrs cfg, nc_Concurrency = ad_HeartbeatConcurrency cfg, nc_MaxAttempts = 0\<rparr>"

text \<open>The consumer runs when an address of a lookup daemon is configured.\<close>

definition boot_consumer :: "'e admin_env \<Rightarrow> AdminCfg \<Rightarrow> 'e admin_boot_error + (Consumer option \<times> admin_effect list)" where
  "boot_consumer ae cfg =
     (if length (ad_NSQLookupdHTTPAddrs cfg) > 0 then
        (case Consumer_New (ae_consumer ae) (ae_attempts ae) (consumer_config cfg) of
           Inl e \<Rightarrow> Inl (AdmConsumer e)
         | Inr c \<Rightarrow>
             (case Consumer_Start (ae_lookupd ae) c of
                (Some e, c) \<Rightarrow> Inl (AdmConsumer e)
              | (None, c) \<Rightarrow> Inr (Some c, [AdmConsumerStart])))
      else Inr (None, []))"

definition admin_boot :: "'e admin_env \<Rightarrow> ('e admin_boot_error + admin_service) \<times> admin_effect list" where
  "admin_boot ae =
     (case ae_cfg ae of
        Inl e \<Rightarrow> (Inl (AdmConfig e), [])
      | Inr cfg \<Rightarrow>
     (case NewMongoDeviceStore (ae_connect ae) (ae_ping ae) (ae_index ae) of
        (Some e, effs) \<Rightarrow> (Inl (AdmMongo e), map AdmStore effs)
      | (None, effs) \<Rightarrow>
     (case RegisterHandler_New cfg of
        Inl e \<Rightarrow> (Inl (AdmHandler e), map AdmStore effs)
      | Inr h \<Rightarrow>
     (case boot_consumer ae cfg of
        Inl e \<Rightarrow> (Inl e, map AdmStore effs)
      | Inr (cons, effs') \<Rightarrow>
          (Inr \<lparr>as_cfg = cfg, as_handler = h, as_consumer = cons\<rparr>, map AdmStore effs @ effs')))))"

text \<open>
  After a signal or the end of the HTTP server, whichever is first, the server is shut down; then the
  deferred calls run in reverse order.
\<close>

definition admin_stop :: "admin_service \<Rightarrow> admin_effect list" where
  "admin_stop sv =
     [AdmHTTPShutdown] @ (if as_consumer sv \<noteq> None then [AdmConsumerStop] else []) @ [AdmStore MDisconnect]"

definition admin_main :: "'e admin_env \<Rightarrow> 'e admin_boot_error option \<times> admin_effect list" where
  "admin_main ae =
     (case admin_boot ae of
        (Inl e, effs) \<Rightarrow> (Some e, effs)
      | (Inr sv, effs) \<Rightarrow> (None, effs @ [AdmServe (ad_HTTPListen (as_cfg sv))] @ admin_stop sv))"

lemma boot_consumer_ok:
  assumes "boot_consumer ae cfg = Inr (c, effs)"
  shows "(c \<noteq> None \<longleftrightarrow> ad_NSQLookupdHTTPAddrs cfg \<noteq> []) \<and> effs = (if c = None then [] else [AdmConsumerStart]) \<and>
    (\<forall>x. c = Some x \<longrightarrow> cn_connected x \<and> 0 < cn_handlers x \<and> cn_lookupd x = ad_NSQLookupdHTTPAddrs cfg)"
  using assms
  by (auto simp: boot_consumer_def Consumer_New_def Consumer_Start_def consumer_config_def Let_def
      split: if_splits sum.splits option.splits prod.splits)

lemma open_ok_effects:
  assumes "NewMongoDeviceStore connect ping create = (None, effs)"
  shows "MDisconnect \<notin> set effs" "MIndex ''uniq_fingerprint'' [(''fingerprint'', 1)] True True \<in> set effs"
  using open_disconnects[OF assms] by simp_all


definition demo_admin_env :: "string list \<Rightarrow> unit option \<Rightarrow> unit admin_env" where
  "demo_admin_env lookupd down =
     \<lparr>ae_cfg = Inr (demo_admin\<lparr>ad_NSQLookupdHTTPAddrs := lookupd\<rparr>), ae_connect = None, ae_ping = None, ae_index = (\<lambda>_. None),
      ae_consumer = (\<lambda>_ _. None), ae_attempts = 5, ae_lookupd = down\<rparr>"


subsection \<open>Requests and messages\<close>

text \<open>The answer of the multiplexer; \<open>other\<close> is what it says to paths that nobody handles (404, or a redirect).\<close>

datatype admin_answer = AnsRegister int http_body | AnsText int string

definition admin_mux ::
    "(string \<Rightarrow> int \<times> string) \<Rightarrow> (http_request \<Rightarrow> 'st \<Rightarrow> (int \<times> http_body) \<times> 'st) \<Rightarrow> string \<Rightarrow> http_request \<Rightarrow> 'st \<Rightarrow>
     admin_answer \<times> 'st" where
  "admin_mux other register path r st =
     (if path = ''/register'' then (case register r st of ((status, body), st) \<Rightarrow> (AnsRegister status body, st))
      else if path = ''/healthz'' then (AnsText 200 ''ok'', st)
      else (case other path of (status, t) \<Rightarrow> (AnsText status t, st)))"

text \<open>
  What the running service does: a request, with the clock in milliseconds and in nanoseconds and the random
  bytes it meets, or a message of the queue. Each of them is at most one operation of the store.
\<close>

datatype admin_call =
    AdmRequest int int "byte list option" string http_request
  | AdmMessage int string

record ('col, 'e, 'j) admin_world =
  aw_col :: "('col, 'e) collection"
  aw_alg :: cipher_alg
  aw_unenv :: "byte list \<Rightarrow> requestEnvelope option"
  aw_undev :: "byte list \<Rightarrow> devicePayload option"
  aw_unmarshal :: "string \<Rightarrow> 'j + Event"
  aw_other :: "string \<Rightarrow> int \<times> string"

definition admin_request ::
    "('col, 'e, 'j) admin_world \<Rightarrow> RegisterHandler \<Rightarrow> int \<Rightarrow> int \<Rightarrow> byte list option \<Rightarrow> string \<Rightarrow> http_request \<Rightarrow> 'col \<Rightarrow>
     admin_answer \<times> 'col" where
  "admin_request w h ms ns rand path r c =
     admin_mux (aw_other w) (ServeHTTP (aw_alg w) (aw_unenv w) (aw_undev w) ms (UpsertDevice (aw_col w) ns rand) h) path r c"

fun admin_exec :: "('col, 'e, 'j) admin_world \<Rightarrow> RegisterHandler \<Rightarrow> admin_call \<Rightarrow> 'col \<Rightarrow> 'col" where
  "admin_exec w h (AdmRequest ms ns rand path r) c = snd (admin_request w h ms ns rand path r c)"
| "admin_exec w h (AdmMessage now body) c = snd (handle (aw_col w) (aw_unmarshal w) now body c)"

definition admin_run :: "('col, 'e, 'j) admin_world \<Rightarrow> RegisterHandler \<Rightarrow> admin_call list \<Rightarrow> 'col \<Rightarrow> 'col" where
  "admin_run w h calls c = fold (admin_exec w h) calls c"

text \<open>The service is a user of the store: what it does is a history of store calls.\<close>

lemma request_store:
  "\<exists>calls. snd (admin_request w h ms ns rand path r c) = store_run (aw_col w) calls c"
proof (cases "path = ''/register'' \<and> (\<exists>dp. admissible (aw_alg w) (aw_unenv w) (aw_undev w) ms h r dp)")
  case True
  then obtain dp where dp: "admissible (aw_alg w) (aw_unenv w) (aw_undev w) ms h r dp" by blast
  have "snd (admin_request w h ms ns rand path r c) = store_run (aw_col w) [CallUpsert ns rand (store_info r dp)] c"
    using True ServeHTTP_admissible[OF dp, of "UpsertDevice (aw_col w) ns rand" c]
    by (auto simp: admin_request_def admin_mux_def store_run_def split: prod.splits sum.splits)
  then show ?thesis by blast
next
  case False
  have "snd (admin_request w h ms ns rand path r c) = store_run (aw_col w) [] c"
  proof (cases "path = ''/register''")
    case True
    then show ?thesis
      using False ServeHTTP_rejected[of "aw_alg w" "aw_unenv w" "aw_undev w" ms h r "UpsertDevice (aw_col w) ns rand" c]
      by (auto simp: admin_request_def admin_mux_def store_run_def)
  qed (simp add: admin_request_def admin_mux_def store_run_def split: prod.split)
  then show ?thesis by blast
qed

lemma message_store: "\<exists>calls. snd (handle m unmarshal now body c) = store_run m calls c"
proof (cases "isl (unmarshal body) \<or> evt_DeviceID (projr (unmarshal body)) = ''''")
  case True
  then have "snd (handle m unmarshal now body c) = store_run m [] c"
    by (auto simp: handle_def store_run_def split: sum.split)
  then show ?thesis by blast
next
  case False
  then obtain evt where "unmarshal body = Inr evt" "evt_DeviceID evt \<noteq> ''''" by (cases "unmarshal body") auto
  then have "snd (handle m unmarshal now body c) = store_run m [CallNetwork now (evt_DeviceID evt) (snapshot_of evt)] c"
    by (auto simp: handle_def store_run_def split: prod.splits option.splits store_error.splits)
  then show ?thesis by blast
qed

lemma admin_run_store: "\<exists>ops. admin_run w h calls c = store_run (aw_col w) ops c"
proof (induction calls arbitrary: c)
  case (Cons x calls)
  have "\<exists>ops. admin_exec w h x c = store_run (aw_col w) ops c"
    by (cases x; simp only: admin_exec.simps) (rule request_store message_store)+
  then obtain o1 where 1: "admin_exec w h x c = store_run (aw_col w) o1 c" ..
  obtain o2 where "admin_run w h calls (admin_exec w h x c) = store_run (aw_col w) o2 (admin_exec w h x c)"
    using Cons.IH by blast
  then have "admin_run w h (x # calls) c = store_run (aw_col w) (o1 @ o2) c"
    using 1 by (simp add: admin_run_def store_run_def)
  then show ?case by blast
qed (auto simp: admin_run_def store_run_def intro: exI[of _ "[]"])

text \<open>
  C7. A device that has got its id from the service is known to it from then on: after any further
  requests and messages, a heartbeat with that id that is acknowledged has been written to
  that device's document, with the data it reports, and to no other; it is never dropped as one
  of an unknown device. The document still has the fingerprint of the registration.
\<close>

theorem registered_device_known:
  assumes "mongo_ok (aw_col w)" "store_ok (c_docs (aw_col w) c0)"
    and "admin_request w h ms ns rand path r c0 = (AnsRegister 200 (OkBody resp), c1)" "rr_DeviceID resp \<noteq> ''''"
    and "aw_unmarshal w body = Inr evt" "evt_DeviceID evt = rr_DeviceID resp"
    and "handle (aw_col w) (aw_unmarshal w) now body (admin_run w h calls c1) = (None, c2)"
  shows "path = ''/register'' \<and>
    (\<exists>dp d. admissible (aw_alg w) (aw_unenv w) (aw_undev w) ms h r dp \<and>
       has_fp (Fingerprint (store_info r dp)) d \<and>
       c_docs (aw_col w) (admin_run w h calls c1) (rr_DeviceID resp) = Some d \<and>
       c_docs (aw_col w) c2 = (c_docs (aw_col w) (admin_run w h calls c1))
         (rr_DeviceID resp \<mapsto> d ++ map_of (network_set now (snapshot_of evt))))"
proof -
  have path: "path = ''/register''"
    using assms(3) by (auto simp: admin_request_def admin_mux_def split: if_splits prod.splits)
  obtain dp where dp: "admissible (aw_alg w) (aw_unenv w) (aw_undev w) ms h r dp"
    using assms(3) path ServeHTTP_rejected[of "aw_alg w" "aw_unenv w" "aw_undev w" ms h r "UpsertDevice (aw_col w) ns rand" c0]
    by (fastforce simp: admin_request_def admin_mux_def split: prod.splits)
  obtain dev where dev: "UpsertDevice (aw_col w) ns rand (store_info r dp) c0 = (Inr dev, c1)" "rr_DeviceID resp = sd_DeviceID dev"
    using assms(3) path ServeHTTP_admissible[OF dp, of "UpsertDevice (aw_col w) ns rand" c0]
    by (auto simp: admin_request_def admin_mux_def ok_response_def split: prod.splits sum.splits)
  let ?c = "admin_run w h calls c1"
  obtain ops where ops: "?c = fold (store_exec (aw_col w)) ops c1" using admin_run_store[of w h calls c1] by (auto simp: store_run_def)
  then have "mongo_has (aw_col w) ?c (sd_DeviceID dev) (Fingerprint (store_info r dp))"
    using mongo.registered_stays[OF conjI[OF assms(1,2)] dev(1), of ops] by simp
  then obtain d where d: "c_docs (aw_col w) ?c (sd_DeviceID dev) = Some d" "has_fp (Fingerprint (store_info r dp)) d"
    by (auto simp: mongo_has_def)
  obtain res c' where u: "UpdateDeviceNetwork (aw_col w) now (evt_DeviceID evt) (snapshot_of evt) ?c = (res, c')" by fastforce
  have "res = None \<or> res = Some ErrUnknownDevice" "c' = c2"
    using assms(4-7) u by (auto simp: handle_def split: option.splits store_error.splits)
  moreover have "res \<noteq> Some ErrUnknownDevice" 
    using mongo.registered_never_unknown[OF conjI[OF assms(1,2)] dev(1)] u assms(6) dev(2) unfolding ops by simp
  ultimately have "res = None" "c' = c2" by auto
  with Network_cases[OF assms(1) u] d(1) assms(6) dev(2)
  have "c_docs (aw_col w) c2 = (c_docs (aw_col w) ?c)(rr_DeviceID resp \<mapsto> d ++ map_of (network_set now (snapshot_of evt)))"
    by auto
  then show ?thesis using path dp d dev(2) by auto
qed

definition demo_device :: devicePayload where
  "demo_device = \<lparr>dv_OS = ''android'', dv_Brand = ''B'', dv_Model = ''M'', dv_IMEI = ''3550'', dv_AndroidID = '''',
     dv_SerialNumber = '''', dv_Timestamp = 1700000000000\<rparr>"

definition demo_payload :: string where
  "demo_payload = projr (BuildRegisterPlayloadB64 demo_cipher (Some (replicate 16 9)) (bytes_of_string ''secret'') [123, 125])"

definition demo_world :: "(mem_col, unit, unit) admin_world" where
  "demo_world = \<lparr>aw_col = mem_collection, aw_alg = demo_cipher,
     aw_unenv = (\<lambda>_. Some \<lparr>re_Playload = demo_payload, re_Timestamp = 1700000000000\<rparr>), aw_undev = (\<lambda>_. Some demo_device),
     aw_unmarshal = (\<lambda>_. Inr ((demo_event 5)\<lparr>evt_DeviceID := ''dev-010203040506''\<rparr>)), aw_other = (\<lambda>_. (404, ''404 page not found''))\<rparr>"

definition demo_registered :: "admin_answer \<times> mem_col" where
  "demo_registered = admin_request demo_world demo_handler 1700000000100 5 (Some [1, 2, 3, 4, 5, 6]) ''/register''
     (demo_request ''POST'' '''') []"

lemma demo_post_admissible:
  "admissible demo_cipher (aw_unenv demo_world) (aw_undev demo_world) 1700000000100 demo_handler (demo_request ''POST'' '''') demo_device"
proof -
  obtain p where p: "BuildRegisterPlayloadB64 demo_cipher (Some (replicate 16 9)) (bytes_of_string ''secret'') [123, 125] = Inr p"
    using payload_builds[OF demo_cipher_ok, of "replicate 16 9"] by (auto simp: BlockSize_def)
  have "decryptPlayload demo_cipher (bytes_of_string ''secret'') p = Inr [123, 125]" "p \<noteq> ''''"
    using decryptPlayload_built[OF demo_cipher_ok _ p] by (simp_all add: BlockSize_def)
  moreover have "demo_payload = p" by (simp only: demo_payload_def p sum.sel)
  moreover have "fresh (rh_cfg demo_handler) 1700000000100 1700000000000"
    by (simp add: fresh_near demo_handler_def demo_admin_def)
  ultimately show ?thesis
    by (simp add: admissible_def demo_world_def demo_request_def maxBodyBytes_def demo_device_def demo_handler_def)
qed

lemma demo_registered:
  "demo_registered = (AnsRegister 200 (OkBody (ok_response demo_admin (projr (fst demo_reg_device)))), snd demo_reg_device)"
proof -
  have i: "store_info (demo_request ''POST'' '''') demo_device = store_info (post ''192.0.2.1:99'' '''') demo_device"
    by (simp add: store_info_def clientIP_def demo_request_def post_def split: option.split)
  have "UpsertDevice mem_collection 5 (Some [1, 2, 3, 4, 5, 6]) (store_info (demo_request ''POST'' '''') demo_device) [] =
      (Inr (projr (fst demo_reg_device)), snd demo_reg_device)"
    using demo_reg_device unfolding i unfolding demo_reg_device_def demo_device_def by (simp add: prod_eq_iff)
  then show ?thesis
    using ServeHTTP_admissible[OF demo_post_admissible, of "UpsertDevice mem_collection 5 (Some [1, 2, 3, 4, 5, 6])" "[]"]
    by (simp add: demo_registered_def admin_request_def admin_mux_def demo_world_def demo_handler_def)
qed

text \<open>A device registers; after a health check its heartbeat is written.\<close>

theorem registered_device_known_witness:
  "\<exists>c2 d. handle mem_collection (aw_unmarshal demo_world) 9 ''E''
       (admin_run demo_world demo_handler [AdmRequest 1 1 None ''/healthz'' (demo_request ''GET'' '''')] (snd demo_registered)) =
     (None, c2) \<and> map_of c2 ''dev-010203040506'' = Some d \<and> d ''network.avg_rtt_ms'' = Some (BInt64 40)"
proof -
  let ?calls = "[AdmRequest 1 1 None ''/healthz'' (demo_request ''GET'' '''')]"
  let ?c1 = "snd demo_reg_device" and ?id = "''dev-010203040506''"
  let ?evt = "(demo_event 5)\<lparr>evt_DeviceID := ?id\<rparr>"
  let ?resp = "ok_response demo_admin (projr (fst demo_reg_device))"
  have w: "aw_col demo_world = mem_collection" "aw_unmarshal demo_world = (\<lambda>_. Inr ?evt)"
    by (simp_all add: demo_world_def)
  have c: "admin_run demo_world demo_handler ?calls ?c1 = ?c1"
    by (simp add: admin_run_def admin_request_def admin_mux_def)
  have id: "rr_DeviceID ?resp = ?id" using demo_reg_device by (simp add: ok_response_def)
  have "map_of ?c1 ?id \<noteq> None" by code_simp
  then obtain d0 where d0: "map_of ?c1 ?id = Some d0" by blast
  then obtain c2 where h: "handle mem_collection (aw_unmarshal demo_world) 9 ''E'' (admin_run demo_world demo_handler ?calls ?c1) = (None, c2)"
    unfolding c w by (simp add: handle_def UpdateDeviceNetwork_def mem_collection_def)
  have "store_ok (c_docs (aw_col demo_world) [])" by (simp add: w store_ok_def mem_collection_def)
  moreover have "admin_request demo_world demo_handler 1700000000100 5 (Some [1, 2, 3, 4, 5, 6]) ''/register''
     (demo_request ''POST'' '''') [] = (AnsRegister 200 (OkBody ?resp), ?c1)"
    using demo_registered unfolding demo_registered_def .
  moreover have "aw_unmarshal demo_world ''E'' = Inr ?evt" "evt_DeviceID ?evt = rr_DeviceID ?resp" "rr_DeviceID ?resp \<noteq> ''''"
    using id by (simp_all add: w)
  ultimately obtain d where "map_of c2 ?id = Some (d ++ map_of (network_set 9 (snapshot_of ?evt)))"
    using registered_device_known[of demo_world "[]" demo_handler 1700000000100 5 "Some [1, 2, 3, 4, 5, 6]" "''/register''"
        "demo_request ''POST'' ''''" ?resp ?c1 "''E''" ?evt 9 ?calls c2] h mem_ok id
    by (auto simp: w mem_collection_def)
  moreover have "ns_AvgRTTms (snapshot_of ?evt) = Some 40" by (simp add: snapshot_of_def demo_event_def)
  moreover have "snd demo_registered = ?c1" by (simp only: demo_registered prod.sel)
  ultimately show ?thesis using h
    by (intro exI[of _ c2] exI[of _ "d ++ map_of (network_set 9 (snapshot_of ?evt))"])
      (simp only: network_fields_of option.case simp_thms)
qed

end
