(* ===== verification/Client_Main.thy ===== *)
theory Client_Main
  imports Client_Config Client_Session
begin

text \<open>
  \<open>client/main.go\<close>: the command-line client loads its settings and runs until \<open>core.Run\<close> returns. The
  lemmas show when the process ends, and that it takes a cancellation for a failure when it comes
  as the wrapped error of a dial or a TLS handshake.
\<close>

datatype 'e client_exit = ExitConfig config_error | ExitRun "'e session_error" | ExitClean

text \<open>
  The comparison \<open>err != context.Canceled\<close> is one of identity: the errors that \<open>ctx.Err()\<close> returned are
  \<open>RunCtx\<close> and \<open>SeCanceled\<close>; \<open>same\<close> decides it for the other errors of a session.
\<close>

definition client_main ::
    "('e session_error \<Rightarrow> bool) \<Rightarrow> config_error + ClientCfg \<Rightarrow> (ClientCfg \<Rightarrow> 'e run_end option) \<Rightarrow> 'e client_exit option" where
  "client_main same loaded run_client =
     (case loaded of
        Inl e \<Rightarrow> Some (ExitConfig e)
      | Inr cfg \<Rightarrow>
          (case run_client cfg of
             None \<Rightarrow> None
           | Some RunCtx \<Rightarrow> Some ExitClean
           | Some (RunSession e) \<Rightarrow> Some (if e = SeCanceled \<or> same e then ExitClean else ExitRun e)))"

text \<open>\<open>core.Run\<close> with the loaded delays.\<close>

definition core_run :: "('e \<Rightarrow> bool) \<Rightarrow> (f64 \<Rightarrow> int) \<Rightarrow> ('e, 'c) iteration list \<Rightarrow> ClientCfg \<Rightarrow> 'e run_end option" where
  "core_run isc oob its cfg = fst (Run isc oob its (cc_ReconnectInitialBackoff cfg) (cc_ReconnectMaxBackoff cfg))"

lemma client_main_runs:
  "client_main same (Inr cfg) (core_run isc oob its) = None \<longleftrightarrow> list_all (goes_on isc) its"
  by (auto simp: client_main_def core_run_def Run_def simp flip: runLoop_None[of isc oob _ "newReconnectBackoff
    (cc_ReconnectInitialBackoff cfg) (cc_ReconnectMaxBackoff cfg)"] split: option.split run_end.split)

text \<open>
  A cancellation during a dial or a handshake: the loop takes the wrapped error for its end, the
  process for a failure.
\<close>

lemma cancelled_handshake_fails:
  assumes "list_all (goes_on isc) pre" "\<not> it_ctx it" "se_dial (it_session it) = Inr c"
    and "se_handshake (it_session it) = Some e" "isc e" "\<not> same (SeTLS e)"
  shows "client_main same (Inr cfg) (core_run isc oob (pre @ it # rest)) = Some (ExitRun (SeTLS e))"
proof -
  obtain rb' ds where l: "\<And>its. runLoop isc oob (pre @ its)
      (newReconnectBackoff (cc_ReconnectInitialBackoff cfg) (cc_ReconnectMaxBackoff cfg)) =
      (fst (runLoop isc oob its rb'), ds @ snd (runLoop isc oob its rb'))"
    using runLoop_append[OF assms(1), of oob
      "newReconnectBackoff (cc_ReconnectInitialBackoff cfg) (cc_ReconnectMaxBackoff cfg)"] by auto
  have "runLoop isc oob (it # rest) rb' = (Some (RunSession (SeTLS e)), [])"
    using assms(2-5) by (simp add: runSession_def)
  then show ?thesis using l assms(6) by (simp add: client_main_def core_run_def Run_def)
qed

end
