(* ===== verification/Proxy.thy ===== *)
theory Proxy
  imports Socks_Setup Dial_Request
begin

text \<open>
  The proxy as \<open>server/main.go\<close> puts it together: the SOCKS server of \<open>Socks_Setup\<close> with the dial callback
  of \<open>Dial_Request\<close> in the scheduler scheme. The property follows one client from its login to the
  device that carries its traffic.
\<close>

text \<open>
  The callback as the SOCKS server sees it, for one connection: \<open>sl\<close> is the lease table that it meets,
  \<open>msg\<close> renders errors and \<open>local\<close> is the local address of a device's stream. A dial that does not return
  has no result to see.
\<close>

definition proxy_dial ::
    "(string \<Rightarrow> StickyLeases \<Rightarrow> (sched_error + string \<times> Handle) \<times> StickyLeases) option \<Rightarrow>
     (string \<Rightarrow> resolve_error + string) \<Rightarrow> ('e request_error \<Rightarrow> string) \<Rightarrow> addr \<Rightarrow>
     (string \<Rightarrow> string \<Rightarrow> string \<Rightarrow> 'e dial_error + conn) \<Rightarrow> (StickyLeases \<Rightarrow> StickyLeases) \<Rightarrow> StickyLeases \<Rightarrow>
     'ctx \<Rightarrow> string \<Rightarrow> string \<Rightarrow> Request \<Rightarrow> dial_result" where
  "proxy_dial sched resolve msg local dial others sl ctx network address rq =
     (case fst (buildDialAndRequest sched resolve (\<lambda>dev. Some (dial dev network address)) others
             (map_option ac_Payload (rq_AuthContext rq)) sl)
        :: ('e request_error + conn \<times> unit leasedConn option) option of
        Some (Inr c) \<Rightarrow> Inr local
      | Some (Inl e) \<Rightarrow> Inl (msg e)
      | None \<Rightarrow> Inl '''')"

lemma proxy_dial_scheduled:
  assumes "proxy_dial (Some pick) resolve msg local dial others sl ctx network address rq = Inr t"
  obtains d h sl1 c where "pick (SOCKS5Username (map_option ac_Payload (rq_AuthContext rq))) sl = (Inr (d, h), sl1)"
    "dial d network address = Inr c"
  using assms that by (auto simp: proxy_dial_def buildDialAndRequest_def Let_def split: sum.splits prod.splits option.splits)

lemma ParseUsername_trimmed: "ParseUsername (TrimSpace u) = ParseUsername u"
  by (simp only: ParseUsername_def TrimSpace_idem)


text \<open>A client with a valid account and a lease on the only device.\<close>

definition demo_user :: string where "demo_user = ''B_1_US_10_abcdefgh''"

lemma demo_opens:
  assumes f: "\<And>ctx n a rq. SOCKS5Username (map_option ac_Payload (rq_AuthContext rq)) = demo_user \<Longrightarrow>
    f ctx n a rq = Inr (TCPAddr [10, 0, 0, 1] 4000)"
  shows "ECloseTarget \<in> set (snd (snd (ServeConn demo_gate_env (socks_server (\<lambda>ctx n. (ctx, Inl ''no such host'')) f
        (Some (WL_refreshLoop [] (snd (WL_Refresh (Inr [''192.0.2.0/24''] :: string + string list) (NewIPWhitelistCache 0)))))
        (store_of (AuthCache True) (Cred_refreshLoop [] (snd (Cred_Refresh demo_creds (NewCredentialCache 0))))))
      (TCPAddr [10, 0, 0, 9] 1080) (TCPAddr [192, 0, 2, 7] 999) demo_client \<lparr>w_out = [], w_ok = None\<rparr>)))"
proof -
  have t: "TrimSpace demo_user = demo_user" by code_simp
  show ?thesis
    by code_simp (simp add: f SOCKS5Username_def t[unfolded demo_user_def] demo_user_def split: prod.split bool.split)
qed

lemma demo_account_pick:
  "Pick pick (demo_env 50) demo_user demo_table = (Inr (''d1'', LeaseHandle 1), snd (AcquireRef 0 demo_table))"
proof -
  have "ParseUsername demo_user =
     Inr \<lparr>tok_UserID = ''B_1'', tok_Country = ''US'', tok_Duration = 600000000000, tok_Session = ''abcdefgh''\<rparr>"
    by code_simp
  then show ?thesis
    by (simp add: Pick_def demo_env_def demo_table_val UserKey_def AuthKey_def GetActive_def
      AcquireRef_def new_handle_def lease_at_def Before_def Let_def)
qed

definition demo_callback :: "unit \<Rightarrow> string \<Rightarrow> string \<Rightarrow> Request \<Rightarrow> dial_result" where
  "demo_callback = proxy_dial (Some (Pick (ScoredSelector_Pick NewScoredSelector) (demo_env 50))) (\<lambda>_. Inl NoDeviceOnline)
     (\<lambda>_. ''dial failed'') (TCPAddr [10, 0, 0, 1] 4000) (\<lambda>d n a. if d = ''d1'' then Inr \<lparr>conn_reads = []\<rparr> else Inl (OpenStreamErr :: unit dial_error))
     (\<lambda>sl. sl) demo_table"

lemma demo_callback:
  "SOCKS5Username (map_option ac_Payload (rq_AuthContext rq)) = demo_user \<Longrightarrow>
   demo_callback ctx n a rq = Inr (TCPAddr [10, 0, 0, 1] 4000)"
  by (simp add: demo_callback_def proxy_dial_def buildDialAndRequest_def Let_def demo_account_pick)


end
