(* ===== verification/Go_Addr.thy ===== *)
theory Go_Addr
  imports Go_Net
begin

text \<open>
  Printing an IP address and parsing the text again: \<open>ParseIP\<close> inverts \<open>IP.String\<close>, for IPv4 and for
  IPv6 with and without an ellipsis. So a printed address is always recognised as a literal.
\<close>

subsection \<open>IPv4\<close>

lemma Itoa_head: "0 < n \<Longrightarrow> List.hd (Itoa n) \<noteq> CHR ''0''"
proof (induction n rule: Itoa.induct)
  case (1 n)
  show ?case
  proof (cases "n < 10")
    case True
    then have "char_val (char_of (48 + n)) = 48 + n" by (simp add: char_val_def)
    moreover have "char_val CHR ''0'' = 48" by (simp add: char_val_def del: One_nat_def)
    ultimately have "char_of (48 + n) \<noteq> CHR ''0''" using 1(2) by (metis add_cancel_left_right not_gr_zero)
    with True show ?thesis by (simp add: Itoa.simps)
  next
    case False
    then have "List.hd (Itoa (n div 10)) \<noteq> CHR ''0''" using 1(1) by simp
    then show ?thesis using False Itoa_digits[of "n div 10"] by (subst Itoa.simps) (simp add: hd_append)
  qed
qed

lemma Itoa_0: "Itoa 0 = ''0''"
  by code_simp

lemma parse_octet_Itoa: "parse_octet (Itoa (unat (b :: byte))) = Some b"
proof -
  have "\<not> (length (Itoa (unat b)) > 1 \<and> List.hd (Itoa (unat b)) = CHR ''0'')"
    using Itoa_head[of "unat b"] by (cases "unat b = 0") (auto simp: Itoa_0)
  moreover have "unat b \<le> 255" using unat_byte_less[of b] by linarith
  ultimately show ?thesis using Itoa_digits[of "unat b"] by (auto simp: parse_octet_def)
qed

lemma Itoa_chars: "c \<in> set (Itoa n) \<Longrightarrow> is_digit c"
  using Itoa_digits[of n] by (auto simp: list_all_iff)

lemma not_digits: "\<not> is_digit CHR ''.''" "\<not> is_digit CHR '':''" "\<not> is_digit CHR ''%''"
  "\<not> is_digit CHR ''[''" "\<not> is_digit CHR '']''"
  by (auto simp: is_digit_def less_eq_char_def)

lemma set_Join: "set (Join c ps) \<subseteq> insert c (\<Union> (set ` set ps))"
  by (induction c ps rule: Join.induct) auto

lemma ipv4_chars: "c \<in> set (ipv4_str a) \<Longrightarrow> is_digit c \<or> c = CHR ''.''"
  using set_Join[of "CHR ''.''" "map (\<lambda>b. Itoa (unat b)) a"] Itoa_chars by (fastforce simp: ipv4_str_def)

lemma length_4_obtain:
  assumes "length a = 4"
  obtains w x y z where "a = [w, x, y, z]"
  using assms by (auto simp: numeral_eq_Suc length_Suc_conv)

lemma parseIPv4_str:
  assumes "length a = 4"
  shows "parseIPv4 (ipv4_str a) = Some a"
proof -
  obtain w x y z where a: "a = [w, x, y, z]" using assms by (rule length_4_obtain)
  have "Split CHR ''.'' (ipv4_str a) = map (\<lambda>b. Itoa (unat b)) a"
    unfolding ipv4_str_def by (rule Split_Join) (use a Itoa_chars not_digits in auto)
  then show ?thesis by (simp add: parseIPv4_def a parse_octet_Itoa)
qed

lemma first_of_filter:
  assumes "c \<in> set s" "P c" "\<And>x. x \<in> set s \<Longrightarrow> P x \<Longrightarrow> x = c"
  shows "\<exists>cs. filter P s = c # cs"
proof (cases "filter P s")
  case Nil
  then show ?thesis using assms(1,2) by (auto simp: filter_empty_conv)
next
  case (Cons x cs)
  then have "x \<in> set (filter P s)" by simp
  then have "x \<in> set s" "P x" by simp_all
  then show ?thesis using Cons assms(3) by blast
qed

lemma ParseAddr_ipv4: 
  assumes "length a = 4"
  shows "ParseAddr (ipv4_str a) = Some a"
proof -
  obtain w x y z where a: "a = [w, x, y, z]" using assms by (rule length_4_obtain)
  have "CHR ''.'' \<in> set (ipv4_str a)" by (simp add: a ipv4_str_def)
  moreover have colon: "CHR '':'' \<notin> set (ipv4_str a)" using ipv4_chars[of "CHR '':''" a] not_digits by auto
  ultimately obtain cs where "filter (\<lambda>c. c = CHR ''.'' \<or> c = CHR '':'') (ipv4_str a) = CHR ''.'' # cs"
    using first_of_filter[of "CHR ''.''" "ipv4_str a" "\<lambda>c. c = CHR ''.'' \<or> c = CHR '':''"] by blast
  moreover have "CHR ''%'' \<notin> set (ipv4_str a)" using ipv4_chars[of "CHR ''%''" a] not_digits by auto
  ultimately show ?thesis using parseIPv4_str[OF assms] by (simp add: ParseAddr_def)
qed

subsection \<open>Hexadecimal groups\<close>

definition is_hex :: "char \<Rightarrow> bool" where
  "is_hex c \<longleftrightarrow> hex_val c \<noteq> None"

definition hex_digit :: "nat \<Rightarrow> char" where
  "hex_digit k = (if k < 10 then char_of (48 + k) else char_of (87 + k))"

lemma hex_str_digit: "hex_str n = (if n < 16 then [hex_digit n] else hex_str (n div 16) @ [hex_digit (n mod 16)])"
  by (subst hex_str.simps) (simp add: hex_digit_def Let_def)

lemma hex_val_hex_digit: "k < 16 \<Longrightarrow> hex_val (hex_digit k) = Some k"
proof -
  have "\<forall>k \<in> set [0..<16]. hex_val (hex_digit k) = Some k" by code_simp
  then show "k < 16 \<Longrightarrow> ?thesis" by simp
qed

lemma is_hex_digit: "k < 16 \<Longrightarrow> is_hex (hex_digit k)"
  by (simp add: is_hex_def hex_val_hex_digit)

lemma not_hex: "hex_val CHR ''.'' = None" "hex_val CHR '':'' = None" "hex_val CHR ''%'' = None"
  "hex_val CHR ''['' = None" "hex_val CHR '']'' = None"
  by code_simp+

definition hex_fold :: "nat \<Rightarrow> string \<Rightarrow> nat" where
  "hex_fold acc s = foldl (\<lambda>a c. 16 * a + the (hex_val c)) acc s"

lemma hex_field_append:
  "list_all is_hex s \<Longrightarrow> hex_field k acc (s @ rest) = hex_field (k + length s) (hex_fold acc s) rest"
  by (induction s arbitrary: k acc) (auto simp: is_hex_def hex_fold_def)

lemma hex_str_value: "list_all is_hex (hex_str n) \<and> hex_str n \<noteq> [] \<and> hex_fold 0 (hex_str n) = n"
proof (induction n rule: hex_str.induct)
  case (1 n)
  show ?case
    using 1 by (subst (1 2 3) hex_str_digit) (auto simp: hex_val_hex_digit is_hex_digit hex_fold_def)
qed

lemma hex_str_length: "n < 16 ^ Suc k \<Longrightarrow> length (hex_str n) \<le> Suc k"
proof (induction k arbitrary: n)
  case 0
  then show ?case by (subst hex_str_digit) simp
next
  case (Suc k)
  show ?case
  proof (cases "n < 16")
    case False
    have "n div 16 < 16 ^ Suc k" using Suc.prems by (simp add: less_mult_imp_div_less)
    from Suc.IH[OF this] show ?thesis using False by (subst hex_str_digit) simp
  qed (subst hex_str_digit, simp)
qed

lemma hex_group:
  assumes "g < 65536" "rest = [] \<or> \<not> is_hex (List.hd rest)"
  shows "\<exists>k. hex_field 0 0 (hex_str g @ rest) = (k, g, rest) \<and> 0 < k \<and> k \<le> 4"
proof -
  have "hex_field k acc rest = (k, acc, rest)" for k acc
    using assms(2) by (cases rest) (auto simp: is_hex_def)
  then show ?thesis
    using hex_field_append[of "hex_str g" 0 0 rest] hex_str_value[of g] hex_str_length[of g 3] assms(1) by auto
qed

lemma hex_str_hex: "c \<in> set (hex_str n) \<Longrightarrow> is_hex c"
  using hex_str_value[of n] by (simp add: list_all_iff)

lemma not_is_hex: "\<not> is_hex CHR ''.''" "\<not> is_hex CHR '':''" "\<not> is_hex CHR ''%''" "\<not> is_hex CHR ''[''" "\<not> is_hex CHR '']''"
  by (simp_all add: is_hex_def not_hex)

subsection \<open>IPv6\<close>

text \<open>The bytes of a list of 16-bit groups.\<close>

definition group_bytes :: "nat list \<Rightarrow> ip" where
  "group_bytes gs = concat (map (\<lambda>g. [of_nat (g div 256), of_nat (g mod 256)]) gs)"

abbreviation small :: "nat list \<Rightarrow> bool" where
  "small gs \<equiv> \<forall>g \<in> set gs. g < 65536"

lemma group_bytes_simps [simp]:
  "group_bytes [] = []" "group_bytes (g # gs) = [of_nat (g div 256), of_nat (g mod 256)] @ group_bytes gs"
  "group_bytes (gs @ hs) = group_bytes gs @ group_bytes hs"
  by (simp_all add: group_bytes_def)

lemma length_group_bytes [simp]: "length (group_bytes gs) = 2 * length gs"
  by (induction gs) simp_all

lemma group_bytes_zeros: "group_bytes (replicate n 0) = replicate (2 * n) 0"
  by (induction n) simp_all

lemma small_groups: "small (groups a)"
proof -
  have "256 * unat (x :: byte) + unat (y :: byte) < 65536" for x y
    using unat_byte_less[of x] unat_byte_less[of y] by linarith
  then show ?thesis by (auto simp: groups_def)
qed

lemma group_of_bytes: "[of_nat ((256 * unat x + unat y) div 256), of_nat ((256 * unat x + unat y) mod 256)] = [x, y :: byte]"
  using unat_byte_less[of x] unat_byte_less[of y] by simp

lemma group_bytes_groups:
  assumes "length a = 16"
  shows "group_bytes (groups a) = a"
proof -
  have "groups a = [256 * unat (a ! 0) + unat (a ! 1), 256 * unat (a ! 2) + unat (a ! 3), 256 * unat (a ! 4) + unat (a ! 5),
      256 * unat (a ! 6) + unat (a ! 7), 256 * unat (a ! 8) + unat (a ! 9), 256 * unat (a ! 10) + unat (a ! 11),
      256 * unat (a ! 12) + unat (a ! 13), 256 * unat (a ! 14) + unat (a ! 15)]"
    by (simp add: groups_def upt_conv_Cons)
  then have "group_bytes (groups a) = map ((!) a) [0..<16]"
    by (simp only: group_bytes_simps group_of_bytes) (simp add: upt_conv_Cons numeral_eq_Suc)
  then show ?thesis using map_nth[of a] assms by simp
qed

lemma colon_hex_Cons: "gs \<noteq> [] \<Longrightarrow> colon_hex (g # gs) = hex_str g @ CHR '':'' # colon_hex gs"
  by (cases gs) simp_all

lemma colon_hex_head: "gs \<noteq> [] \<Longrightarrow> colon_hex gs \<noteq> [] \<and> is_hex (List.hd (colon_hex gs))"
proof (induction gs rule: colon_hex.induct)
  case (2 g)
  then show ?case using hex_str_value[of g] hex_str_hex[of "List.hd (hex_str g)" g] by simp
next
  case (3 g h gs)
  then show ?case using hex_str_value[of g] hex_str_hex[of "List.hd (hex_str g)" g] by (simp add: hd_append)
qed simp

text \<open>One group of the loop, at the end, before a single colon and before an ellipsis.\<close>

lemma loop_group_end:
  assumes "g < 65536"
  shows "ipv6_loop (Suc n) out el (hex_str g) = Some (out @ group_bytes [g], el, [])"
  using hex_group[OF assms, of "[]"] by auto

lemma loop_group_colon:
  assumes "g < 65536" "s \<noteq> []" "List.hd s \<noteq> CHR '':''"
  shows "ipv6_loop (Suc n) out el (hex_str g @ CHR '':'' # s) = ipv6_loop n (out @ group_bytes [g]) el s"
  using hex_group[OF assms(1), of "CHR '':'' # s"] assms(2,3) not_is_hex by (auto simp: Let_def)

lemma loop_group_ellipsis:
  assumes "g < 65536"
  shows "ipv6_loop (Suc n) out None (hex_str g @ ''::'' @ s) =
    (if s = [] then Some (out @ group_bytes [g], Some (length out + 2), [])
     else ipv6_loop n (out @ group_bytes [g]) (Some (length out + 2)) s)"
  using hex_group[OF assms, of "''::'' @ s"] not_is_hex by (auto simp: Let_def)

lemma loop_groups:
  "gs \<noteq> [] \<Longrightarrow> small gs \<Longrightarrow> length gs \<le> n \<Longrightarrow>
   ipv6_loop n out el (colon_hex gs) = Some (out @ group_bytes gs, el, [])"
proof (induction gs arbitrary: n out rule: colon_hex.induct)
  case (2 g)
  then obtain m where "n = Suc m" by (cases n) auto
  then show ?case using loop_group_end[of g m out el] 2 by simp
next
  case (3 g h gs)
  then obtain m where m: "n = Suc m" by (cases n) auto
  have "colon_hex (h # gs) \<noteq> []" "List.hd (colon_hex (h # gs)) \<noteq> CHR '':''"
    using colon_hex_head[of "h # gs"] not_is_hex by auto
  from loop_group_colon[OF _ this, of g m out el] show ?case
    using 3 m by (simp del: ipv6_loop.simps)
qed simp

text \<open>The groups on both sides of an ellipsis.\<close>

lemma loop_ellipsis:
  "gs \<noteq> [] \<Longrightarrow> small gs \<Longrightarrow> small hs \<Longrightarrow> length gs + length hs \<le> n \<Longrightarrow>
   ipv6_loop n out None (colon_hex gs @ ''::'' @ colon_hex hs) =
     Some (out @ group_bytes gs @ group_bytes hs, Some (length out + 2 * length gs), [])"
proof (induction gs arbitrary: n out rule: colon_hex.induct)
  case (2 g)
  then obtain m where m: "n = Suc m" by (cases n) auto
  have c: "colon_hex [g] = hex_str g" by simp
  show ?case
  proof (cases "hs = []")
    case True
    then show ?thesis using loop_group_ellipsis[of g m out "[]"] 2 m unfolding c by (simp del: ipv6_loop.simps)
  next
    case False
    then have "colon_hex hs \<noteq> []" using colon_hex_head by blast
    then show ?thesis
      using loop_group_ellipsis[of g m out "colon_hex hs"] loop_groups[OF False, of m] 2 m unfolding c
      by (simp del: ipv6_loop.simps)
  qed
next
  case (3 g h gs)
  then obtain m where m: "n = Suc m" by (cases n) auto
  have s: "colon_hex (h # gs) @ ''::'' @ colon_hex hs \<noteq> []" "List.hd (colon_hex (h # gs) @ ''::'' @ colon_hex hs) \<noteq> CHR '':''"
    using colon_hex_head[of "h # gs"] not_is_hex by (auto simp: hd_append)
  have c: "colon_hex (g # h # gs) @ ''::'' @ colon_hex hs = hex_str g @ CHR '':'' # (colon_hex (h # gs) @ ''::'' @ colon_hex hs)"
    by simp
  show ?case
    unfolding c m using 3 m loop_group_colon[OF _ s, of g m out None] by (simp del: ipv6_loop.simps colon_hex.simps)
qed simp

text \<open>The run that \<open>best_run\<close> chooses consists of zeros.\<close>

definition zero_run_at :: "nat list \<Rightarrow> nat \<Rightarrow> nat \<Rightarrow> bool" where
  "zero_run_at gs st len \<longleftrightarrow> len = 0 \<or> (2 \<le> len \<and> st + len \<le> length gs \<and> take len (drop st gs) = replicate len 0)"

lemma zero_run_zeros: "take (zero_run gs) gs = replicate (zero_run gs) 0 \<and> zero_run gs \<le> length gs"
  by (induction gs) auto

lemma best_run_zeros:
  "zero_run_at (pre @ gs) st len \<Longrightarrow> best_run (length pre) st len gs = (st', len') \<Longrightarrow> zero_run_at (pre @ gs) st' len'"
proof (induction gs arbitrary: pre st len)
  case (Cons g gs)
  let ?l = "zero_run (g # gs)"
  show ?case
  proof (cases "?l \<ge> 2 \<and> ?l > len")
    case True
    then have "zero_run_at ((pre @ [g]) @ gs) (length pre) ?l"
      using zero_run_zeros[of "g # gs"] by (simp add: zero_run_at_def)
    from Cons.IH[OF this] Cons.prems(2) True show ?thesis by (simp add: Let_def)
  next
    case False
    have "zero_run_at ((pre @ [g]) @ gs) st len" using Cons.prems(1) by simp
    from Cons.IH[OF this] Cons.prems(2) False show ?thesis by (auto simp: Let_def)
  qed
qed simp

lemma split_at_run:
  assumes "zero_run_at gs st len"
  shows "group_bytes gs = group_bytes (take st gs) @ replicate (2 * len) 0 @ group_bytes (drop (st + len) gs)"
proof (cases "len = 0")
  case True
  then show ?thesis by (simp flip: group_bytes_simps(3))
next
  case False
  then have "gs = take st gs @ replicate len 0 @ drop (st + len) gs"
    using assms by (metis append_take_drop_id zero_run_at_def drop_drop add.commute)
  then show ?thesis by (metis group_bytes_simps(3) group_bytes_zeros)
qed

lemma length_groups [simp]: "length (groups a) = 8"
  by (simp add: groups_def)

lemma take2_colon: "is_hex (List.hd s) \<Longrightarrow> take 2 s \<noteq> ''::''"
  using not_is_hex by (cases s) auto

lemma parseIPv6_str:
  assumes "length a = 16"
  shows "parseIPv6 (ipv6_str a) = Some a"
proof -
  let ?gs = "groups a"
  obtain st len where br: "best_run 0 0 0 ?gs = (st, len)" by fastforce
  have z: "zero_run_at ?gs st len"
    using best_run_zeros[of "[]" ?gs 0 0 st len] br by (simp add: zero_run_at_def)
  have sm: "small ?gs" "small (take st ?gs)" "small (drop (st + len) ?gs)"
    using small_groups[of a] by (auto dest: in_set_takeD in_set_dropD)
  show ?thesis
  proof (cases "len = 0")
    case True
    have ne: "?gs \<noteq> []" by (metis length_groups list.size(3) zero_neq_numeral)
    then have "take 2 (colon_hex ?gs) \<noteq> ''::''" using colon_hex_head take2_colon by blast
    then show ?thesis
      using True br loop_groups[OF ne sm(1), of 8 "[]" None] group_bytes_groups[OF assms] assms
      by (simp add: ipv6_str_def parseIPv6_def Let_def del: ipv6_loop.simps)
  next
    case False
    let ?l = "take st ?gs" and ?r = "drop (st + len) ?gs"
    have len: "2 \<le> len" "st + len \<le> 8" using z False by (auto simp: zero_run_at_def)
    have s: "ipv6_str a = colon_hex ?l @ ''::'' @ colon_hex ?r" using br False by (simp add: ipv6_str_def)
    have a: "a = group_bytes ?l @ replicate (2 * len) 0 @ group_bytes ?r"
      using split_at_run[OF z] group_bytes_groups[OF assms] by simp
    have ll: "length (group_bytes ?l) = 2 * st" "length (group_bytes ?r) = 2 * (8 - (st + len))" using len by simp_all
    have fill: "16 - (2 * st + 2 * (8 - (st + len))) = 2 * len" using len by simp
    show ?thesis
    proof (cases "st = 0")
      case True
      show ?thesis
      proof (cases "?r = []")
        case r: True
        then have "len = 8" using True len by simp
        then have "a = replicate 16 0" using a True r by simp
        then show ?thesis using s r True by (simp add: parseIPv6_def)
      next
        case False
        then have c: "colon_hex ?r \<noteq> []" using colon_hex_head by blast
        have "ipv6_loop 8 [] (Some 0) (colon_hex ?r) = Some (group_bytes ?r, Some 0, [])"
          using loop_groups[OF False sm(3), of 8 "[]" "Some 0"] by simp
        then show ?thesis
          using s c True ll fill len a by (simp add: parseIPv6_def Let_def del: ipv6_loop.simps)
      qed
    next
      case False
      then have ne: "?l \<noteq> []" using len by (auto simp: take_eq_Nil) (metis length_groups list.size(3) zero_neq_numeral)
      have h: "take 2 (colon_hex ?l @ ''::'' @ colon_hex ?r) \<noteq> ''::''"
        using colon_hex_head[OF ne] by (intro take2_colon) (simp add: hd_append)
      have "ipv6_loop 8 [] None (colon_hex ?l @ ''::'' @ colon_hex ?r) =
          Some (group_bytes ?l @ group_bytes ?r, Some (2 * st), [])"
        using loop_ellipsis[OF ne sm(2,3), of 8 "[]"] len by simp
      then show ?thesis
        unfolding s parseIPv6_def Let_def using h ll fill len a by (simp del: ipv6_loop.simps)
    qed
  qed
qed

lemma colon_hex_chars: "c \<in> set (colon_hex gs) \<Longrightarrow> is_hex c \<or> c = CHR '':''"
  by (induction gs rule: colon_hex.induct) (auto simp: hex_str_hex)

lemma ipv6_chars: "c \<in> set (ipv6_str a) \<Longrightarrow> is_hex c \<or> c = CHR '':''"
  using colon_hex_chars by (fastforce simp: ipv6_str_def split: prod.splits if_splits)

lemma ipv6_colon: "CHR '':'' \<in> set (ipv6_str a)"
proof -
  obtain st len where br: "best_run 0 0 0 (groups a) = (st, len)" by fastforce
  obtain g h gs where "groups a = g # h # gs" by (simp add: groups_def upt_conv_Cons)
  then have "CHR '':'' \<in> set (colon_hex (groups a))" by simp
  then show ?thesis by (simp add: ipv6_str_def br)
qed

lemma ParseAddr_ipv6:
  assumes "length a = 16"
  shows "ParseAddr (ipv6_str a) = Some a"
proof -
  have "CHR ''.'' \<notin> set (ipv6_str a)" using ipv6_chars[of "CHR ''.''" a] not_is_hex by auto
  then obtain cs where "filter (\<lambda>c. c = CHR ''.'' \<or> c = CHR '':'') (ipv6_str a) = CHR '':'' # cs"
    using first_of_filter[of "CHR '':''" "ipv6_str a" "\<lambda>c. c = CHR ''.'' \<or> c = CHR '':''"] ipv6_colon by blast
  moreover have "CHR ''%'' \<notin> set (ipv6_str a)" using ipv6_chars[of "CHR ''%''" a] not_is_hex by auto
  ultimately show ?thesis using parseIPv6_str[OF assms] by (simp add: ParseAddr_def)
qed

subsection \<open>The round trip\<close>

lemma ParseIP_String:
  assumes "length a = 4 \<or> length a = 16"
  shows "ParseIP (ip_String a) = Some (As16 a)"
proof (cases "To4 a")
  case None
  then have "length a = 16" using assms by (auto simp: To4_def split: if_splits)
  then show ?thesis using None ParseAddr_ipv6[of a] by (auto simp: ip_String_def ParseIP_def)
next
  case (Some b)
  have "As16 b = As16 a"
  proof (cases "length a = 4")
    case True
    then show ?thesis using Some by simp
  next
    case False
    then have "length a = 16" "take 12 a = v4InV6Prefix" "b = drop 12 a"
      using Some assms by (auto simp: To4_def split: if_splits)
    then show ?thesis by (metis As16_def False To4_length Some append_take_drop_id)
  qed
  moreover have "a \<noteq> []" using assms by auto
  ultimately show ?thesis
    using Some ParseAddr_ipv4[OF To4_length[OF Some]] by (simp add: ip_String_def ParseIP_def)
qed

lemma ip_String_brackets:
  assumes "length a = 4 \<or> length a = 16"
  shows "set (ip_String a) \<inter> {CHR ''['', CHR '']''} = {}"
proof -
  have "a \<noteq> []" using assms by auto
  then have "ip_String a = ipv4_str (the (To4 a)) \<or> ip_String a = ipv6_str a"
    using assms by (auto simp: ip_String_def To4_def)
  then show ?thesis using ipv4_chars ipv6_chars not_is_hex not_digits by (elim disjE) (auto dest: ipv4_chars ipv6_chars)
qed

lemma Itoa_separators: "set (Itoa n) \<inter> {CHR '':'', CHR ''['', CHR '']''} = {}"
  using Itoa_chars not_digits by auto

text \<open>A printed address with a port splits into the literal and the port.\<close>

lemma Split_printed:
  "length a = 4 \<or> length a = 16 \<Longrightarrow>
   SplitHostPort (JoinHostPort (ip_String a) (Itoa p)) = Some (ip_String a, Itoa p)"
  by (rule Split_JoinHostPort[OF ip_String_brackets Itoa_separators])

end
