(* ===== verification/Target_Address.thy ===== *)
theory Target_Address
  imports Socks_Setup Client_Dial Go_Addr
begin

text \<open>
  The address of a target on its way from the SOCKS client (\<open>third_party/go-socks5\<close>) through the server to the device
  (\<open>client/core/run.go\<close>). An address survives being printed and parsed. The server resolves a name before it asks the
  device, so that what the device gets is a literal, which it dials without its own lookup.
\<close>

subsection \<open>Addresses as text\<close>

definition canonical_addr :: "AddrSpec \<Rightarrow> bool" where
  "canonical_addr a \<longleftrightarrow> 0 \<le> as_Port a \<and> as_Port a < 65536 \<and>
     (as_FQDN a = '''' \<and> length (as_IP a) = 16 \<and> as_AddrType a = (if To4 (as_IP a) \<noteq> None then ATYPIPv4 else ATYPIPv6) \<or>
      as_IP a = [] \<and> ParseIP (as_FQDN a) = None \<and> set (as_FQDN a) \<inter> {CHR ''['', CHR '']''} = {} \<and> as_AddrType a = ATYPDomain)"

lemma port_text: "0 \<le> p \<Longrightarrow> p < 65536 \<Longrightarrow> Atoi (Itoa (nat p)) = Some p"
  using Atoi_Itoa[of "nat p"] by simp

text \<open>
  An address that is an IP address, IPv4 or IPv6, or a name that is no literal, is read back
  by \<open>ParseAddrSpec\<close> from the text that \<open>AddrSpec.String\<close> prints.
\<close>

theorem address_text_roundtrip:
  assumes "canonical_addr a"
  shows "ParseAddrSpec (AddrSpec_String a) = Inr a"
proof -
  have port: "Atoi (Itoa (nat (as_Port a))) = Some (as_Port a)"
    using assms by (intro port_text) (auto simp: canonical_addr_def)
  from assms consider
      (ip) "as_FQDN a = ''''" "length (as_IP a) = 16" "as_AddrType a = (if To4 (as_IP a) \<noteq> None then ATYPIPv4 else ATYPIPv6)"
    | (name) "as_IP a = []" "ParseIP (as_FQDN a) = None" "set (as_FQDN a) \<inter> {CHR ''['', CHR '']''} = {}" "as_AddrType a = ATYPDomain"
    by (auto simp: canonical_addr_def)
  then show ?thesis
  proof cases
    case ip
    then have "as_IP a \<noteq> []" by auto
    moreover have "ParseIP (ip_String (as_IP a)) = Some (as_IP a)"
      using ParseIP_String[of "as_IP a"] ip(2) by (simp add: As16_def)
    ultimately show ?thesis
      using ip port Split_printed[of "as_IP a" "nat (as_Port a)"] by (simp add: AddrSpec_String_def ParseAddrSpec_def addr_eq_iff)
  next
    case name
    then show ?thesis
      using port Split_JoinHostPort[OF name(3) Itoa_separators[of "nat (as_Port a)"]]
      by (simp add: AddrSpec_String_def ParseAddrSpec_def addr_eq_iff)
  qed
qed

theorem address_text_roundtrip_witness:
  "ParseAddrSpec (AddrSpec_String \<lparr>as_FQDN = '''', as_IP = [0x20, 1, 0xd, 0xb8, 0, 0, 0, 0, 0, 0, 0, 0, 0, 0, 0, 1],
      as_Port = 443, as_AddrType = ATYPIPv6\<rparr>) =
   Inr \<lparr>as_FQDN = '''', as_IP = [0x20, 1, 0xd, 0xb8, 0, 0, 0, 0, 0, 0, 0, 0, 0, 0, 0, 1],
      as_Port = 443, as_AddrType = ATYPIPv6\<rparr> \<and>
   ParseAddrSpec (AddrSpec_String \<lparr>as_FQDN = ''a.io'', as_IP = [], as_Port = 80, as_AddrType = ATYPDomain\<rparr>) =
   Inr \<lparr>as_FQDN = ''a.io'', as_IP = [], as_Port = 80, as_AddrType = ATYPDomain\<rparr>"
proof (intro conjI address_text_roundtrip)
  have "ParseIP ''a.io'' = None" by code_simp
  then show "canonical_addr \<lparr>as_FQDN = ''a.io'', as_IP = [], as_Port = 80, as_AddrType = ATYPDomain\<rparr>"
    by (simp add: canonical_addr_def)
qed (simp add: canonical_addr_def To4_def v4InV6Prefix_def)

subsection \<open>Who resolves names\<close>

text \<open>\<open>net.ResolveIPAddr\<close> answers with an IPv4 or an IPv6 address.\<close>

definition resolve_ok :: "(string \<Rightarrow> string \<Rightarrow> string + ip) \<Rightarrow> bool" where
  "resolve_ok resolve \<longleftrightarrow> (\<forall>network n i. resolve network n = Inr i \<longrightarrow> length i = 4 \<or> length i = 16)"

lemma literal_not_looked_up:
  assumes "length i = 4 \<or> length i = 16"
  shows "dialConnectTarget dial lookup ''tcp'' (JoinHostPort (ip_String i) (Itoa p)) =
    dialConnectTarget dial None ''tcp'' (JoinHostPort (ip_String i) (Itoa p))"
  using Split_printed[OF assms, of p] ParseIP_String[OF assms]
  by (simp add: dialConnectTarget_def Let_def split: option.split)

lemma wf_addr_literal:
  assumes "wf_addr a" "as_FQDN a = ''''"
  shows "as_AddrType a = ATYPDomain \<and> as_IP a = [] \<or> length (as_IP a) = 16"
  using assms by (auto simp: wf_addr_def IPv4_def)


text \<open>A client that asks for a name, and a device whose lookup would have answered otherwise.\<close>

definition demo_resolve :: "string \<Rightarrow> string \<Rightarrow> string + ip" where
  "demo_resolve network n = (if n = ''a.io'' then Inr [192, 0, 2, 1] else Inl ''no such host'')"

definition demo_name_bytes :: "byte list" where
  "demo_name_bytes = [5, 1, 0, 5, 1, 0, 3, 4] @ bytes_of_string ''a.io'' @ [0, 80]"

lemma demo_name_dialed:
  "snd (snd (ServeConn demo_gate_env (socks_server (DNSResolver_Resolve demo_resolve) (\<lambda>ctx n a rq. Inr (TCPAddr [10, 0, 0, 1] 4000)) None None)
      NilAddr NilAddr demo_name_bytes \<lparr>w_out = [], w_ok = None\<rparr>)) = [EDial ''tcp'' ''192.0.2.1:80'', ECloseTarget]"
  by code_simp


end
