(* ===== verification/Socks_Relay.thy ===== *)
theory Socks_Relay
  imports Socks_Server Step_System Go_Addr
begin

text \<open>
  \<open>third_party/go-socks5\<close>: what a SOCKS5 server does beside the handshake. \<open>Serve\<close> accepts
  connections, \<open>Proxy\<close> copies one direction of a \<open>CONNECT\<close>, and \<open>handleAssociate\<close> relays UDP.

  The relay is a state machine. Its goroutines are the loop that reads the client's datagrams, one
  reader per target, and the handler that waits for the end of the control connection; an event is
  what one of them reads, with the outcome of the write that follows. A target is its position in
  the list of all targets ever dialed. The header of a reply is computed when the reply arrives,
  from the parsed datagram that the reader has captured; for an IPv6 target its address is a slice
  of the buffer that the loop reads into (\<open>pk_now\<close>).
\<close>

subsection \<open>Accepting and copying\<close>

datatype go_started = GoPool | GoRoutine

text \<open>\<open>goFunc\<close>: the argument is the result of the pool's \<open>Submit\<close>, when there is a pool.\<close>

definition goFunc :: "bool option \<Rightarrow> go_started" where
  "goFunc submitted = (if submitted = Some True then GoPool else GoRoutine)"

text \<open>\<open>Serve\<close>: the connections it starts to serve and its error; the listener is closed with it.\<close>

fun Serve :: "('e + 'conn) list \<Rightarrow> 'conn list \<times> 'e option" where
  "Serve [] = ([], None)"
| "Serve (Inl err # as) = ([], Some err)"
| "Serve (Inr conn # as) = (case Serve as of (cs, err) \<Rightarrow> (conn # cs, err))"

text \<open>
  \<open>Proxy\<close>: what the source delivers until it ends, with its end (\<open>None\<close> for the end of the stream);
  the last component says whether \<open>CloseWrite\<close> was called, which the destination may not have.
\<close>

fun CopyBuffer :: "byte list list \<Rightarrow> string option \<Rightarrow> writer \<Rightarrow> string option \<times> writer" where
  "CopyBuffer [] fin w = (fin, w)"
| "CopyBuffer (c # cs) fin w =
     (case Write c w of
        (True, w) \<Rightarrow> CopyBuffer cs fin w
      | (False, w) \<Rightarrow> (Some ''write'', w))"

definition sf_Proxy :: "bool \<Rightarrow> byte list list \<Rightarrow> string option \<Rightarrow> writer \<Rightarrow> string option \<times> writer \<times> bool" where
  "sf_Proxy closeWriter src fin w = (case CopyBuffer src fin w of (err, w) \<Rightarrow> (err, w, closeWriter))"

lemma CopyBuffer_out:
  "CopyBuffer cs fin w = (err, w') \<Longrightarrow>
   \<exists>n \<le> length cs. w_out w' = w_out w @ concat (take n cs) \<and> (n < length cs \<longrightarrow> err \<noteq> None) \<and> (n = length cs \<longrightarrow> err = fin)"
proof (induction cs arbitrary: w)
  case (Cons c cs)
  show ?case
  proof (cases "w_ok w = Some 0")
    case True
    then show ?thesis using Cons.prems by (intro exI[of _ 0]) (auto simp: Write_def)
  next
    case False
    let ?w = "w\<lparr>w_out := w_out w @ c, w_ok := map_option (\<lambda>n. n - 1) (w_ok w)\<rparr>"
    have "CopyBuffer cs fin ?w = (err, w')" using Cons.prems False by (simp add: Write_def)
    from Cons.IH[OF this] obtain n where "n \<le> length cs" "w_out w' = w_out ?w @ concat (take n cs)"
      "n < length cs \<longrightarrow> err \<noteq> None" "n = length cs \<longrightarrow> err = fin" by blast
    then show ?thesis by (intro exI[of _ "Suc n"]) simp
  qed
qed simp

text \<open>A copy that ends without an error delivered every byte, in order.\<close>

lemma sf_Proxy_complete:
  assumes "sf_Proxy cw cs fin w = (None, w', closed)"
  shows "w_out w' = w_out w @ concat cs \<and> fin = None"
proof -
  have "CopyBuffer cs fin w = (None, w')" using assms by (simp add: sf_Proxy_def split: prod.splits)
  from CopyBuffer_out[OF this] show ?thesis by (metis le_neq_implies_less take_all order_refl)
qed

subsection \<open>Buffers\<close>

text \<open>
  \<open>bufferpool\<close>: a buffer is the contents of its array, up to its capacity. \<open>Get\<close> takes one of the free
  buffers, as it was left, or makes a new one; \<open>Put\<close> panics (\<open>None\<close>) at a buffer of another capacity.
\<close>

record bufPool =
  bp_size :: nat
  bp_free :: "byte list list"

definition NewBufPool :: "nat \<Rightarrow> bufPool" where
  "NewBufPool n = \<lparr>bp_size = n, bp_free = []\<rparr>"

definition pool_Get :: "nat option \<Rightarrow> bufPool \<Rightarrow> byte list \<times> bufPool" where
  "pool_Get pick bp =
     (case pick of
        Some n \<Rightarrow>
          if n < length (bp_free bp)
          then (bp_free bp ! n, bp\<lparr>bp_free := take n (bp_free bp) @ drop (Suc n) (bp_free bp)\<rparr>)
          else (replicate (bp_size bp) 0, bp)
      | None \<Rightarrow> (replicate (bp_size bp) 0, bp))"

definition pool_Put :: "byte list \<Rightarrow> bufPool \<Rightarrow> bufPool option" where
  "pool_Put b bp = (if length b \<noteq> bp_size bp then None else Some (bp\<lparr>bp_free := bp_free bp @ [b]\<rparr>))"

definition pool_ok :: "bufPool \<Rightarrow> bool" where
  "pool_ok bp \<longleftrightarrow> (\<forall>b \<in> set (bp_free bp). length b = bp_size bp)"

text \<open>Whoever returns a buffer that it got, whatever it wrote into it, does not panic.\<close>

lemma pool_Get_Put:
  assumes "pool_ok bp" "pool_Get pick bp = (b, bp')" "length b' = length b"
  shows "\<exists>bp''. pool_Put b' bp' = Some bp'' \<and> pool_ok bp'' \<and> bp_size bp'' = bp_size bp"
proof -
  have "length b = bp_size bp \<and> bp_size bp' = bp_size bp \<and> pool_ok bp'"
    using assms(1,2) set_take_subset set_drop_subset
    by (fastforce simp: pool_Get_def pool_ok_def split: option.splits if_splits)
  then show ?thesis using assms(3) by (auto simp: pool_Put_def pool_ok_def)
qed

subsection \<open>Setting up an association\<close>

text \<open>
  \<open>net.ResolveUDPAddr\<close> of an address whose port is a number: a literal host is itself, another one is
  looked up.
\<close>

definition ResolveUDPAddr :: "(string \<Rightarrow> ip option) \<Rightarrow> string \<Rightarrow> addr option" where
  "ResolveUDPAddr lookup address =
     (case SplitHostPort address of
        None \<Rightarrow> None
      | Some (host, port) \<Rightarrow>
          (case Atoi port of
             None \<Rightarrow> None
           | Some p \<Rightarrow>
               (case ParseIP host of
                  Some a \<Rightarrow> Some (UDPAddr a p)
                | None \<Rightarrow> (case lookup host of Some a \<Rightarrow> Some (UDPAddr a p) | None \<Rightarrow> None))))"

text \<open>The address to listen on, if there is one; \<open>NilAddr\<close> lets the system choose.\<close>

definition associate_addr :: "(string \<Rightarrow> ip option) \<Rightarrow> 'ctx Server \<Rightarrow> Request \<Rightarrow> addr option" where
  "associate_addr lookup sv rq =
     (if sv_useBindIpBaseResolveAsUdpAddr sv then
        (if sv_bindIP sv \<noteq> [] then ResolveUDPAddr lookup (ip_String (sv_bindIP sv) @ '':0'')
         else Some NilAddr)
      else (case rq_LocalAddr rq of
              TCPAddr i p \<Rightarrow> Some (UDPAddr i 0)
            | _ \<Rightarrow> None))"

text \<open>What becomes of the listening socket.\<close>

datatype listener_effect = LOpened addr | LRelay | LClosed

text \<open>
  \<open>handleAssociate\<close>: \<open>lookup\<close> resolves names, \<open>listen\<close> is \<open>net.ListenUDP\<close>, \<open>ctrl\<close> the error with which the
  reads of the control connection end (\<open>None\<close> when it was closed). The relay runs beside it.
\<close>

definition handleAssociate ::
    "(string \<Rightarrow> ip option) \<Rightarrow> (addr \<Rightarrow> string + addr) \<Rightarrow> string option \<Rightarrow> 'ctx Server \<Rightarrow> writer \<Rightarrow> Request \<Rightarrow>
     socks_error option \<times> writer \<times> listener_effect list" where
  "handleAssociate lookup listen ctrl sv w rq =
     (case associate_addr lookup sv rq of
        None \<Rightarrow>
          (case SendReply RepServerFailure NilAddr w of
             (False, w) \<Rightarrow> (Some ReplyErr, w, [])
           | (True, w) \<Rightarrow> (Some (ListenErr ''address''), w, []))
      | Some udpAddr \<Rightarrow>
          (case listen udpAddr of
             Inl msg \<Rightarrow>
               (case SendReply RepServerFailure NilAddr w of
                  (False, w) \<Rightarrow> (Some ReplyErr, w, [])
                | (True, w) \<Rightarrow> (Some (ListenErr msg), w, []))
           | Inr laddr \<Rightarrow>
               (case SendReply RepSuccess laddr w of
                  (False, w) \<Rightarrow> (Some ReplyErr, w, [LOpened laddr])
                | (True, w) \<Rightarrow> (map_option ProxyErr ctrl, w, [LOpened laddr, LRelay, LClosed]))))"

text \<open>As the handler of \<open>ASSOCIATE\<close> in a server: it dials no TCP target.\<close>

definition associate_handler ::
    "(string \<Rightarrow> ip option) \<Rightarrow> (addr \<Rightarrow> string + addr) \<Rightarrow> string option \<Rightarrow> 'ctx Server \<Rightarrow> 'ctx \<Rightarrow> writer \<Rightarrow> Request \<Rightarrow> outcome" where
  "associate_handler lookup listen ctrl sv ctx w rq =
     (case handleAssociate lookup listen ctrl sv w rq of (err, w, ls) \<Rightarrow> (err, w, []))"

text \<open>The socket stays open when the success reply cannot be sent, and is closed otherwise.\<close>

lemma handleAssociate_listener:
  "handleAssociate lookup listen ctrl sv w rq = (err, w', ls) \<Longrightarrow>
   ls = [] \<and> err \<noteq> None \<or> (\<exists>a. ls = [LOpened a] \<and> err = Some ReplyErr) \<or> (\<exists>a. ls = [LOpened a, LRelay, LClosed])"
  by (auto simp: handleAssociate_def split: option.splits sum.splits prod.splits bool.splits)

lemma reply_failure_leaks_socket:
  assumes "associate_addr lookup sv rq = Some a" "listen a = Inr laddr" "w_ok w = Some 0"
  shows "handleAssociate lookup listen ctrl sv w rq = (Some ReplyErr, w, [LOpened laddr])"
  using assms by (simp add: handleAssociate_def SendReply_def Write_def Let_def split: prod.split)

text \<open>An IPv6 bind address is joined with the port without brackets, so it does not resolve.\<close>

lemma ipv6_bind_address_fails:
  "ResolveUDPAddr lookup (ip_String [0,0,0,0,0,0,0,0,0,0,0,0,0,0,0,1] @ '':0'') = None"
  by code_simp

subsection \<open>The UDP relay\<close>

text \<open>
  A reader reads until its target fails or is closed; then it closes the target, and in a second step it deletes
  the target's key.
\<close>

datatype reader = Reading | Leaving | Gone

record udp_target =
  tg_src :: addr
  tg_pk :: Datagram
  tg_key :: string
  tg_open :: bool
  tg_reader :: reader

datatype udp_effect = UDial string | UToTarget nat "byte list" | UToClient addr "byte list"

record udp_relay =
  ur_buf :: "byte list"           \<comment> \<open>the loop's buffer, as long as its capacity\<close>
  ur_listening :: bool
  ur_loop :: bool
  ur_conns :: "string \<rightharpoonup> nat"
  ur_targets :: "udp_target list"
  ur_out :: "udp_effect list"

definition udp_start :: "byte list \<Rightarrow> udp_relay" where
  "udp_start buf = \<lparr>ur_buf = buf, ur_listening = True, ur_loop = True, ur_conns = Map.empty, ur_targets = [], ur_out = []\<rparr>"

text \<open>\<open>IP.IsUnspecified\<close>, and the check of the sender against the address of the request.\<close>

definition IsUnspecified :: "ip \<Rightarrow> bool" where
  "IsUnspecified a \<longleftrightarrow> canon a = canon IPv4zero \<or> canon a = canon (replicate 16 0)"

definition src_equal :: "AddrSpec \<Rightarrow> ip \<Rightarrow> int \<Rightarrow> bool" where
  "src_equal dest i p \<longleftrightarrow> (IsUnspecified (as_IP dest) \<or> canon (as_IP dest) = canon i) \<and> (as_Port dest = 0 \<or> as_Port dest = p)"

definition connKey :: "addr \<Rightarrow> AddrSpec \<Rightarrow> string" where
  "connKey src dst = addr_String src @ ''--'' @ AddrSpec_String dst"

text \<open>The captured datagram as it reads when the buffer holds \<open>buf\<close>.\<close>

definition pk_now :: "byte list \<Rightarrow> Datagram \<Rightarrow> Datagram" where
  "pk_now buf pk =
     (if as_AddrType (dg_DstAddr pk) = ATYPIPv6
      then pk\<lparr>dg_DstAddr := (dg_DstAddr pk)\<lparr>as_IP := take 16 (drop 4 buf)\<rparr>\<rparr> else pk)"

text \<open>The deferred function of the loop: the socket and every target in the map are closed.\<close>

definition close_range :: "(string \<rightharpoonup> nat) \<Rightarrow> udp_target list \<Rightarrow> udp_target list" where
  "close_range conns ts =
     map (\<lambda>(i, t). if conns (tg_key t) = Some i then t\<lparr>tg_open := False\<rparr> else t) (enumerate 0 ts)"

definition relay_end :: "udp_relay \<Rightarrow> udp_relay" where
  "relay_end r = r\<lparr>ur_loop := False, ur_listening := False, ur_targets := close_range (ur_conns r) (ur_targets r)\<rparr>"

text \<open>A failed write to any target ends the loop.\<close>

definition write_target :: "nat \<Rightarrow> byte list \<Rightarrow> bool \<Rightarrow> udp_relay \<Rightarrow> udp_relay" where
  "write_target i data ok r =
     (if ok \<and> tg_open (ur_targets r ! i) then r\<lparr>ur_out := ur_out r @ [UToTarget i data]\<rparr> else relay_end r)"

text \<open>One datagram from the client, with the outcomes of the dial and of the write.\<close>

definition from_client :: "AddrSpec \<Rightarrow> ip \<Rightarrow> int \<Rightarrow> byte list \<Rightarrow> bool \<Rightarrow> bool \<Rightarrow> udp_relay \<Rightarrow> udp_relay" where
  "from_client dest i p bs dialed ok r =
     (let b = take (length (ur_buf r)) bs;
          r = r\<lparr>ur_buf := b @ drop (length b) (ur_buf r)\<rparr>
      in case ParseDatagram b of
           Inl err \<Rightarrow> r
         | Inr pk \<Rightarrow>
             if \<not> src_equal dest i p then r
             else let key = connKey (UDPAddr i p) (dg_DstAddr pk) in
               (case ur_conns r key of
                  None \<Rightarrow>
                    let r = r\<lparr>ur_out := ur_out r @ [UDial (AddrSpec_String (dg_DstAddr pk))]\<rparr> in
                    if \<not> dialed then r
                    else let n = length (ur_targets r);
                             t = \<lparr>tg_src = UDPAddr i p, tg_pk = pk, tg_key = key, tg_open = True, tg_reader = Reading\<rparr>;
                             r = r\<lparr>ur_conns := (ur_conns r)(key \<mapsto> n), ur_targets := ur_targets r @ [t]\<rparr>
                         in write_target n (dg_Data pk) ok r
                | Some n \<Rightarrow> write_target n (dg_Data pk) ok r))"

text \<open>The exit of a reader, up to the deletion of its key.\<close>

definition leave :: "nat \<Rightarrow> udp_relay \<Rightarrow> udp_relay" where
  "leave n r = r\<lparr>ur_targets := (ur_targets r)[n := (ur_targets r ! n)\<lparr>tg_open := False, tg_reader := Leaving\<rparr>]\<rparr>"

text \<open>One datagram from a target, sent on to the client behind the header.\<close>

definition from_target :: "nat \<Rightarrow> byte list \<Rightarrow> bool \<Rightarrow> udp_relay \<Rightarrow> udp_relay" where
  "from_target n bs ok r =
     (let t = ur_targets r ! n in
      case Datagram_Header (pk_now (ur_buf r) (tg_pk t)) of
        None \<Rightarrow> r
      | Some h \<Rightarrow>
          if ok \<and> ur_listening r
          then r\<lparr>ur_out := ur_out r @ [UToClient (tg_src t) (h @ take (length (ur_buf r)) bs)]\<rparr>
          else leave n r)"

datatype udp_event =
    UClient ip int "byte list" bool bool   \<comment> \<open>the sender, the datagram, whether a dial and the write succeed\<close>
  | UReadErr                               \<comment> \<open>another error of the loop's read than \<open>EOF\<close> and \<open>ErrClosed\<close>\<close>
  | UReadClosed                            \<comment> \<open>the loop's read returns one of these two\<close>
  | UTarget nat "byte list" bool           \<comment> \<open>a target's datagram, whether the write succeeds\<close>
  | UTargetErr nat                         \<comment> \<open>an error of a target's read\<close>
  | UDelete nat                            \<comment> \<open>a leaving reader deletes its key\<close>
  | UControlEnd                            \<comment> \<open>the control connection ends\<close>

fun udp_next :: "AddrSpec \<Rightarrow> udp_event \<Rightarrow> udp_relay \<Rightarrow> udp_relay" where
  "udp_next dest (UClient i p bs dialed ok) r =
     (if ur_loop r \<and> ur_listening r then from_client dest i p bs dialed ok r else r)"
| "udp_next dest UReadErr r = r"
| "udp_next dest UReadClosed r = (if ur_loop r then relay_end r else r)"
| "udp_next dest (UTarget n bs ok) r =
     (if n < length (ur_targets r) \<and> tg_reader (ur_targets r ! n) = Reading \<and> tg_open (ur_targets r ! n)
      then from_target n bs ok r else r)"
| "udp_next dest (UTargetErr n) r =
     (if n < length (ur_targets r) \<and> tg_reader (ur_targets r ! n) = Reading then leave n r else r)"
| "udp_next dest (UDelete n) r =
     (if n < length (ur_targets r) \<and> tg_reader (ur_targets r ! n) = Leaving
      then r\<lparr>ur_conns := (ur_conns r)(tg_key (ur_targets r ! n) := None),
             ur_targets := (ur_targets r)[n := (ur_targets r ! n)\<lparr>tg_reader := Gone\<rparr>]\<rparr>
      else r)"
| "udp_next dest UControlEnd r = r\<lparr>ur_listening := False\<rparr>"

definition udp_step :: "AddrSpec \<Rightarrow> udp_relay \<Rightarrow> udp_event \<Rightarrow> udp_relay \<Rightarrow> bool" where
  "udp_step dest r e r' \<longleftrightarrow> r' = udp_next dest e r"

subsection \<open>The invariant\<close>

text \<open>
  The map and the targets agree: a target whose reader has not deleted its key is the one under that
  key. A target is closed before its key is deleted, and once the loop has ended all are closed.
\<close>

definition relay_inv :: "udp_relay \<Rightarrow> bool" where
  "relay_inv r \<longleftrightarrow>
     (\<forall>k n. ur_conns r k = Some n \<longleftrightarrow> n < length (ur_targets r) \<and> tg_key (ur_targets r ! n) = k \<and> tg_reader (ur_targets r ! n) \<noteq> Gone) \<and>
     (\<forall>t \<in> set (ur_targets r). tg_reader t \<noteq> Reading \<longrightarrow> \<not> tg_open t) \<and>
     (\<not> ur_loop r \<longrightarrow> \<not> ur_listening r \<and> (\<forall>t \<in> set (ur_targets r). \<not> tg_open t))"

lemma relay_invI:
  assumes "\<And>k n. ur_conns r k = Some n \<longleftrightarrow>
      n < length (ur_targets r) \<and> tg_key (ur_targets r ! n) = k \<and> tg_reader (ur_targets r ! n) \<noteq> Gone"
    and "\<And>n. n < length (ur_targets r) \<Longrightarrow> tg_reader (ur_targets r ! n) \<noteq> Reading \<Longrightarrow> \<not> tg_open (ur_targets r ! n)"
    and "\<And>n. \<not> ur_loop r \<Longrightarrow> n < length (ur_targets r) \<Longrightarrow> \<not> tg_open (ur_targets r ! n)"
    and "\<not> ur_loop r \<Longrightarrow> \<not> ur_listening r"
  shows "relay_inv r"
  using assms unfolding relay_inv_def by (auto simp: in_set_conv_nth)

lemma relay_invD:
  assumes "relay_inv r"
  shows "ur_conns r k = Some n \<longleftrightarrow>
      n < length (ur_targets r) \<and> tg_key (ur_targets r ! n) = k \<and> tg_reader (ur_targets r ! n) \<noteq> Gone"
    and "n < length (ur_targets r) \<Longrightarrow> tg_reader (ur_targets r ! n) \<noteq> Reading \<Longrightarrow> \<not> tg_open (ur_targets r ! n)"
    and "\<not> ur_loop r \<Longrightarrow> n < length (ur_targets r) \<Longrightarrow> \<not> tg_open (ur_targets r ! n)"
    and "\<not> ur_loop r \<Longrightarrow> \<not> ur_listening r"
  using assms unfolding relay_inv_def all_set_conv_all_nth by blast+

lemma udp_inv_start: "relay_inv (udp_start buf)"
  by (rule relay_invI) (simp_all add: udp_start_def)

lemma relay_inv_out [simp]: "relay_inv (r\<lparr>ur_out := x\<rparr>) = relay_inv r" "relay_inv (r\<lparr>ur_buf := b\<rparr>) = relay_inv r"
  by (simp_all add: relay_inv_def)

lemma length_close_range [simp]: "length (close_range c ts) = length ts"
  by (simp add: close_range_def)

lemma close_range_nth:
  "n < length ts \<Longrightarrow>
   close_range c ts ! n = (if c (tg_key (ts ! n)) = Some n then (ts ! n)\<lparr>tg_open := False\<rparr> else ts ! n)"
  by (simp add: close_range_def nth_enumerate_eq)

lemma close_range_keeps [simp]:
  assumes "n < length ts"
  shows "tg_key (close_range c ts ! n) = tg_key (ts ! n)" "tg_reader (close_range c ts ! n) = tg_reader (ts ! n)"
    "tg_src (close_range c ts ! n) = tg_src (ts ! n)" "tg_pk (close_range c ts ! n) = tg_pk (ts ! n)"
  using assms by (simp_all add: close_range_nth)

lemma close_range_closes:
  assumes "relay_inv r" "n < length (ur_targets r)"
  shows "\<not> tg_open (close_range (ur_conns r) (ur_targets r) ! n)"
proof (cases "tg_reader (ur_targets r ! n) = Gone")
  case True
  then show ?thesis using relay_invD(2)[OF assms(1,2)] assms(2) by (simp add: close_range_nth)
next
  case False
  then have "ur_conns r (tg_key (ur_targets r ! n)) = Some n"
    using relay_invD(1)[OF assms(1)] assms(2) by simp
  then show ?thesis using assms(2) by (simp add: close_range_nth)
qed

lemma relay_end_inv: "relay_inv r \<Longrightarrow> relay_inv (relay_end r)"
proof (rule relay_invI)
  fix k n assume "relay_inv r"
  then show "ur_conns (relay_end r) k = Some n \<longleftrightarrow> n < length (ur_targets (relay_end r)) \<and>
      tg_key (ur_targets (relay_end r) ! n) = k \<and> tg_reader (ur_targets (relay_end r) ! n) \<noteq> Gone"
    using relay_invD(1)[of r k n] by (auto simp: relay_end_def)
qed (simp_all add: relay_end_def close_range_closes)

lemma write_target_inv: "relay_inv r \<Longrightarrow> relay_inv (write_target n data ok r)"
  by (simp add: write_target_def relay_end_inv)

lemma new_target_inv:
  assumes "relay_inv r" "ur_loop r" "ur_conns r (tg_key t) = None" "tg_reader t = Reading"
  shows "relay_inv (r\<lparr>ur_conns := (ur_conns r)(tg_key t \<mapsto> length (ur_targets r)), ur_targets := ur_targets r @ [t]\<rparr>)"
proof (rule relay_invI)
  let ?r = "r\<lparr>ur_conns := (ur_conns r)(tg_key t \<mapsto> length (ur_targets r)), ur_targets := ur_targets r @ [t]\<rparr>"
  fix k n
  show "ur_conns ?r k = Some n \<longleftrightarrow>
      n < length (ur_targets ?r) \<and> tg_key (ur_targets ?r ! n) = k \<and> tg_reader (ur_targets ?r ! n) \<noteq> Gone"
    using relay_invD(1)[OF assms(1), of k n] assms(3,4) by (auto simp: nth_append less_Suc_eq)
qed (use assms in \<open>auto simp: nth_append less_Suc_eq dest: relay_invD(2)\<close>)

lemma from_client_inv:
  assumes "relay_inv r" "ur_loop r"
  shows "relay_inv (from_client dest i p bs dialed ok r)"
proof -
  let ?b = "take (length (ur_buf r)) bs"
  let ?r = "r\<lparr>ur_buf := ?b @ drop (length ?b) (ur_buf r)\<rparr>"
  have r: "relay_inv ?r" using assms(1) by simp
  show ?thesis
  proof (cases "\<exists>pk. ParseDatagram ?b = Inr pk \<and> src_equal dest i p \<and>
      ur_conns r (connKey (UDPAddr i p) (dg_DstAddr pk)) = None \<and> dialed")
    case True
    then obtain pk where pk: "ParseDatagram ?b = Inr pk" "src_equal dest i p"
      "ur_conns r (connKey (UDPAddr i p) (dg_DstAddr pk)) = None" dialed by blast
    let ?t = "\<lparr>tg_src = UDPAddr i p, tg_pk = pk, tg_key = connKey (UDPAddr i p) (dg_DstAddr pk), tg_open = True, tg_reader = Reading\<rparr>"
    let ?o = "?r\<lparr>ur_out := ur_out r @ [UDial (AddrSpec_String (dg_DstAddr pk))]\<rparr>"
    have "relay_inv (?o\<lparr>ur_conns := (ur_conns ?o)(tg_key ?t \<mapsto> length (ur_targets ?o)), ur_targets := ur_targets ?o @ [?t]\<rparr>)"
      by (rule new_target_inv) (use assms pk in simp_all)
    from write_target_inv[OF this, of "length (ur_targets r)" "dg_Data pk" ok] show ?thesis
      using pk by (simp add: from_client_def Let_def)
  next
    case False
    then show ?thesis
      using r write_target_inv[OF r] assms(1)
      by (auto simp: from_client_def Let_def split: sum.split option.split)
  qed
qed

lemma leave_inv:
  assumes "relay_inv r" "n < length (ur_targets r)" "tg_reader (ur_targets r ! n) = Reading"
  shows "relay_inv (leave n r)"
proof (rule relay_invI)
  fix k m
  show "ur_conns (leave n r) k = Some m \<longleftrightarrow> m < length (ur_targets (leave n r)) \<and>
      tg_key (ur_targets (leave n r) ! m) = k \<and> tg_reader (ur_targets (leave n r) ! m) \<noteq> Gone"
    using relay_invD(1)[OF assms(1), of k m] assms(2,3) by (auto simp: leave_def nth_list_update)
qed (use assms in \<open>auto simp: leave_def nth_list_update dest: relay_invD(2,3,4)\<close>)

lemma delete_inv:
  assumes "relay_inv r" "n < length (ur_targets r)" "tg_reader (ur_targets r ! n) = Leaving"
  shows "relay_inv (udp_next dest (UDelete n) r)"
proof (rule relay_invI)
  let ?r = "udp_next dest (UDelete n) r"
  fix k m
  have n: "ur_conns r (tg_key (ur_targets r ! n)) = Some n" using relay_invD(1)[OF assms(1)] assms(2,3) by simp
  show "ur_conns ?r k = Some m \<longleftrightarrow>
      m < length (ur_targets ?r) \<and> tg_key (ur_targets ?r ! m) = k \<and> tg_reader (ur_targets ?r ! m) \<noteq> Gone"
    using relay_invD(1)[OF assms(1), of k m] n assms(2,3) by (auto simp: nth_list_update)
next
  fix m assume "m < length (ur_targets (udp_next dest (UDelete n) r))"
    "tg_reader (ur_targets (udp_next dest (UDelete n) r) ! m) \<noteq> Reading"
  then show "\<not> tg_open (ur_targets (udp_next dest (UDelete n) r) ! m)"
    using relay_invD(2)[OF assms(1), of m] assms(2,3) by (cases "m = n") simp_all
qed (use assms in \<open>auto simp: nth_list_update dest: relay_invD(3,4)\<close>)

lemma udp_next_inv: "relay_inv r \<Longrightarrow> relay_inv (udp_next dest e r)"
proof (cases e)
  case (UDelete n)
  assume "relay_inv r"
  then show ?thesis using delete_inv[of r n dest] UDelete by auto
next
  case UControlEnd
  assume "relay_inv r"
  then show ?thesis unfolding UControlEnd by (simp add: relay_inv_def)
qed (auto simp: from_client_inv relay_end_inv leave_inv from_target_def Let_def split: option.split)

interpretation udp: step_system "\<lambda>r. r = udp_start buf" "udp_step dest" relay_inv
  by unfold_locales (auto simp: udp_inv_start udp_step_def udp_next_inv)

subsection \<open>Keys\<close>

text \<open>No address of a sender contains a dash, so a key determines the sender and the destination.\<close>

lemma no_dash_Itoa: "CHR ''-'' \<notin> set (Itoa n)"
  using Itoa_digits[of n] by (auto simp: list_all_iff is_digit_def)

lemma no_dash_ip_String: "CHR ''-'' \<notin> set (ip_String a)"
proof -
  have hex: "CHR ''-'' \<notin> set (hex_str n)" for n
    using hex_str_hex[of "CHR ''-''" n] by (auto simp: is_hex_def hex_val_def is_digit_def less_eq_char_def split: if_splits)
  have "CHR ''-'' \<notin> set (ipv4_str b)" "CHR ''-'' \<notin> set (ipv6_str b)" for b
    using ipv4_chars[of "CHR ''-''" b] ipv6_chars[of "CHR ''-''" b]
    by (auto simp: is_hex_def hex_val_def is_digit_def less_eq_char_def split: if_splits)
  then show ?thesis using hex by (auto simp: ip_String_def hex_byte_def split: option.split)
qed

lemma no_dash_sender: "CHR ''-'' \<notin> set (addr_String (UDPAddr i p))"
  by (auto simp: JoinHostPort_def host_str_def no_dash_ip_String no_dash_Itoa)

lemma split_at_dash:
  "a @ CHR ''-'' # x = b @ CHR ''-'' # y \<Longrightarrow> CHR ''-'' \<notin> set a \<Longrightarrow> CHR ''-'' \<notin> set b \<Longrightarrow> a = b \<and> x = y"
  by (induction a arbitrary: b) (auto simp: Cons_eq_append_conv append_eq_Cons_conv)

lemma connKey_inj:
  assumes "connKey (UDPAddr i p) d = connKey (UDPAddr j q) e"
  shows "addr_String (UDPAddr i p) = addr_String (UDPAddr j q) \<and> AddrSpec_String d = AddrSpec_String e"
  using split_at_dash[OF _ no_dash_sender no_dash_sender, of i p "CHR ''-'' # AddrSpec_String d" j q "CHR ''-'' # AddrSpec_String e"]
    assms by (simp add: connKey_def)

subsection \<open>Where the bytes come from\<close>

text \<open>
  A datagram of the client that the relay accepts, and what justifies an effect: \<open>cap\<close> is the
  buffer's capacity, \<open>evs\<close> the events so far.
\<close>

definition accepted :: "AddrSpec \<Rightarrow> nat \<Rightarrow> udp_event set \<Rightarrow> ip \<Rightarrow> int \<Rightarrow> Datagram \<Rightarrow> bool" where
  "accepted dest cap evs i p pk \<longleftrightarrow>
     (\<exists>bs dialed ok. UClient i p bs dialed ok \<in> evs \<and> ParseDatagram (take cap bs) = Inr pk) \<and> src_equal dest i p"

definition target_ok :: "AddrSpec \<Rightarrow> nat \<Rightarrow> udp_event set \<Rightarrow> udp_target \<Rightarrow> bool" where
  "target_ok dest cap evs t \<longleftrightarrow> tg_key t = connKey (tg_src t) (dg_DstAddr (tg_pk t)) \<and>
     (\<exists>i p. tg_src t = UDPAddr i p \<and> accepted dest cap evs i p (tg_pk t))"

fun effect_ok :: "AddrSpec \<Rightarrow> nat \<Rightarrow> udp_event set \<Rightarrow> udp_target list \<Rightarrow> udp_effect \<Rightarrow> bool" where
  "effect_ok dest cap evs ts (UDial d) \<longleftrightarrow>
     (\<exists>i p pk. accepted dest cap evs i p pk \<and> d = AddrSpec_String (dg_DstAddr pk))"
| "effect_ok dest cap evs ts (UToTarget n data) \<longleftrightarrow> n < length ts \<and>
     (\<exists>i p pk. accepted dest cap evs i p pk \<and> data = dg_Data pk \<and> connKey (UDPAddr i p) (dg_DstAddr pk) = tg_key (ts ! n))"
| "effect_ok dest cap evs ts (UToClient a bytes) \<longleftrightarrow>
     (\<exists>n bs ok h. UTarget n bs ok \<in> evs \<and> n < length ts \<and> a = tg_src (ts ! n) \<and> bytes = h @ take cap bs \<and>
        (as_AddrType (dg_DstAddr (tg_pk (ts ! n))) \<noteq> ATYPIPv6 \<longrightarrow> Datagram_Header (tg_pk (ts ! n)) = Some h))"

definition relay_log :: "AddrSpec \<Rightarrow> nat \<Rightarrow> udp_event set \<Rightarrow> udp_relay \<Rightarrow> bool" where
  "relay_log dest cap evs r \<longleftrightarrow> length (ur_buf r) = cap \<and> (\<forall>t \<in> set (ur_targets r). target_ok dest cap evs t) \<and>
     (\<forall>x \<in> set (ur_out r). effect_ok dest cap evs (ur_targets r) x)"

text \<open>Steps keep what identifies a target.\<close>

definition same_ids :: "udp_target list \<Rightarrow> udp_target list \<Rightarrow> bool" where
  "same_ids ts ts' \<longleftrightarrow> length ts \<le> length ts' \<and>
     (\<forall>n < length ts. tg_key (ts' ! n) = tg_key (ts ! n) \<and> tg_src (ts' ! n) = tg_src (ts ! n) \<and> tg_pk (ts' ! n) = tg_pk (ts ! n))"

lemma same_ids_refl [simp]: "same_ids ts ts"
  by (simp add: same_ids_def)

lemma same_ids_append [simp]: "same_ids ts (ts @ us)"
  by (simp add: same_ids_def nth_append)

lemma same_ids_close [simp]: "same_ids ts (close_range c ts)"
  by (simp add: same_ids_def)

lemma same_ids_update [simp]:
  "tg_key t = tg_key (ts ! n) \<Longrightarrow> tg_src t = tg_src (ts ! n) \<Longrightarrow> tg_pk t = tg_pk (ts ! n) \<Longrightarrow> same_ids ts (ts[n := t])"
  by (cases "n < length ts") (auto simp: same_ids_def nth_list_update)

lemma accepted_mono: "accepted dest cap evs i p pk \<Longrightarrow> evs \<subseteq> evs' \<Longrightarrow> accepted dest cap evs' i p pk"
  by (auto simp: accepted_def)

lemma target_ok_mono: "target_ok dest cap evs t \<Longrightarrow> evs \<subseteq> evs' \<Longrightarrow> target_ok dest cap evs' t"
  by (auto simp: target_ok_def dest: accepted_mono)

lemma effect_ok_mono:
  assumes "effect_ok dest cap evs ts x" "evs \<subseteq> evs'" "same_ids ts ts'"
  shows "effect_ok dest cap evs' ts' x"
proof (cases x)
  case (UDial d)
  then show ?thesis using assms(1) accepted_mono[OF _ assms(2)] by fastforce
next
  case (UToTarget n data)
  then show ?thesis using assms(1,3) accepted_mono[OF _ assms(2)] by (fastforce simp: same_ids_def)
next
  case (UToClient a bytes)
  then obtain n bs ok h where "UTarget n bs ok \<in> evs" "n < length ts" "a = tg_src (ts ! n)" "bytes = h @ take cap bs"
    "as_AddrType (dg_DstAddr (tg_pk (ts ! n))) \<noteq> ATYPIPv6 \<longrightarrow> Datagram_Header (tg_pk (ts ! n)) = Some h"
    using assms(1) by auto
  then have "UTarget n bs ok \<in> evs'" "n < length ts'" "a = tg_src (ts' ! n)" "bytes = h @ take cap bs"
    "as_AddrType (dg_DstAddr (tg_pk (ts' ! n))) \<noteq> ATYPIPv6 \<longrightarrow> Datagram_Header (tg_pk (ts' ! n)) = Some h"
    using assms(2,3) by (auto simp: same_ids_def)
  then show ?thesis unfolding UToClient effect_ok.simps by blast
qed

text \<open>A step keeps the log if its new targets and effects are justified by the events up to it.\<close>

lemma relay_log_step:
  assumes "relay_log dest cap evs r" "evs \<subseteq> evs'" "same_ids (ur_targets r) (ur_targets r')"
    "length (ur_buf r') = length (ur_buf r)"
    "\<And>n. length (ur_targets r) \<le> n \<Longrightarrow> n < length (ur_targets r') \<Longrightarrow> target_ok dest cap evs' (ur_targets r' ! n)"
    "\<And>x. x \<in> set (ur_out r') \<Longrightarrow> x \<notin> set (ur_out r) \<Longrightarrow> effect_ok dest cap evs' (ur_targets r') x"
  shows "relay_log dest cap evs' r'"
proof -
  have "target_ok dest cap evs' (ur_targets r' ! n)" if "n < length (ur_targets r')" for n
  proof (cases "n < length (ur_targets r)")
    case True
    then have "target_ok dest cap evs (ur_targets r ! n)" using assms(1) by (auto simp: relay_log_def)
    from target_ok_mono[OF this assms(2)] show ?thesis
      using True assms(3) by (simp add: same_ids_def target_ok_def)
  qed (use that assms(5) in auto)
  moreover have "effect_ok dest cap evs' (ur_targets r') x" if "x \<in> set (ur_out r')" for x
    using that assms(1,6) effect_ok_mono[OF _ assms(2,3)] by (cases "x \<in> set (ur_out r)") (auto simp: relay_log_def)
  ultimately show ?thesis using assms(1,4) by (auto simp: relay_log_def in_set_conv_nth)
qed

lemma relay_log_mono: "relay_log dest cap evs r \<Longrightarrow> evs \<subseteq> evs' \<Longrightarrow> relay_log dest cap evs' r"
  by (erule relay_log_step) simp_all

lemma relay_log_end: "relay_log dest cap evs r \<Longrightarrow> relay_log dest cap evs (relay_end r)"
  by (erule relay_log_step) (simp_all add: relay_end_def)

lemma relay_log_leave: "relay_log dest cap evs r \<Longrightarrow> relay_log dest cap evs (leave n r)"
  by (erule relay_log_step) (simp_all add: leave_def)

lemma relay_log_write:
  assumes "relay_log dest cap evs r" "n < length (ur_targets r)" "accepted dest cap evs i p pk"
    "connKey (UDPAddr i p) (dg_DstAddr pk) = tg_key (ur_targets r ! n)"
  shows "relay_log dest cap evs (write_target n (dg_Data pk) ok r)"
  by (rule relay_log_step[OF assms(1)])
     (use assms in \<open>auto simp: write_target_def relay_end_def split: if_splits\<close>)

lemma relay_log_new:
  assumes "relay_log dest cap evs r" "target_ok dest cap evs t"
  shows "relay_log dest cap evs (r\<lparr>ur_conns := c, ur_targets := ur_targets r @ [t]\<rparr>)"
  by (rule relay_log_step[OF assms(1)]) (use assms in \<open>auto simp: nth_append\<close>)

lemma relay_log_dial:
  assumes "relay_log dest cap evs r" "accepted dest cap evs i p pk"
  shows "relay_log dest cap evs (r\<lparr>ur_out := ur_out r @ [UDial (AddrSpec_String (dg_DstAddr pk))]\<rparr>)"
  by (rule relay_log_step[OF assms(1)]) (use assms in auto)

lemma pk_now_other: "as_AddrType (dg_DstAddr pk) \<noteq> ATYPIPv6 \<Longrightarrow> pk_now buf pk = pk"
  by (simp add: pk_now_def)

lemma relay_log_from_target:
  assumes "relay_log dest cap evs r" "UTarget n bs ok \<in> evs" "n < length (ur_targets r)"
  shows "relay_log dest cap evs (from_target n bs ok r)"
proof (cases "Datagram_Header (pk_now (ur_buf r) (tg_pk (ur_targets r ! n)))")
  case None
  then show ?thesis using assms(1) by (simp add: from_target_def)
next
  case (Some h)
  let ?t = "ur_targets r ! n"
  have h: "as_AddrType (dg_DstAddr (tg_pk ?t)) \<noteq> ATYPIPv6 \<longrightarrow> Datagram_Header (tg_pk ?t) = Some h"
    using Some pk_now_other[of "tg_pk ?t"] by auto
  have "length (ur_buf r) = cap" using assms(1) by (simp add: relay_log_def)
  then have "effect_ok dest cap evs (ur_targets r) (UToClient (tg_src ?t) (h @ take (length (ur_buf r)) bs))"
    using assms(2,3) h unfolding effect_ok.simps by blast
  then have "relay_log dest cap evs (r\<lparr>ur_out := ur_out r @ [UToClient (tg_src ?t) (h @ take (length (ur_buf r)) bs)]\<rparr>)"
    by (intro relay_log_step[OF assms(1)]) auto
  then show ?thesis using Some relay_log_leave[OF assms(1)] by (simp add: from_target_def Let_def)
qed

lemma relay_log_from_client:
  assumes "relay_inv r" "relay_log dest cap evs r" "UClient i p bs dialed ok \<in> evs"
  shows "relay_log dest cap evs (from_client dest i p bs dialed ok r)"
proof -
  let ?b = "take (length (ur_buf r)) bs"
  let ?r = "r\<lparr>ur_buf := ?b @ drop (length ?b) (ur_buf r)\<rparr>"
  have r: "relay_log dest cap evs ?r" by (rule relay_log_step[OF assms(2)]) simp_all
  show ?thesis
  proof (cases "\<exists>pk. ParseDatagram ?b = Inr pk \<and> src_equal dest i p")
    case False
    then show ?thesis using r by (auto simp: from_client_def Let_def split: sum.split)
  next
    case True
    then obtain pk where pk: "ParseDatagram ?b = Inr pk" "src_equal dest i p" by blast
    then have acc: "accepted dest cap evs i p pk"
      using assms(2,3) by (auto simp: accepted_def relay_log_def)
    let ?key = "connKey (UDPAddr i p) (dg_DstAddr pk)"
    show ?thesis
    proof (cases "ur_conns r ?key")
      case (Some n)
      then have "n < length (ur_targets ?r)" "?key = tg_key (ur_targets ?r ! n)"
        using relay_invD(1)[OF assms(1), of ?key n] by simp_all
      from relay_log_write[OF r this(1) acc this(2), of ok] show ?thesis
        using pk Some by (simp add: from_client_def Let_def)
    next
      case None
      let ?o = "?r\<lparr>ur_out := ur_out ?r @ [UDial (AddrSpec_String (dg_DstAddr pk))]\<rparr>"
      let ?t = "\<lparr>tg_src = UDPAddr i p, tg_pk = pk, tg_key = ?key, tg_open = True, tg_reader = Reading\<rparr>"
      let ?n = "?o\<lparr>ur_conns := (ur_conns ?o)(?key \<mapsto> length (ur_targets ?o)), ur_targets := ur_targets ?o @ [?t]\<rparr>"
      have o: "relay_log dest cap evs ?o" by (rule relay_log_dial[OF r acc])
      have n: "relay_log dest cap evs ?n"
        by (rule relay_log_new[OF o]) (use acc in \<open>simp add: target_ok_def\<close>)
      have "relay_log dest cap evs (write_target (length (ur_targets r)) (dg_Data pk) ok ?n)"
        by (rule relay_log_write[OF n _ acc]) simp_all
      then show ?thesis using pk None o by (simp add: from_client_def Let_def)
    qed
  qed
qed

lemma relay_log_next:
  assumes "relay_inv r" "relay_log dest cap evs r" "e \<in> evs"
  shows "relay_log dest cap evs (udp_next dest e r)"
proof (cases e)
  case (UDelete n)
  show ?thesis unfolding UDelete by (rule relay_log_step[OF assms(2)]) auto
next
  case UControlEnd
  show ?thesis unfolding UControlEnd by (rule relay_log_step[OF assms(2)]) simp_all
qed (use assms in \<open>auto intro: relay_log_from_client relay_log_from_target relay_log_end relay_log_leave\<close>)

lemma relay_log_run:
  assumes "run (udp_step dest) r evs r'" "relay_inv r" "relay_log dest cap past r"
  shows "relay_log dest cap (past \<union> set evs) r'"
  using assms
proof (induction arbitrary: past rule: run.induct)
  case (run_Cons s e s' evs t)
  have s': "s' = udp_next dest e s" using run_Cons.hyps(1) by (simp add: udp_step_def)
  have "relay_log dest cap (insert e past) s'"
    unfolding s' by (rule relay_log_next[OF run_Cons.prems(1) relay_log_mono[OF run_Cons.prems(2)]]) auto
  moreover have "relay_inv s'" using run_Cons.prems(1) by (simp add: s' udp_next_inv)
  ultimately show ?case using run_Cons.IH[of "insert e past"] by simp
qed simp

lemma relay_log_history:
  "run (udp_step dest) (udp_start buf) evs r \<Longrightarrow> relay_log dest (length buf) (set evs) r"
  using relay_log_run[of dest "udp_start buf" evs r "length buf" "{}"] udp_inv_start[of buf]
  by (simp add: relay_log_def udp_start_def)

lemma udp_run_iff: "run (udp_step dest) r evs r' \<longleftrightarrow> r' = fold (udp_next dest) evs r"
  by (induction evs arbitrary: r) (simp_all add: udp_step_def)

subsection \<open>What the relay promises\<close>

text \<open>
  C40. In every history of a relay each datagram that reaches a target was sent to that target's
  destination by that target's client, whose address the request admits; each datagram that reaches
  a client is an answer of a target of that client, behind a header that is, for IPv4 and domain
  destinations, the header of the datagram that opened the target; and once the loop
  has ended, the socket and all targets are closed.
\<close>

theorem relay_keeps_clients_apart:
  assumes "run (udp_step dest) (udp_start buf) evs r"
  shows "(\<forall>n data. UToTarget n data \<in> set (ur_out r) \<longrightarrow>
      (\<exists>i p bs dialed ok pk. UClient i p bs dialed ok \<in> set evs \<and> ParseDatagram (take (length buf) bs) = Inr pk \<and>
         src_equal dest i p \<and> data = dg_Data pk \<and>
         addr_String (UDPAddr i p) = addr_String (tg_src (ur_targets r ! n)) \<and>
         AddrSpec_String (dg_DstAddr pk) = AddrSpec_String (dg_DstAddr (tg_pk (ur_targets r ! n))))) \<and>
    (\<forall>a bytes. UToClient a bytes \<in> set (ur_out r) \<longrightarrow>
      (\<exists>n bs ok h i p. UTarget n bs ok \<in> set evs \<and> a = tg_src (ur_targets r ! n) \<and> a = UDPAddr i p \<and> src_equal dest i p \<and>
         bytes = h @ take (length buf) bs \<and>
         (as_AddrType (dg_DstAddr (tg_pk (ur_targets r ! n))) \<noteq> ATYPIPv6 \<longrightarrow>
            Datagram_Header (tg_pk (ur_targets r ! n)) = Some h))) \<and>
    (\<not> ur_loop r \<longrightarrow> \<not> ur_listening r \<and> (\<forall>t \<in> set (ur_targets r). \<not> tg_open t))"
proof (intro conjI allI impI)
  note log = relay_log_history[OF assms]
  have target: "\<exists>i p. tg_src (ur_targets r ! n) = UDPAddr i p \<and> src_equal dest i p \<and>
      tg_key (ur_targets r ! n) = connKey (UDPAddr i p) (dg_DstAddr (tg_pk (ur_targets r ! n)))"
    if "n < length (ur_targets r)" for n
    using log that by (fastforce simp: relay_log_def target_ok_def accepted_def)
  {
    fix n data assume "UToTarget n data \<in> set (ur_out r)"
    then have e: "effect_ok dest (length buf) (set evs) (ur_targets r) (UToTarget n data)"
      using log unfolding relay_log_def by blast
    then obtain i p pk where acc: "accepted dest (length buf) (set evs) i p pk" "data = dg_Data pk"
      and n: "n < length (ur_targets r)" and key: "connKey (UDPAddr i p) (dg_DstAddr pk) = tg_key (ur_targets r ! n)" using e by auto
    obtain j q where "tg_src (ur_targets r ! n) = UDPAddr j q"
      "tg_key (ur_targets r ! n) = connKey (UDPAddr j q) (dg_DstAddr (tg_pk (ur_targets r ! n)))" using target[OF n] by blast
    with connKey_inj[of i p "dg_DstAddr pk" j q] key have "addr_String (UDPAddr i p) = addr_String (tg_src (ur_targets r ! n))"
      "AddrSpec_String (dg_DstAddr pk) = AddrSpec_String (dg_DstAddr (tg_pk (ur_targets r ! n)))" by auto
    then show "\<exists>i p bs dialed ok pk. UClient i p bs dialed ok \<in> set evs \<and> ParseDatagram (take (length buf) bs) = Inr pk \<and>
         src_equal dest i p \<and> data = dg_Data pk \<and>
         addr_String (UDPAddr i p) = addr_String (tg_src (ur_targets r ! n)) \<and>
         AddrSpec_String (dg_DstAddr pk) = AddrSpec_String (dg_DstAddr (tg_pk (ur_targets r ! n)))"
      using acc unfolding accepted_def by blast
  next
    fix a bytes assume "UToClient a bytes \<in> set (ur_out r)"
    then have "effect_ok dest (length buf) (set evs) (ur_targets r) (UToClient a bytes)"
      using log unfolding relay_log_def by blast
    then obtain n bs ok h where "UTarget n bs ok \<in> set evs" "n < length (ur_targets r)" "a = tg_src (ur_targets r ! n)"
      "bytes = h @ take (length buf) bs" "as_AddrType (dg_DstAddr (tg_pk (ur_targets r ! n))) \<noteq> ATYPIPv6 \<longrightarrow>
        Datagram_Header (tg_pk (ur_targets r ! n)) = Some h" by auto
    then show "\<exists>n bs ok h i p. UTarget n bs ok \<in> set evs \<and> a = tg_src (ur_targets r ! n) \<and> a = UDPAddr i p \<and>
         src_equal dest i p \<and> bytes = h @ take (length buf) bs \<and>
         (as_AddrType (dg_DstAddr (tg_pk (ur_targets r ! n))) \<noteq> ATYPIPv6 \<longrightarrow>
            Datagram_Header (tg_pk (ur_targets r ! n)) = Some h)"
      using target[of n] by metis
  }
  have "relay_inv r" by (rule udp.history_inv[OF refl assms])
  then show "\<not> ur_loop r \<Longrightarrow> \<not> ur_listening r" "\<And>t. \<not> ur_loop r \<Longrightarrow> \<forall>t \<in> set (ur_targets r). \<not> tg_open t"
    by (simp_all add: relay_inv_def)
qed

text \<open>Two targets of a client; the second one answers, then the control connection ends.\<close>

definition demo_dest :: AddrSpec where
  "demo_dest = \<lparr>as_FQDN = '''', as_IP = IPv4zero, as_Port = 0, as_AddrType = ATYPIPv4\<rparr>"

definition demo_v6 :: "byte list" where
  "demo_v6 = [0, 0, 0, 4, 0, 0x64, 0, 1, 0, 0, 0, 0, 0, 0, 0, 0, 0, 0, 0, 1, 0, 53, 1, 2]"

definition demo_v4 :: "byte list" where
  "demo_v4 = [0, 0, 0, 1, 10, 0, 0, 1, 0, 53, 9, 9, 9]"

definition demo_udp :: "udp_event list" where
  "demo_udp = [UClient [192, 0, 2, 7] 50 demo_v6 True True, UClient [192, 0, 2, 7] 50 demo_v4 True True,
     UTarget 1 [8] True, UTarget 0 [7] True, UControlEnd, UReadClosed]"

lemma demo_udp_out:
  "ur_out (fold (udp_next demo_dest) demo_udp (udp_start (replicate 32 0))) =
   [UDial ''[64:1::1]:53'', UToTarget 0 [1, 2], UDial ''10.0.0.1:53'', UToTarget 1 [9, 9, 9],
    UToClient (UDPAddr [192, 0, 2, 7] 50) [0, 0, 0, 1, 10, 0, 0, 1, 0, 53, 8],
    UToClient (UDPAddr [192, 0, 2, 7] 50)
      [0, 0, 0, 4, 10, 0, 0, 1, 0, 53, 9, 9, 9, 0, 0, 0, 0, 0, 0, 1, 0, 53, 7]]"
  by code_simp

lemma demo_udp_ends: "\<not> ur_loop (fold (udp_next demo_dest) demo_udp (udp_start (replicate 32 0)))"
  by code_simp

theorem relay_keeps_clients_apart_witness:
  "(\<exists>i p bs dialed ok pk. UClient i p bs dialed ok \<in> set demo_udp \<and> ParseDatagram (take 32 bs) = Inr pk \<and>
      src_equal demo_dest i p \<and> dg_Data pk = [9, 9, 9]) \<and>
   (\<exists>n bs ok. UTarget n bs ok \<in> set demo_udp) \<and>
   list_all (\<lambda>t. \<not> tg_open t) (ur_targets (fold (udp_next demo_dest) demo_udp (udp_start (replicate 32 0))))"
proof -
  let ?r = "fold (udp_next demo_dest) demo_udp (udp_start (replicate 32 0))"
  have "run (udp_step demo_dest) (udp_start (replicate 32 0)) demo_udp ?r" by (simp only: udp_run_iff)
  note R = relay_keeps_clients_apart[OF this, unfolded length_replicate]
  have "UToTarget 1 [9, 9, 9] \<in> set (ur_out ?r)"
    "UToClient (UDPAddr [192, 0, 2, 7] 50) [0, 0, 0, 1, 10, 0, 0, 1, 0, 53, 8] \<in> set (ur_out ?r)"
    unfolding demo_udp_out by simp_all
  with R demo_udp_ends show ?thesis unfolding list_all_iff by metis
qed

text \<open>
  The last reply of that history is the IPv6 target's: its header has the address type and the port of
  the target, but bytes of the other datagram for an address. In general, the address is whatever the
  buffer holds at that position.
\<close>

theorem ipv6_reply_misaddressed:
  assumes "n < length (ur_targets r)" "tg_reader (ur_targets r ! n) = Reading" "tg_open (ur_targets r ! n)" "ur_listening r"
    and "as_AddrType (dg_DstAddr (tg_pk (ur_targets r ! n))) = ATYPIPv6" "dg_RSV (tg_pk (ur_targets r ! n)) = 0"
    and "20 \<le> length (ur_buf r)"
  shows "ur_out (udp_next dest (UTarget n bs True) r) = ur_out r @
    [UToClient (tg_src (ur_targets r ! n))
       ([0, 0, dg_Frag (tg_pk (ur_targets r ! n)), ATYPIPv6] @ take 16 (drop 4 (ur_buf r)) @
        port_bytes (as_Port (dg_DstAddr (tg_pk (ur_targets r ! n)))) @ take (length (ur_buf r)) bs)]"
proof -
  let ?pk = "tg_pk (ur_targets r ! n)"
  have "Datagram_Header (pk_now (ur_buf r) ?pk) = Some ([0, 0, dg_Frag ?pk, ATYPIPv6] @
      take 16 (drop 4 (ur_buf r)) @ port_bytes (as_Port (dg_DstAddr ?pk)))"
    using assms(5-7) by (simp add: Datagram_Header_def Datagram_values_def pk_now_def addr_tail_def To16_def)
  then show ?thesis using assms(1-4) by (simp add: from_target_def Let_def)
qed

theorem ipv6_reply_misaddressed_witness:
  "ur_out (udp_next demo_dest (UTarget 0 [7] True)
      (fold (udp_next demo_dest) (take 3 demo_udp) (udp_start (replicate 32 0)))) =
   [UDial ''[64:1::1]:53'', UToTarget 0 [1, 2], UDial ''10.0.0.1:53'', UToTarget 1 [9, 9, 9],
    UToClient (UDPAddr [192, 0, 2, 7] 50) [0, 0, 0, 1, 10, 0, 0, 1, 0, 53, 8],
    UToClient (UDPAddr [192, 0, 2, 7] 50)
      [0, 0, 0, 4, 10, 0, 0, 1, 0, 53, 9, 9, 9, 0, 0, 0, 0, 0, 0, 1, 0, 53, 7]]"
proof -
  define r where "r = fold (udp_next demo_dest) (take 3 demo_udp) (udp_start (replicate 32 0))"
  have "0 < length (ur_targets r)" "tg_reader (ur_targets r ! 0) = Reading" "tg_open (ur_targets r ! 0)" "ur_listening r"
    "as_AddrType (dg_DstAddr (tg_pk (ur_targets r ! 0))) = ATYPIPv6" "dg_RSV (tg_pk (ur_targets r ! 0)) = 0"
    "20 \<le> length (ur_buf r)"
    unfolding r_def by code_simp+
  note R = ipv6_reply_misaddressed[OF this, of demo_dest "[7]"]
  have v: "ur_out r = [UDial ''[64:1::1]:53'', UToTarget 0 [1, 2], UDial ''10.0.0.1:53'', UToTarget 1 [9, 9, 9],
      UToClient (UDPAddr [192, 0, 2, 7] 50) [0, 0, 0, 1, 10, 0, 0, 1, 0, 53, 8]]"
    "tg_src (ur_targets r ! 0) = UDPAddr [192, 0, 2, 7] 50" "dg_Frag (tg_pk (ur_targets r ! 0)) = 0"
    "take 16 (drop 4 (ur_buf r)) = [10, 0, 0, 1, 0, 53, 9, 9, 9, 0, 0, 0, 0, 0, 0, 1]"
    "port_bytes (as_Port (dg_DstAddr (tg_pk (ur_targets r ! 0)))) = [0, 53]" "take (length (ur_buf r)) [7 :: byte] = [7]"
    unfolding r_def by code_simp+
  show ?thesis using R unfolding r_def[symmetric] v by (simp add: ATYPIPv6_def)
qed

text \<open>
  A target that refuses a datagram ends the association for all targets: its reader has closed it, its
  key is still there, and the next write to it fails.
\<close>

lemma refused_target_ends_relay:
  assumes "ur_loop r" "ur_listening r" "ParseDatagram (take (length (ur_buf r)) bs) = Inr pk" "src_equal dest i p"
    and "ur_conns r (connKey (UDPAddr i p) (dg_DstAddr pk)) = Some n" "\<not> tg_open (ur_targets r ! n)"
  shows "\<not> ur_loop (udp_next dest (UClient i p bs dialed ok) r)"
  using assms by (simp add: from_client_def Let_def write_target_def relay_end_def)

lemma associate_handler_plain: "snd (snd (associate_handler lookup listen ctrl sv ctx w rq)) = []"
  by (simp add: associate_handler_def split: prod.split)

text \<open>The server with its own handler of \<open>ASSOCIATE\<close>.\<close>

definition associate_env ::
    "(string \<Rightarrow> ip option) \<Rightarrow> (addr \<Rightarrow> string + addr) \<Rightarrow> string option \<Rightarrow> 'ctx Server \<Rightarrow> 'ctx socks_env \<Rightarrow> 'ctx socks_env" where
  "associate_env lookup listen ctrl sv env = env\<lparr>env_associate := associate_handler lookup listen ctrl sv\<rparr>"

lemma associate_env_plain:
  assumes "sv_userConnectHandle sv = None" "sv_userBindHandle sv = None" "sv_userAssociateHandle sv = None"
    "sv_connectMiddlewares sv = []" "sv_bindMiddlewares sv = []" "sv_associateMiddlewares sv = []"
  shows "plain_server (associate_env lookup listen ctrl sv env) sv"
  using assms by (simp add: plain_server_def associate_env_def associate_handler_plain)

end
