(* ===== verification/Yamux_Stream.thy ===== *)
theory Yamux_Stream
  imports Go_Net
begin

text \<open>
  \<open>third_party/yamux\<close>: the frames (\<open>const.go\<close>) and one stream (\<open>stream.go\<close>). All counters are 32-bit words
  whose arithmetic wraps, as in the source. An operation returns its outcome, the frames it hands to the
  session and the new stream; a call that would wait says so. What becomes of a frame that is handed over
  (\<open>waitForSendErr\<close>) is an argument.
\<close>

type_synonym u32 = "32 word"

subsection \<open>Frames\<close>

definition protoVersion :: byte where "protoVersion = 0"
definition typeData :: byte where "typeData = 0"
definition typeWindowUpdate :: byte where "typeWindowUpdate = 1"
definition typePing :: byte where "typePing = 2"
definition typeGoAway :: byte where "typeGoAway = 3"
definition flagSYN :: "16 word" where "flagSYN = 1"
definition flagACK :: "16 word" where "flagACK = 2"
definition flagFIN :: "16 word" where "flagFIN = 4"
definition flagRST :: "16 word" where "flagRST = 8"
definition initialStreamWindow :: u32 where "initialStreamWindow = 256 * 1024"
definition goAwayNormal :: u32 where "goAwayNormal = 0"
definition goAwayProtoErr :: u32 where "goAwayProtoErr = 1"
definition goAwayInternalErr :: u32 where "goAwayInternalErr = 2"
definition headerSize :: nat where "headerSize = 1 + 1 + 2 + 4 + 4"

lemmas flag_defs = flagSYN_def flagACK_def flagFIN_def flagRST_def

text \<open>\<open>binary.BigEndian\<close> on 16 and 32 bits.\<close>

definition be16 :: "byte list \<Rightarrow> 16 word" where
  "be16 bs = push_bit 8 (ucast (bs ! 0)) OR ucast (bs ! 1)"

definition put16 :: "16 word \<Rightarrow> byte list" where
  "put16 v = [ucast (drop_bit 8 v), ucast v]"

definition be32 :: "byte list \<Rightarrow> u32" where
  "be32 bs = push_bit 24 (ucast (bs ! 0)) OR push_bit 16 (ucast (bs ! 1)) OR push_bit 8 (ucast (bs ! 2)) OR ucast (bs ! 3)"

definition put32 :: "u32 \<Rightarrow> byte list" where
  "put32 v = [ucast (drop_bit 24 v), ucast (drop_bit 16 v), ucast (drop_bit 8 v), ucast v]"

definition h_Version :: "byte list \<Rightarrow> byte" where "h_Version h = h ! 0"
definition h_MsgType :: "byte list \<Rightarrow> byte" where "h_MsgType h = h ! 1"
definition h_Flags :: "byte list \<Rightarrow> 16 word" where "h_Flags h = be16 (take 2 (drop 2 h))"
definition h_StreamID :: "byte list \<Rightarrow> u32" where "h_StreamID h = be32 (take 4 (drop 4 h))"
definition h_Length :: "byte list \<Rightarrow> u32" where "h_Length h = be32 (take 4 (drop 8 h))"

definition h_encode :: "byte \<Rightarrow> 16 word \<Rightarrow> u32 \<Rightarrow> u32 \<Rightarrow> byte list" where
  "h_encode msgType flags streamID len = [protoVersion, msgType] @ put16 flags @ put32 streamID @ put32 len"

lemma be16_put16: "be16 (put16 v) = v"
proof (rule bit_word_eqI)
  fix n assume "n < LENGTH(16)"
  then show "bit (be16 (put16 v)) n = bit v n"
    by (cases "n < 8") (auto simp: be16_def put16_def bit_or_iff bit_push_bit_iff bit_ucast_iff bit_drop_bit_eq dest: bit_imp_le_length)
qed

lemma be32_put32: "be32 (put32 v) = v"
proof (rule bit_word_eqI)
  fix n assume n: "n < LENGTH(32)"
  then consider "n < 8" | "8 \<le> n" "n < 16" | "16 \<le> n" "n < 24" | "24 \<le> n" by linarith
  then show "bit (be32 (put32 v)) n = bit v n"
    by cases (use n in \<open>auto simp: be32_def put32_def bit_or_iff bit_push_bit_iff bit_ucast_iff bit_drop_bit_eq dest: bit_imp_le_length\<close>)
qed

text \<open>A header is read back as it was written, and has the fixed size.\<close>

theorem header_roundtrip:
  "length (h_encode ty flags sid len) = headerSize \<and> h_Version (h_encode ty flags sid len) = protoVersion \<and>
   h_MsgType (h_encode ty flags sid len) = ty \<and> h_Flags (h_encode ty flags sid len) = flags \<and>
   h_StreamID (h_encode ty flags sid len) = sid \<and> h_Length (h_encode ty flags sid len) = len"
proof -
  obtain a b where f: "put16 flags = [a, b]" by (simp add: put16_def)
  obtain c d e g where i: "put32 sid = [c, d, e, g]" by (simp add: put32_def)
  obtain h j k l where m: "put32 len = [h, j, k, l]" by (simp add: put32_def)
  show ?thesis
    using be16_put16[of flags] be32_put32[of sid] be32_put32[of len] unfolding f i m
    by (simp add: h_encode_def headerSize_def h_Version_def h_MsgType_def h_Flags_def h_StreamID_def h_Length_def f i m)
qed

text \<open>A frame of a stream, with the payload that follows a data header.\<close>

record frame =
  fr_type :: byte
  fr_flags :: "16 word"
  fr_id :: u32
  fr_len :: u32
  fr_body :: "byte list"

definition has_flag :: "16 word \<Rightarrow> 16 word \<Rightarrow> bool" where
  "has_flag flags f \<longleftrightarrow> flags AND f = f"

lemma has_flag_simps [simp]:
  "\<not> has_flag 0 flagSYN" "\<not> has_flag 0 flagACK" "\<not> has_flag 0 flagFIN" "\<not> has_flag 0 flagRST"
  "has_flag flagSYN flagSYN" "\<not> has_flag flagSYN flagACK" "\<not> has_flag flagSYN flagFIN" "\<not> has_flag flagSYN flagRST"
  "has_flag flagACK flagACK" "\<not> has_flag flagACK flagSYN" "\<not> has_flag flagACK flagFIN" "\<not> has_flag flagACK flagRST"
  "has_flag flagFIN flagFIN" "\<not> has_flag flagFIN flagSYN" "\<not> has_flag flagFIN flagACK" "\<not> has_flag flagFIN flagRST"
  "has_flag flagRST flagRST" "\<not> has_flag flagRST flagSYN" "\<not> has_flag flagRST flagACK" "\<not> has_flag flagRST flagFIN"
  by (simp_all add: has_flag_def flag_defs)

subsection \<open>A stream\<close>

datatype streamState =
    StreamInit | StreamSYNSent | StreamSYNReceived | StreamEstablished
  | StreamLocalClose | StreamRemoteClose | StreamClosed | StreamReset

record ystream =
  ys_id :: u32
  ys_state :: streamState
  ys_recvWindow :: u32
  ys_sendWindow :: u32
  ys_recvBuf :: "byte list"
  ys_closeTimer :: bool   \<comment> \<open>armed\<close>

definition newStream :: "u32 \<Rightarrow> streamState \<Rightarrow> ystream" where
  "newStream sid st = \<lparr>ys_id = sid, ys_state = st, ys_recvWindow = initialStreamWindow,
     ys_sendWindow = initialStreamWindow, ys_recvBuf = [], ys_closeTimer = False\<rparr>"

text \<open>
  The result of \<open>waitForSendErr\<close>: \<open>nil\<close>, \<open>ErrSessionShutdown\<close>, \<open>ErrConnectionWriteTimeout\<close> (both with the frame in the queue
  already, or not) or an error of the connection; and what is written in the end.
\<close>

datatype send_result = SendOk | SendShutdown bool | SendTimeout bool | SendFailed

fun handed :: "send_result \<Rightarrow> frame \<Rightarrow> frame list" where
  "handed SendOk f = [f]"
| "handed (SendShutdown queued) f = (if queued then [f] else [])"
| "handed (SendTimeout queued) f = (if queued then [f] else [])"
| "handed SendFailed f = []"

definition sendFlags :: "ystream \<Rightarrow> 16 word \<times> ystream" where
  "sendFlags s =
     (case ys_state s of
        StreamInit \<Rightarrow> (flagSYN, s\<lparr>ys_state := StreamSYNSent\<rparr>)
      | StreamSYNReceived \<Rightarrow> (flagACK, s\<lparr>ys_state := StreamEstablished\<rparr>)
      | _ \<Rightarrow> (0, s))"

text \<open>\<open>sendWindowUpdate\<close>: its result (\<open>SendOk\<close> when it sends nothing), the frames, the stream; \<open>maxw\<close> is \<open>MaxStreamWindowSize\<close>.\<close>

definition sendWindowUpdate :: "u32 \<Rightarrow> send_result \<Rightarrow> ystream \<Rightarrow> send_result \<times> frame list \<times> ystream" where
  "sendWindowUpdate maxw res s =
     (let bufLen = of_nat (length (ys_recvBuf s));
          delta = (maxw - bufLen) - ys_recvWindow s;
          (flags, s) = sendFlags s
      in if delta < maxw div 2 \<and> flags = 0 then (SendOk, [], s)
         else (res,
               handed res \<lparr>fr_type = typeWindowUpdate, fr_flags = flags, fr_id = ys_id s, fr_len = delta, fr_body = []\<rparr>,
               s\<lparr>ys_recvWindow := ys_recvWindow s + delta\<rparr>))"

datatype read_result = ReadEOF | ReadReset | ReadWait | ReadData "byte list" bool   \<comment> \<open>the data, and whether there was no error\<close>

text \<open>\<open>Read\<close> into a buffer of \<open>n\<close> bytes.\<close>

definition yRead :: "u32 \<Rightarrow> send_result \<Rightarrow> nat \<Rightarrow> ystream \<Rightarrow> read_result \<times> frame list \<times> ystream" where
  "yRead maxw res n s =
     (if ys_state s = StreamReset then (ReadReset, [], s)
      else if ys_recvBuf s = [] then
        (if ys_state s = StreamRemoteClose \<or> ys_state s = StreamClosed then ReadEOF else ReadWait, [], s)
      else let bs = take n (ys_recvBuf s);
               s = s\<lparr>ys_recvBuf := drop n (ys_recvBuf s)\<rparr>;
               (res, frs, s) = sendWindowUpdate maxw res s
           in (ReadData bs (res = SendOk \<or> res \<in> {SendShutdown True, SendShutdown False}), frs, s))"

datatype write_result = WriteClosed | WriteReset | WriteWait | WriteErr | Wrote nat

text \<open>\<open>write\<close>: one data frame, of at most the send window; a failed call leaves the window as it is.\<close>

definition ywrite :: "send_result \<Rightarrow> byte list \<Rightarrow> ystream \<Rightarrow> write_result \<times> frame list \<times> ystream" where
  "ywrite res b s =
     (if ys_state s = StreamLocalClose \<or> ys_state s = StreamClosed then (WriteClosed, [], s)
      else if ys_state s = StreamReset then (WriteReset, [], s)
      else if ys_sendWindow s = 0 then (WriteWait, [], s)
      else let window = ys_sendWindow s;
               (flags, s) = sendFlags s;
               maxl = min window (of_nat (length b));
               f = \<lparr>fr_type = typeData, fr_flags = flags, fr_id = ys_id s, fr_len = maxl, fr_body = take (unat maxl) b\<rparr>
           in if res = SendOk then (Wrote (unat maxl), [f], s\<lparr>ys_sendWindow := ys_sendWindow s - maxl\<rparr>)
              else (WriteErr, handed res f, s))"

definition sendClose :: "send_result \<Rightarrow> ystream \<Rightarrow> frame list \<times> ystream" where
  "sendClose res s =
     (let (flags, s) = sendFlags s
      in (handed res \<lparr>fr_type = typeWindowUpdate, fr_flags = flags OR flagFIN, fr_id = ys_id s, fr_len = 0, fr_body = []\<rparr>, s))"

text \<open>
  \<open>Close\<close>: the frames, the stream, and whether the session forgets it; \<open>None\<close> is the panic in the state that a stream has
  before it is opened. \<open>timeout\<close> is \<open>StreamCloseTimeout > 0\<close>.
\<close>

definition yClose :: "bool \<Rightarrow> send_result \<Rightarrow> ystream \<Rightarrow> (frame list \<times> ystream \<times> bool) option" where
  "yClose timeout res s =
     (if ys_state s \<in> {StreamSYNSent, StreamSYNReceived, StreamEstablished} then
        (case sendClose res (s\<lparr>ys_state := StreamLocalClose, ys_closeTimer := timeout\<rparr>) of (frs, s) \<Rightarrow> Some (frs, s, False))
      else if ys_state s = StreamRemoteClose then
        (case sendClose res (s\<lparr>ys_state := StreamClosed, ys_closeTimer := False\<rparr>) of (frs, s) \<Rightarrow> Some (frs, s, True))
      else if ys_state s = StreamInit then None
      else Some ([], s, False))"

definition forceClose :: "ystream \<Rightarrow> ystream" where
  "forceClose s = s\<lparr>ys_state := StreamClosed\<rparr>"

text \<open>\<open>closeTimeout\<close>: the session forgets the stream and a reset is sent, if it can be queued.\<close>

definition closeTimeout :: "bool \<Rightarrow> ystream \<Rightarrow> frame list \<times> ystream" where
  "closeTimeout queued s =
     (if queued then [\<lparr>fr_type = typeWindowUpdate, fr_flags = flagRST, fr_id = ys_id s, fr_len = 0, fr_body = []\<rparr>] else [],
      forceClose (s\<lparr>ys_closeTimer := False\<rparr>))"

datatype stream_error = ErrUnexpectedFlag | ErrRecvWindowExceeded

text \<open>
  \<open>processFlags\<close>: an error, the stream, whether the session notes it as established and whether the
  session forgets it.
\<close>

definition flag_ACK :: "16 word \<Rightarrow> ystream \<Rightarrow> ystream" where
  "flag_ACK flags s =
     (if has_flag flags flagACK \<and> ys_state s = StreamSYNSent then s\<lparr>ys_state := StreamEstablished\<rparr> else s)"

definition flag_FIN :: "16 word \<Rightarrow> ystream \<Rightarrow> (ystream \<times> bool) option" where
  "flag_FIN flags s =
     (if has_flag flags flagFIN then
        (if ys_state s \<in> {StreamSYNSent, StreamSYNReceived, StreamEstablished} then Some (s\<lparr>ys_state := StreamRemoteClose\<rparr>, False)
         else if ys_state s = StreamLocalClose then Some (s\<lparr>ys_state := StreamClosed\<rparr>, True)
         else None)
      else Some (s, False))"

definition processFlags :: "16 word \<Rightarrow> ystream \<Rightarrow> stream_error option \<times> ystream \<times> bool \<times> bool" where
  "processFlags flags s =
     (let established = has_flag flags flagACK; s = flag_ACK flags s in
      case flag_FIN flags s of
        None \<Rightarrow> (Some ErrUnexpectedFlag, s, established, False)
      | Some (s, closed) \<Rightarrow>
          let closed = (closed \<or> has_flag flags flagRST);
              s = (if has_flag flags flagRST then s\<lparr>ys_state := StreamReset\<rparr> else s);
              s = (if closed then s\<lparr>ys_closeTimer := False\<rparr> else s)
          in (None, s, established, closed))"

text \<open>\<open>incrSendWindow\<close> and \<open>readData\<close> after the flags.\<close>

definition incr_window :: "u32 \<Rightarrow> ystream \<Rightarrow> ystream" where
  "incr_window delta s = s\<lparr>ys_sendWindow := ys_sendWindow s + delta\<rparr>"

definition read_data :: "u32 \<Rightarrow> byte list \<Rightarrow> ystream \<Rightarrow> stream_error option \<times> ystream" where
  "read_data len body s =
     (if len = 0 then (None, s)
      else if len > ys_recvWindow s then (Some ErrRecvWindowExceeded, s)
      else (None, s\<lparr>ys_recvBuf := ys_recvBuf s @ body, ys_recvWindow := ys_recvWindow s - of_nat (length body)\<rparr>))"

definition stream_frame :: "frame \<Rightarrow> ystream \<Rightarrow> stream_error option \<times> ystream \<times> bool \<times> bool" where
  "stream_frame f s =
     (case processFlags (fr_flags f) s of
        (Some e, s, est, cl) \<Rightarrow> (Some e, s, est, cl)
      | (None, s, est, cl) \<Rightarrow>
          if fr_type f = typeWindowUpdate then (None, incr_window (fr_len f) s, est, cl)
          else (case read_data (fr_len f) (fr_body f) s of (e, s) \<Rightarrow> (e, s, est, cl)))"

end
