(* ===== verification/Yamux_Pair.thy ===== *)
theory Yamux_Pair
  imports Yamux_Stream Step_System "HOL-Library.Sublist"
begin

text \<open>
  The two ends of one yamux stream and the connection between them, which keeps the frames of each direction in
  order. A side is a boolean, \<open>True\<close> for the end that opened the stream. Each end writes, reads, closes, gives up
  waiting for the other's close, and takes the next frame off the wire; every interleaving of these is a history, and
  each is one step (the gap within \<open>closeTimeout\<close> has the lemma \<open>fin_during_close_timeout\<close>). The sends
  succeed: one that fails belongs to a session that shuts down, except for a write that times out while its frame is queued
  (\<open>timed_out_write_overruns\<close>).

  The invariant is flow control: what an end may still send, what is on its way to the other end and what is on its way back
  as credit add up to what the other end is ready to receive.
\<close>

record pair =
  p_end :: "bool \<Rightarrow> ystream"
  p_present :: "bool \<Rightarrow> bool"         \<comment> \<open>the stream is in the map of this end's session\<close>
  p_wire :: "bool \<Rightarrow> frame list"      \<comment> \<open>the frames that this side has sent and the other has not taken\<close>
  p_sent :: "bool \<Rightarrow> byte list"       \<comment> \<open>what the application has written\<close>
  p_got :: "bool \<Rightarrow> byte list"        \<comment> \<open>what the application has read\<close>
  p_error :: "bool \<Rightarrow> bool"           \<comment> \<open>a frame was refused\<close>

definition set_end :: "bool \<Rightarrow> ystream \<Rightarrow> frame list \<Rightarrow> pair \<Rightarrow> pair" where
  "set_end x s frs p = p\<lparr>p_end := (p_end p)(x := s), p_wire := (p_wire p)(x := p_wire p x @ frs)\<rparr>"

text \<open>\<open>OpenStream\<close> has sent its first window update; the other session makes its stream when that arrives.\<close>

definition pair_start :: "u32 \<Rightarrow> u32 \<Rightarrow> pair" where
  "pair_start maxw sid =
     (case sendWindowUpdate maxw SendOk (newStream sid StreamInit) of
        (_, frs, s) \<Rightarrow>
          \<lparr>p_end = (\<lambda>x. if x then s else newStream sid StreamSYNReceived), p_present = (\<lambda>_. True),
           p_wire = (\<lambda>x. if x then frs else []), p_sent = (\<lambda>_. []), p_got = (\<lambda>_. []), p_error = (\<lambda>_. False)\<rparr>)"

datatype pair_event =
    PWrite bool "byte list"
  | PRead bool nat
  | PUpdate bool             \<comment> \<open>the window update of \<open>AcceptStream\<close>\<close>
  | PClose bool bool         \<comment> \<open>and whether there is a close timeout\<close>
  | PTimeout bool
  | PTake bool

fun pair_next :: "u32 \<Rightarrow> pair_event \<Rightarrow> pair \<Rightarrow> pair" where
  "pair_next maxw (PWrite x b) p =
     (if b = [] then p
      else case ywrite SendOk b (p_end p x) of
        (Wrote n, frs, s) \<Rightarrow> (set_end x s frs p)\<lparr>p_sent := (p_sent p)(x := p_sent p x @ take n b)\<rparr>
      | (_, frs, s) \<Rightarrow> set_end x s frs p)"
| "pair_next maxw (PRead x n) p =
     (case yRead maxw SendOk n (p_end p x) of
        (ReadData bs ok, frs, s) \<Rightarrow> (set_end x s frs p)\<lparr>p_got := (p_got p)(x := p_got p x @ bs)\<rparr>
      | (_, frs, s) \<Rightarrow> set_end x s frs p)"
| "pair_next maxw (PUpdate x) p =
     (case sendWindowUpdate maxw SendOk (p_end p x) of (_, frs, s) \<Rightarrow> set_end x s frs p)"
| "pair_next maxw (PClose x timeout) p =
     (case yClose timeout SendOk (p_end p x) of
        None \<Rightarrow> p
      | Some (frs, s, forget) \<Rightarrow>
          (set_end x s frs p)\<lparr>p_present := (p_present p)(x := p_present p x \<and> \<not> forget)\<rparr>)"
| "pair_next maxw (PTimeout x) p =
     (if ys_closeTimer (p_end p x) then
        (case closeTimeout True (p_end p x) of
           (frs, s) \<Rightarrow> (set_end x s frs p)\<lparr>p_present := (p_present p)(x := False)\<rparr>)
      else p)"
| "pair_next maxw (PTake x) p =
     (case p_wire p (\<not> x) of
        [] \<Rightarrow> p
      | f # fs \<Rightarrow>
          let p = p\<lparr>p_wire := (p_wire p)((\<not> x) := fs)\<rparr> in
          if \<not> p_present p x then p
          else (case stream_frame f (p_end p x) of
                  (err, s, est, forget) \<Rightarrow>
                    p\<lparr>p_end := (p_end p)(x := s), p_present := (p_present p)(x := \<not> forget),
                      p_error := (p_error p)(x := p_error p x \<or> err \<noteq> None)\<rparr>))"

definition pair_step :: "u32 \<Rightarrow> pair \<Rightarrow> pair_event \<Rightarrow> pair \<Rightarrow> bool" where
  "pair_step maxw p e p' \<longleftrightarrow> p' = pair_next maxw e p"

subsection \<open>The invariant\<close>

text \<open>The payload and the credit on a wire.\<close>

fun payload :: "frame list \<Rightarrow> byte list" where
  "payload [] = []"
| "payload (f # fs) = (if fr_type f = typeData then fr_body f else []) @ payload fs"

fun credit :: "frame list \<Rightarrow> nat" where
  "credit [] = 0"
| "credit (f # fs) = (if fr_type f = typeWindowUpdate then unat (fr_len f) else 0) + credit fs"

definition fins :: "frame list \<Rightarrow> nat" where
  "fins fs = length (filter (\<lambda>f. has_flag (fr_flags f) flagFIN) fs)"

definition wf_frame :: "frame \<Rightarrow> bool" where
  "wf_frame f \<longleftrightarrow> (fr_type f = typeWindowUpdate \<and> fr_body f = [] \<or> fr_type f = typeData \<and> length (fr_body f) = unat (fr_len f)) \<and>
     (has_flag (fr_flags f) flagRST \<longrightarrow> \<not> has_flag (fr_flags f) flagFIN)"

definition fin_unsent :: "ystream \<Rightarrow> bool" where
  "fin_unsent s \<longleftrightarrow> ys_state s \<in> {StreamSYNSent, StreamSYNReceived, StreamEstablished, StreamRemoteClose}"

definition live :: "ystream \<Rightarrow> bool" where
  "live s \<longleftrightarrow> fin_unsent s \<or> ys_state s = StreamLocalClose"

text \<open>The direction from \<open>x\<close> to the other side.\<close>

definition flow_inv :: "u32 \<Rightarrow> pair \<Rightarrow> bool \<Rightarrow> bool" where
  "flow_inv maxw p x \<longleftrightarrow>
     (let s = p_end p x; r = p_end p (\<not> x) in
      unat (ys_sendWindow s) + length (payload (p_wire p x)) + credit (p_wire p (\<not> x)) \<le> unat (ys_recvWindow r) \<and>
      (p_present p x \<and> p_present p (\<not> x) \<longrightarrow>
        unat (ys_sendWindow s) + length (payload (p_wire p x)) + credit (p_wire p (\<not> x)) = unat (ys_recvWindow r)) \<and>
      unat (ys_recvWindow r) + length (ys_recvBuf r) \<le> unat maxw \<and>
      131072 \<le> unat (ys_recvWindow r) + length (ys_recvBuf r))"

definition data_inv :: "pair \<Rightarrow> bool \<Rightarrow> bool" where
  "data_inv p x \<longleftrightarrow>
     (p_present p (\<not> x) \<longrightarrow> p_sent p x = p_got p (\<not> x) @ ys_recvBuf (p_end p (\<not> x)) @ payload (p_wire p x)) \<and>
     (\<exists>rest. p_sent p x = p_got p (\<not> x) @ ys_recvBuf (p_end p (\<not> x)) @ rest)"

definition fin_inv :: "pair \<Rightarrow> bool \<Rightarrow> bool" where
  "fin_inv p x \<longleftrightarrow>
     (p_present p x \<longleftrightarrow> live (p_end p x)) \<and> ys_state (p_end p x) \<noteq> StreamInit \<and> \<not> p_error p x \<and> (\<forall>f \<in> set (p_wire p x). wf_frame f) \<and>
     fins (p_wire p x) \<le> 1 \<and>
     (fin_unsent (p_end p x) \<longrightarrow> fins (p_wire p x) = 0 \<and> ys_state (p_end p (\<not> x)) \<noteq> StreamRemoteClose) \<and>
     (ys_state (p_end p (\<not> x)) = StreamRemoteClose \<longrightarrow> fins (p_wire p x) = 0)"

definition pair_inv :: "u32 \<Rightarrow> pair \<Rightarrow> bool" where
  "pair_inv maxw p \<longleftrightarrow> (\<forall>x. flow_inv maxw p x \<and> data_inv p x \<and> fin_inv p x)"

lemma payload_append [simp]: "payload (xs @ ys) = payload xs @ payload ys"
  by (induction xs) simp_all

lemma credit_append [simp]: "credit (xs @ ys) = credit xs + credit ys"
  by (induction xs) simp_all

lemma fins_simps [simp]:
  "fins [] = 0" "fins (f # fs) = (if has_flag (fr_flags f) flagFIN then 1 else 0) + fins fs" "fins (xs @ ys) = fins xs + fins ys"
  by (simp_all add: fins_def)

lemma frame_types [simp]: "typeData \<noteq> typeWindowUpdate" "typeWindowUpdate \<noteq> typeData"
  by (simp_all add: typeData_def typeWindowUpdate_def)

text \<open>What a call of one end's application may do.\<close>

definition local_ok :: "u32 \<Rightarrow> ystream \<Rightarrow> ystream \<Rightarrow> frame list \<Rightarrow> bool" where
  "local_ok maxw s s' frs \<longleftrightarrow>
     unat (ys_sendWindow s') + length (payload frs) = unat (ys_sendWindow s) \<and>
     unat (ys_recvWindow s') = unat (ys_recvWindow s) + credit frs \<and>
     unat (ys_recvWindow s') + length (ys_recvBuf s') \<le> unat maxw \<and>
     131072 \<le> unat (ys_recvWindow s') + length (ys_recvBuf s') \<and>
     (\<forall>f \<in> set frs. wf_frame f) \<and> fins frs \<le> 1 \<and> (fins frs = 1 \<longrightarrow> fin_unsent s) \<and>
     (fin_unsent s' \<longrightarrow> fin_unsent s \<and> fins frs = 0) \<and>
     (ys_state s' = StreamRemoteClose \<longrightarrow> ys_state s = StreamRemoteClose) \<and> ys_state s' \<noteq> StreamInit"

definition local_change :: "bool \<Rightarrow> ystream \<Rightarrow> frame list \<Rightarrow> bool \<Rightarrow> byte list \<Rightarrow> byte list \<Rightarrow> pair \<Rightarrow> pair" where
  "local_change x s frs pres snt gt p =
     p\<lparr>p_end := (p_end p)(x := s), p_wire := (p_wire p)(x := p_wire p x @ frs), p_present := (p_present p)(x := pres),
       p_sent := (p_sent p)(x := snt), p_got := (p_got p)(x := gt)\<rparr>"

lemma local_change_sel [simp]:
  "p_end (local_change x s frs pres snt gt p) x = s"
  "p_end (local_change x s frs pres snt gt p) (\<not> x) = p_end p (\<not> x)"
  "p_wire (local_change x s frs pres snt gt p) x = p_wire p x @ frs"
  "p_wire (local_change x s frs pres snt gt p) (\<not> x) = p_wire p (\<not> x)"
  "p_present (local_change x s frs pres snt gt p) x = pres"
  "p_present (local_change x s frs pres snt gt p) (\<not> x) = p_present p (\<not> x)"
  "p_sent (local_change x s frs pres snt gt p) x = snt"
  "p_sent (local_change x s frs pres snt gt p) (\<not> x) = p_sent p (\<not> x)"
  "p_got (local_change x s frs pres snt gt p) x = gt"
  "p_got (local_change x s frs pres snt gt p) (\<not> x) = p_got p (\<not> x)"
  "p_error (local_change x s frs pres snt gt p) = p_error p"
  by (simp_all add: local_change_def)

lemma pair_invI:
  assumes "flow_inv maxw p x" "data_inv p x" "fin_inv p x" "flow_inv maxw p (\<not> x)" "data_inv p (\<not> x)" "fin_inv p (\<not> x)"
  shows "pair_inv maxw p"
  unfolding pair_inv_def
proof
  fix z
  have "z = x \<or> z = (\<not> x)" by blast
  then show "flow_inv maxw p z \<and> data_inv p z \<and> fin_inv p z" using assms by blast
qed

lemma pair_invD:
  assumes "pair_inv maxw p"
  shows "flow_inv maxw p x" "data_inv p x" "fin_inv p x"
  using assms by (simp_all add: pair_inv_def)

lemma local_change_inv:
  assumes inv: "pair_inv maxw p" and ok: "local_ok maxw (p_end p x) s frs" and pres: "pres \<longleftrightarrow> live s" "pres \<longrightarrow> p_present p x"
    and snt: "snt = p_sent p x @ payload frs" and gt: "gt @ ys_recvBuf s = p_got p x @ ys_recvBuf (p_end p x)"
  shows "pair_inv maxw (local_change x s frs pres snt gt p)"
proof (rule pair_invI[of _ _ x])
  let ?p = "local_change x s frs pres snt gt p"
  note px = pair_invD[OF inv, of x] and pn = pair_invD[OF inv, of "\<not> x"]
  note ok' = ok[unfolded local_ok_def]
  show "flow_inv maxw ?p x" using px(1) ok' pres(2) by (auto simp: flow_inv_def Let_def)
  show "flow_inv maxw ?p (\<not> x)" using pn(1) ok' pres(2) by (auto simp: flow_inv_def Let_def)
  show "data_inv ?p x" using px(2) snt by (auto simp: data_inv_def)
  have g: "gt @ ys_recvBuf s @ r = p_got p x @ ys_recvBuf (p_end p x) @ r" for r
    using gt by (metis append.assoc)
  show "data_inv ?p (\<not> x)" using pn(2) pres(2) by (simp add: data_inv_def g)
  show "fin_inv ?p x" using px(3) ok' pres(1) by (auto simp: fin_inv_def)
  show "fin_inv ?p (\<not> x)" using pn(3) ok' by (auto simp: fin_inv_def)
qed

subsection \<open>The calls of the application\<close>

lemma live_upd [simp]: "live (s\<lparr>ys_recvBuf := b\<rparr>) = live s" "fin_unsent (s\<lparr>ys_recvBuf := b\<rparr>) = fin_unsent s"
  "live (s\<lparr>ys_recvWindow := w\<rparr>) = live s" "fin_unsent (s\<lparr>ys_recvWindow := w\<rparr>) = fin_unsent s"
  "live (s\<lparr>ys_sendWindow := w\<rparr>) = live s" "fin_unsent (s\<lparr>ys_sendWindow := w\<rparr>) = fin_unsent s"
  by (simp_all add: live_def fin_unsent_def)

lemma sendFlags_state:
  assumes "sendFlags s = (fl, s')" "ys_state s \<noteq> StreamInit"
  shows "ys_recvWindow s' = ys_recvWindow s" "ys_sendWindow s' = ys_sendWindow s" "ys_recvBuf s' = ys_recvBuf s" "ys_id s' = ys_id s"
    "ys_closeTimer s' = ys_closeTimer s"
    "\<not> has_flag fl flagFIN" "\<not> has_flag fl flagRST" "fin_unsent s' = fin_unsent s" "live s' = live s"
    "ys_state s' = StreamRemoteClose \<longleftrightarrow> ys_state s = StreamRemoteClose"
    "ys_state s' = StreamLocalClose \<longleftrightarrow> ys_state s = StreamLocalClose"
    "\<not> has_flag (fl OR flagFIN) flagRST" "has_flag (fl OR flagFIN) flagFIN" "ys_state s' \<noteq> StreamInit"
proof -
  have fl: "fl = 0 \<or> fl = flagACK" using assms by (auto simp: sendFlags_def split: streamState.splits)
  show "\<not> has_flag (fl OR flagFIN) flagRST" "has_flag (fl OR flagFIN) flagFIN"
    using fl by (auto simp: has_flag_def flag_defs)
  show "ys_recvWindow s' = ys_recvWindow s" "ys_sendWindow s' = ys_sendWindow s" "ys_recvBuf s' = ys_recvBuf s" "ys_id s' = ys_id s"
    "ys_closeTimer s' = ys_closeTimer s"
    "\<not> has_flag fl flagFIN" "\<not> has_flag fl flagRST" "fin_unsent s' = fin_unsent s" "live s' = live s"
    "ys_state s' = StreamRemoteClose \<longleftrightarrow> ys_state s = StreamRemoteClose"
    "ys_state s' = StreamLocalClose \<longleftrightarrow> ys_state s = StreamLocalClose" "ys_state s' \<noteq> StreamInit"
    using assms by (auto simp: sendFlags_def fin_unsent_def live_def split: streamState.splits)
qed

lemma unat_u32_less: "unat (w :: u32) < 4294967296"
proof -
  have "unat w < 2 ^ LENGTH(32)" by (rule unsigned_less)
  then show ?thesis by simp
qed

lemma unat_window: "n \<le> unat (w :: u32) \<Longrightarrow> unat (of_nat n :: u32) = n"
  using unat_u32_less[of w] by (simp add: unsigned_of_nat take_bit_eq_mod)

text \<open>The window update: its delta is what the receive window lacks.\<close>

lemma unat_delta:
  fixes maxw rw :: u32
  assumes "unat rw + n \<le> unat maxw"
  shows "unat ((maxw - of_nat n) - rw) = unat maxw - n - unat rw"
proof -
  have n: "unat (of_nat n :: u32) = n" using assms unat_window[of n maxw] by simp
  have "of_nat n \<le> maxw" using assms n by (simp add: word_le_nat_alt)
  then have 1: "unat (maxw - of_nat n) = unat maxw - n" using n by (simp add: unat_sub)
  then have "rw \<le> maxw - of_nat n" using assms by (simp add: word_le_nat_alt)
  then show ?thesis using 1 by (simp add: unat_sub)
qed

lemma unat_add_delta:
  fixes maxw rw :: u32
  assumes "unat rw + n \<le> unat maxw"
  shows "unat (rw + ((maxw - of_nat n) - rw)) = unat maxw - n"
proof -
  have "rw + ((maxw - of_nat n) - rw) = maxw - of_nat n" by simp
  moreover have n: "unat (of_nat n :: u32) = n" using assms unat_window[of n maxw] by simp
  moreover have "of_nat n \<le> maxw" using assms n by (simp add: word_le_nat_alt)
  ultimately show ?thesis by (simp add: unat_sub)
qed

lemma sendWindowUpdate_ok:
  assumes "sendWindowUpdate maxw SendOk s = (res, frs, s')" "ys_state s \<noteq> StreamInit"
    and "unat (ys_recvWindow s) + length (ys_recvBuf s) \<le> unat maxw" and "262144 \<le> unat maxw"
  shows "local_ok maxw s s' frs" "live s' = live s" "ys_recvBuf s' = ys_recvBuf s" "payload frs = []"
proof -
  let ?n = "length (ys_recvBuf s)" and ?d = "(maxw - of_nat (length (ys_recvBuf s))) - ys_recvWindow s"
  obtain fl s1 where f: "sendFlags s = (fl, s1)" by fastforce
  note sf = sendFlags_state[OF f assms(2)]
  have d: "unat ?d = unat maxw - ?n - unat (ys_recvWindow s)" by (rule unat_delta[OF assms(3)])
  have a: "unat (ys_recvWindow s + ?d) = unat maxw - ?n" by (rule unat_add_delta[OF assms(3)])
  have h: "unat (maxw div 2) = unat maxw div 2" by (simp add: unat_div)
  have "local_ok maxw s s' frs \<and> live s' = live s \<and> ys_recvBuf s' = ys_recvBuf s \<and> payload frs = []"
  proof (cases "?d < maxw div 2 \<and> fl = 0")
    case True
    then have r: "frs = []" "s' = s1" using assms(1) f by (auto simp: sendWindowUpdate_def Let_def)
    have "unat ?d < unat maxw div 2" using True h by (simp add: word_less_nat_alt)
    then have "131072 \<le> unat (ys_recvWindow s) + ?n" using d assms(4) by linarith
    then show ?thesis
      using r sf assms(3) by (auto simp: local_ok_def)
  next
    case False
    then have r: "frs = [\<lparr>fr_type = typeWindowUpdate, fr_flags = fl, fr_id = ys_id s1, fr_len = ?d, fr_body = []\<rparr>]"
      "s' = s1\<lparr>ys_recvWindow := ys_recvWindow s1 + ?d\<rparr>"
      using assms(1) f by (auto simp: sendWindowUpdate_def Let_def)
    have "local_ok maxw s s' frs"
      using r sf a d assms(3,4) by (auto simp: local_ok_def wf_frame_def fin_unsent_def)
    then show ?thesis
      using r sf by (auto simp: live_def fin_unsent_def)
  qed
  then show "local_ok maxw s s' frs" "live s' = live s" "ys_recvBuf s' = ys_recvBuf s" "payload frs = []" by simp_all
qed

lemma end_bounds:
  assumes "pair_inv maxw p"
  shows "unat (ys_recvWindow (p_end p x)) + length (ys_recvBuf (p_end p x)) \<le> unat maxw"
    "131072 \<le> unat (ys_recvWindow (p_end p x)) + length (ys_recvBuf (p_end p x))"
    "ys_state (p_end p x) \<noteq> StreamInit" "p_present p x \<longleftrightarrow> live (p_end p x)"
  using pair_invD[OF assms, of "\<not> x"] pair_invD[OF assms, of x] by (simp_all add: flow_inv_def fin_inv_def Let_def)

lemma no_change: "local_change x (p_end p x) [] (p_present p x) (p_sent p x) (p_got p x) p = p"
  by (simp add: local_change_def)

lemma pair_update_inv:
  assumes "pair_inv maxw p" "262144 \<le> unat maxw"
  shows "pair_inv maxw (pair_next maxw (PUpdate x) p)"
proof -
  obtain res frs s where u: "sendWindowUpdate maxw SendOk (p_end p x) = (res, frs, s)" by (metis prod_cases3)
  note b = end_bounds[OF assms(1), of x]
  note ok = sendWindowUpdate_ok[OF u b(3,1) assms(2)]
  have "pair_inv maxw (local_change x s frs (p_present p x) (p_sent p x) (p_got p x) p)"
    by (rule local_change_inv[OF assms(1) ok(1)]) (simp_all add: ok b)
  then show ?thesis by (simp add: u set_end_def local_change_def)
qed

lemma pair_read_inv:
  assumes "pair_inv maxw p" "262144 \<le> unat maxw"
  shows "pair_inv maxw (pair_next maxw (PRead x n) p)"
proof (cases "ys_state (p_end p x) = StreamReset \<or> ys_recvBuf (p_end p x) = []")
  case True
  then show ?thesis using assms(1) by (auto simp: yRead_def set_end_def split: read_result.split)
next
  case False
  let ?s = "p_end p x"
  let ?d = "?s\<lparr>ys_recvBuf := drop n (ys_recvBuf ?s)\<rparr>"
  obtain res frs s where u: "sendWindowUpdate maxw SendOk ?d = (res, frs, s)" by (metis prod_cases3)
  note b = end_bounds[OF assms(1), of x]
  have "ys_state ?d \<noteq> StreamInit" "unat (ys_recvWindow ?d) + length (ys_recvBuf ?d) \<le> unat maxw" using b by simp_all
  note ok = sendWindowUpdate_ok[OF u this assms(2)]
  have l: "local_ok maxw ?s s frs" using ok(1) by (simp add: local_ok_def)
  have "pair_inv maxw (local_change x s frs (p_present p x) (p_sent p x) (p_got p x @ take n (ys_recvBuf ?s)) p)"
    by (rule local_change_inv[OF assms(1) l]) (simp_all add: ok b)
  then show ?thesis using False by (simp add: yRead_def u Let_def set_end_def local_change_def)
qed

lemma ywrite_ok:
  assumes "ywrite SendOk b s = (Wrote n, frs, s')" "ys_state s \<noteq> StreamInit"
    and "unat (ys_recvWindow s) + length (ys_recvBuf s) \<le> unat maxw" "131072 \<le> unat (ys_recvWindow s) + length (ys_recvBuf s)"
  shows "local_ok maxw s s' frs" "live s' = live s" "ys_recvBuf s' = ys_recvBuf s" "payload frs = take n b"
proof -
  obtain fl s1 where f: "sendFlags s = (fl, s1)" by fastforce
  note sf = sendFlags_state[OF f assms(2)]
  define m where "m = min (ys_sendWindow s) (of_nat (length b) :: u32)"
  have m: "unat m \<le> unat (ys_sendWindow s)" "unat m \<le> length b"
    by (auto simp: m_def min_def word_le_nat_alt unsigned_of_nat take_bit_eq_mod split: if_splits)
  have r: "n = unat m" "s' = s1\<lparr>ys_sendWindow := ys_sendWindow s1 - m\<rparr>"
    "frs = [\<lparr>fr_type = typeData, fr_flags = fl, fr_id = ys_id s1, fr_len = m, fr_body = take (unat m) b\<rparr>]"
    using assms(1) f by (auto simp: ywrite_def Let_def m_def split: if_splits)
  have w: "unat (ys_sendWindow s - m) = unat (ys_sendWindow s) - unat m" using m(1) by (simp add: unat_sub word_le_nat_alt)
  show "local_ok maxw s s' frs"
    using r sf w m assms(3,4) by (auto simp: local_ok_def wf_frame_def fin_unsent_def)
  show "live s' = live s" "ys_recvBuf s' = ys_recvBuf s" "payload frs = take n b"
    using r sf by (auto simp: live_def fin_unsent_def)
qed

lemma ywrite_idle:
  assumes "ywrite SendOk b s = (res, frs, s')" "\<nexists>n. res = Wrote n"
  shows "frs = [] \<and> s' = s"
  using assms by (auto simp: ywrite_def Let_def split: if_splits prod.splits)

lemma pair_write_inv:
  assumes "pair_inv maxw p"
  shows "pair_inv maxw (pair_next maxw (PWrite x b) p)"
proof -
  obtain res frs s where w: "ywrite SendOk b (p_end p x) = (res, frs, s)" by (metis prod_cases3)
  note bd = end_bounds[OF assms, of x]
  show ?thesis
  proof (cases "\<exists>n. res = Wrote n")
    case True
    then obtain n where n: "res = Wrote n" by blast
    note ok = ywrite_ok[OF w[unfolded n] bd(3,1,2)]
    have "pair_inv maxw (local_change x s frs (p_present p x) (p_sent p x @ take n b) (p_got p x) p)"
      by (rule local_change_inv[OF assms ok(1)]) (simp_all add: ok bd)
    then show ?thesis using assms by (simp add: w n set_end_def local_change_def)
  next
    case False
    then show ?thesis
      using assms ywrite_idle[OF w False] by (auto simp: w set_end_def split: write_result.split)
  qed
qed

lemma yClose_ok:
  assumes "yClose timeout SendOk s = Some (frs, s', forget)"
    and "unat (ys_recvWindow s) + length (ys_recvBuf s) \<le> unat maxw" "131072 \<le> unat (ys_recvWindow s) + length (ys_recvBuf s)"
  shows "local_ok maxw s s' frs" "live s' \<longleftrightarrow> live s \<and> \<not> forget" "ys_recvBuf s' = ys_recvBuf s" "payload frs = []"
proof -
  have fin: "local_ok maxw s s' frs \<and> live s' = (st = StreamLocalClose) \<and> ys_recvBuf s' = ys_recvBuf s \<and> payload frs = []"
    if c: "sendClose SendOk (s\<lparr>ys_state := st, ys_closeTimer := t\<rparr>) = (frs, s')" and st: "st = StreamLocalClose \<or> st = StreamClosed"
      and u: "fin_unsent s" for st t
  proof -
    obtain fl s1 where f: "sendFlags (s\<lparr>ys_state := st, ys_closeTimer := t\<rparr>) = (fl, s1)" by fastforce
    then have "s1 = s\<lparr>ys_state := st, ys_closeTimer := t\<rparr>" "fl = 0" using st by (auto simp: sendFlags_def)
    then have "s' = s\<lparr>ys_state := st, ys_closeTimer := t\<rparr>"
      "frs = [\<lparr>fr_type = typeWindowUpdate, fr_flags = flagFIN, fr_id = ys_id s, fr_len = 0, fr_body = []\<rparr>]"
      using c f by (auto simp: sendClose_def)
    then show ?thesis
      using st u assms(2,3) by (auto simp: local_ok_def wf_frame_def fin_unsent_def live_def)
  qed
  from assms(1) consider
      (both) "fin_unsent s" "\<not> forget" "sendClose SendOk (s\<lparr>ys_state := StreamLocalClose, ys_closeTimer := timeout\<rparr>) = (frs, s')"
    | (half) "fin_unsent s" "forget" "sendClose SendOk (s\<lparr>ys_state := StreamClosed, ys_closeTimer := False\<rparr>) = (frs, s')"
    | (none) "frs = []" "s' = s" "\<not> forget" "ys_state s \<noteq> StreamInit"
    by (auto simp: yClose_def fin_unsent_def split: if_splits prod.splits)
  then have "local_ok maxw s s' frs \<and> (live s' \<longleftrightarrow> live s \<and> \<not> forget) \<and> ys_recvBuf s' = ys_recvBuf s \<and> payload frs = []"
  proof cases
    case both
    then show ?thesis using fin[OF both(3)] by (simp add: live_def)
  next
    case half
    then show ?thesis using fin[OF half(3)] by simp
  next
    case none
    then show ?thesis using assms(2,3) by (auto simp: local_ok_def)
  qed
  then show "local_ok maxw s s' frs" "live s' \<longleftrightarrow> live s \<and> \<not> forget" "ys_recvBuf s' = ys_recvBuf s" "payload frs = []" by simp_all
qed

lemma pair_close_inv:
  assumes "pair_inv maxw p"
  shows "pair_inv maxw (pair_next maxw (PClose x timeout) p)"
proof (cases "yClose timeout SendOk (p_end p x)")
  case None
  then show ?thesis using assms by simp
next
  case (Some r)
  obtain frs s forget where r: "r = (frs, s, forget)" by (metis prod_cases3)
  note b = end_bounds[OF assms, of x]
  note ok = yClose_ok[OF Some[unfolded r] b(1,2)]
  have "pair_inv maxw (local_change x s frs (p_present p x \<and> \<not> forget) (p_sent p x) (p_got p x) p)"
    by (rule local_change_inv[OF assms ok(1)]) (auto simp: ok b)
  then show ?thesis by (simp add: Some r set_end_def local_change_def)
qed

lemma pair_timeout_inv:
  assumes "pair_inv maxw p"
  shows "pair_inv maxw (pair_next maxw (PTimeout x) p)"
proof (cases "ys_closeTimer (p_end p x)")
  case True
  let ?s = "p_end p x"
  obtain frs s where t: "closeTimeout True ?s = (frs, s)" by fastforce
  note b = end_bounds[OF assms, of x]
  have s: "local_ok maxw ?s s frs" "\<not> live s" "ys_recvBuf s = ys_recvBuf ?s" "payload frs = []"
    using t b by (auto simp: closeTimeout_def forceClose_def local_ok_def wf_frame_def fin_unsent_def live_def)
  have "pair_inv maxw (local_change x s frs False (p_sent p x) (p_got p x) p)"
    by (rule local_change_inv[OF assms s(1)]) (simp_all add: s)
  then show ?thesis using True by (simp add: t set_end_def local_change_def)
qed (use assms in simp)

subsection \<open>Taking a frame\<close>

text \<open>What an honest frame does to a stream that the session knows: it is never refused.\<close>

lemma processFlags_ok:
  assumes "live s" "has_flag fl flagFIN \<longrightarrow> ys_state s \<noteq> StreamRemoteClose" "\<not> (has_flag fl flagRST \<and> has_flag fl flagFIN)"
    and "processFlags fl s = (e, s', est, forget)"
  shows "e = None" "live s' \<longleftrightarrow> \<not> forget" "ys_state s' \<noteq> StreamInit" "fin_unsent s' \<longrightarrow> fin_unsent s"
    "ys_state s' = StreamRemoteClose \<longrightarrow> ys_state s = StreamRemoteClose \<or> has_flag fl flagFIN"
    "ys_recvWindow s' = ys_recvWindow s" "ys_sendWindow s' = ys_sendWindow s" "ys_recvBuf s' = ys_recvBuf s"
  using assms
  by (cases "ys_state s"; auto simp: processFlags_def flag_ACK_def flag_FIN_def live_def fin_unsent_def Let_def split: if_splits)+

text \<open>The credit of a frame, and its payload.\<close>

lemma stream_frame_ok:
  assumes "live s" "has_flag (fr_flags f) flagFIN \<longrightarrow> ys_state s \<noteq> StreamRemoteClose" "wf_frame f"
    and "length (payload [f]) \<le> unat (ys_recvWindow s)" "unat (ys_sendWindow s) + credit [f] < 4294967296"
    and "stream_frame f s = (e, s', est, forget)"
  shows "e = None" "live s' \<longleftrightarrow> \<not> forget" "ys_state s' \<noteq> StreamInit" "fin_unsent s' \<longrightarrow> fin_unsent s"
    "ys_state s' = StreamRemoteClose \<longrightarrow> ys_state s = StreamRemoteClose \<or> has_flag (fr_flags f) flagFIN"
    "unat (ys_recvWindow s') + length (payload [f]) = unat (ys_recvWindow s)"
    "unat (ys_sendWindow s') = unat (ys_sendWindow s) + credit [f]"
    "ys_recvBuf s' = ys_recvBuf s @ payload [f]"
proof -
  obtain e1 s1 est1 forget1 where pf: "processFlags (fr_flags f) s = (e1, s1, est1, forget1)" by (metis prod_cases4)
  have rst: "\<not> (has_flag (fr_flags f) flagRST \<and> has_flag (fr_flags f) flagFIN)" using assms(3) by (simp add: wf_frame_def)
  note p = processFlags_ok[OF assms(1,2) rst pf]
  consider (upd) "fr_type f = typeWindowUpdate" "fr_body f = []"
    | (data) "fr_type f = typeData" "length (fr_body f) = unat (fr_len f)"
    using assms(3) by (auto simp: wf_frame_def)
  then have "e = None \<and> (live s' \<longleftrightarrow> \<not> forget) \<and> ys_state s' \<noteq> StreamInit \<and> (fin_unsent s' \<longrightarrow> fin_unsent s) \<and>
    (ys_state s' = StreamRemoteClose \<longrightarrow> ys_state s = StreamRemoteClose \<or> has_flag (fr_flags f) flagFIN) \<and>
    unat (ys_recvWindow s') + length (payload [f]) = unat (ys_recvWindow s) \<and>
    unat (ys_sendWindow s') = unat (ys_sendWindow s) + credit [f] \<and> ys_recvBuf s' = ys_recvBuf s @ payload [f]"
  proof cases
    case upd
    have "unat (ys_sendWindow s + fr_len f) = unat (ys_sendWindow s) + unat (fr_len f)"
      using assms(5) upd by (simp add: unat_word_ariths(1))
    moreover have "e = None" "s' = s1\<lparr>ys_sendWindow := ys_sendWindow s1 + fr_len f\<rparr>" "forget = forget1"
      using assms(6) p(1) upd by (simp_all add: stream_frame_def pf incr_window_def)
    ultimately show ?thesis using p upd by simp
  next
    case data
    have len: "fr_len f \<le> ys_recvWindow s" using assms(4) data by (simp add: word_le_nat_alt)
    have sub: "unat (ys_recvWindow s - fr_len f) = unat (ys_recvWindow s) - unat (fr_len f)" using len by (simp add: unat_sub)
    have body: "of_nat (length (fr_body f)) = fr_len f" using data(2) by simp
    show ?thesis
    proof (cases "fr_len f = 0")
      case True
      then have "e = None" "s' = s1" "forget = forget1"
        using assms(6) p(1) data by (simp_all add: stream_frame_def pf read_data_def)
      then show ?thesis using p data True by simp
    next
      case False
      then have "e = None" "s' = s1\<lparr>ys_recvBuf := ys_recvBuf s1 @ fr_body f, ys_recvWindow := ys_recvWindow s1 - fr_len f\<rparr>" "forget = forget1"
        using assms(6) p(1,6) data len[folded not_less] body False by (simp_all add: stream_frame_def pf read_data_def)
      moreover have "unat (fr_len f) \<le> unat (ys_recvWindow s)" using len by (simp add: word_le_nat_alt)
      ultimately show ?thesis using p data sub by simp
    qed
  qed
  then show "e = None" "live s' \<longleftrightarrow> \<not> forget" "ys_state s' \<noteq> StreamInit" "fin_unsent s' \<longrightarrow> fin_unsent s"
    "ys_state s' = StreamRemoteClose \<longrightarrow> ys_state s = StreamRemoteClose \<or> has_flag (fr_flags f) flagFIN"
    "unat (ys_recvWindow s') + length (payload [f]) = unat (ys_recvWindow s)"
    "unat (ys_sendWindow s') = unat (ys_sendWindow s) + credit [f]"
    "ys_recvBuf s' = ys_recvBuf s @ payload [f]" by blast+
qed

text \<open>The pair after side \<open>x\<close> has taken a frame.\<close>

definition take_change :: "bool \<Rightarrow> ystream \<Rightarrow> frame list \<Rightarrow> bool \<Rightarrow> pair \<Rightarrow> pair" where
  "take_change x s fs pres p =
     p\<lparr>p_end := (p_end p)(x := s), p_wire := (p_wire p)((\<not> x) := fs), p_present := (p_present p)(x := pres)\<rparr>"

lemma take_change_sel [simp]:
  "p_end (take_change x s fs pres p) x = s"
  "p_end (take_change x s fs pres p) (\<not> x) = p_end p (\<not> x)"
  "p_wire (take_change x s fs pres p) (\<not> x) = fs"
  "p_wire (take_change x s fs pres p) x = p_wire p x"
  "p_present (take_change x s fs pres p) x = pres"
  "p_present (take_change x s fs pres p) (\<not> x) = p_present p (\<not> x)"
  "p_sent (take_change x s fs pres p) = p_sent p" "p_got (take_change x s fs pres p) = p_got p"
  "p_error (take_change x s fs pres p) = p_error p"
  by (simp_all add: take_change_def)

lemma pair_drop_inv:
  assumes inv: "pair_inv maxw p" and wire: "p_wire p (\<not> x) = f # fs" and pres: "\<not> p_present p x"
  shows "pair_inv maxw (take_change x (p_end p x) fs False p)"
proof (rule pair_invI[of _ _ x])
  let ?p = "take_change x (p_end p x) fs False p"
  note px = pair_invD[OF inv, of x] and pn = pair_invD[OF inv, of "\<not> x"]
  show "flow_inv maxw ?p x" using px(1) wire pres by (auto simp: flow_inv_def Let_def)
  show "flow_inv maxw ?p (\<not> x)" using pn(1) wire pres by (auto simp: flow_inv_def Let_def)
  show "data_inv ?p x" using px(2) by (simp add: data_inv_def)
  show "data_inv ?p (\<not> x)" using pn(2) by (simp add: data_inv_def)
  show "fin_inv ?p x" using px(3) pres by (simp add: fin_inv_def)
  show "fin_inv ?p (\<not> x)" using pn(3) wire by (auto simp: fin_inv_def split: if_splits)
qed

lemma pair_take_inv:
  assumes inv: "pair_inv maxw p"
  shows "pair_inv maxw (pair_next maxw (PTake x) p)"
proof (cases "p_wire p (\<not> x)")
  case Nil
  then show ?thesis using inv by simp
next
  case wire: (Cons f fs)
  note px = pair_invD[OF inv, of x] and pn = pair_invD[OF inv, of "\<not> x"]
  show ?thesis
  proof (cases "p_present p x")
    case False
    have "pair_next maxw (PTake x) p = take_change x (p_end p x) fs (p_present p x) p"
      using wire False by (simp add: take_change_def fun_upd_idem)
    then show ?thesis using pair_drop_inv[OF inv wire False] False by simp
  next
    case True
    let ?s = "p_end p x"
    obtain e s est forget where sf: "stream_frame f ?s = (e, s, est, forget)" by (metis prod_cases4)
    have live: "live ?s" using px(3) True by (simp add: fin_inv_def)
    have wf: "wf_frame f" using pn(3) wire by (simp add: fin_inv_def)
    have fin: "has_flag (fr_flags f) flagFIN \<longrightarrow> ys_state ?s \<noteq> StreamRemoteClose"
      using pn(3) wire by (auto simp: fin_inv_def)
    have win: "length (payload [f]) \<le> unat (ys_recvWindow ?s)"
      using pn(1) wire by (auto simp: flow_inv_def Let_def)
    have cred: "unat (ys_sendWindow ?s) + credit [f] < 4294967296"
      using px(1) wire unat_u32_less[of "ys_recvWindow (p_end p (\<not> x))"] by (auto simp: flow_inv_def Let_def)
    note ok = stream_frame_ok[OF live fin wf win cred sf]
    have err: "p_error p x = False" using px(3) by (simp add: fin_inv_def)
    have nxt: "pair_next maxw (PTake x) p = take_change x s fs (\<not> forget) p"
      using wire True ok(1) by (simp add: sf take_change_def Let_def)
    show ?thesis unfolding nxt
    proof (rule pair_invI[of _ _ x])
      let ?p = "take_change x s fs (\<not> forget) p"
      show "flow_inv maxw ?p x" using px(1) ok(7) True by (auto simp: flow_inv_def wire Let_def)
      show "flow_inv maxw ?p (\<not> x)" using pn(1) ok(6,8) True by (auto simp: flow_inv_def wire Let_def)
      show "data_inv ?p x" using px(2) by (simp add: data_inv_def)
      show "data_inv ?p (\<not> x)" using pn(2) ok(8) True by (simp add: data_inv_def wire)
      show "fin_inv ?p x" using px(3) ok(2,3,4) by (auto simp: fin_inv_def)
      show "fin_inv ?p (\<not> x)" using pn(3) ok(5) by (auto simp: fin_inv_def wire split: if_splits)
    qed
  qed
qed

subsection \<open>Histories\<close>

lemma pair_next_inv:
  assumes "pair_inv maxw p" "262144 \<le> unat maxw"
  shows "pair_inv maxw (pair_next maxw e p)"
  using assms
  by (cases e) (simp_all only: pair_write_inv pair_read_inv pair_update_inv pair_close_inv pair_timeout_inv pair_take_inv)

lemma pair_start_inv:
  assumes "262144 \<le> unat maxw"
  shows "pair_inv maxw (pair_start maxw sid)"
proof -
  have i: "unat initialStreamWindow = 262144" by (simp add: initialStreamWindow_def)
  let ?d = "(maxw - of_nat 0) - initialStreamWindow"
  have d: "unat ?d = unat maxw - 262144" using unat_delta[of initialStreamWindow 0 maxw] assms i by simp
  have a: "unat (initialStreamWindow + ?d) = unat maxw" using unat_add_delta[of initialStreamWindow 0 maxw] assms i by simp
  let ?f = "\<lparr>fr_type = typeWindowUpdate, fr_flags = flagSYN, fr_id = sid, fr_len = ?d, fr_body = []\<rparr>"
  let ?s = "(newStream sid StreamSYNSent)\<lparr>ys_recvWindow := initialStreamWindow + ?d\<rparr>"
  have u: "sendWindowUpdate maxw SendOk (newStream sid StreamInit) = (SendOk, [?f], ?s)"
    by (simp add: sendWindowUpdate_def newStream_def sendFlags_def Let_def flagSYN_def)
  have e: "p_end (pair_start maxw sid) True = ?s" "p_end (pair_start maxw sid) False = newStream sid StreamSYNReceived"
    "p_wire (pair_start maxw sid) True = [?f]" "p_wire (pair_start maxw sid) False = []"
    "p_present (pair_start maxw sid) = (\<lambda>_. True)" "p_sent (pair_start maxw sid) = (\<lambda>_. [])"
    "p_got (pair_start maxw sid) = (\<lambda>_. [])" "p_error (pair_start maxw sid) = (\<lambda>_. False)"
    unfolding pair_start_def u by simp_all
  show ?thesis
  proof (rule pair_invI[of _ _ True])
    show "flow_inv maxw (pair_start maxw sid) True"
      using i assms by (simp add: flow_inv_def e newStream_def)
    show "flow_inv maxw (pair_start maxw sid) (\<not> True)"
      using i a d assms by (simp add: flow_inv_def e newStream_def del: add_diff_cancel_left' diff_add_cancel add_diff_cancel)
    show "data_inv (pair_start maxw sid) True" "data_inv (pair_start maxw sid) (\<not> True)"
      by (simp_all add: data_inv_def e newStream_def)
    show "fin_inv (pair_start maxw sid) True" "fin_inv (pair_start maxw sid) (\<not> True)"
      by (simp_all add: fin_inv_def e newStream_def live_def fin_unsent_def wf_frame_def)
  qed
qed

interpretation yamux: step_system "\<lambda>p. 262144 \<le> unat maxw \<and> p = pair_start maxw sid" "pair_step maxw"
    "\<lambda>p. 262144 \<le> unat maxw \<and> pair_inv maxw p" for maxw sid
  by unfold_locales (auto simp: pair_step_def pair_start_inv pair_next_inv)

lemma pair_run_iff: "run (pair_step maxw) p evs p' \<longleftrightarrow> p' = fold (pair_next maxw) evs p"
  by (induction evs arbitrary: p) (simp_all add: pair_step_def)


text \<open>A stream is opened and accepted, three bytes are written, delivered and read.\<close>

definition demo_stream :: "pair_event list" where
  "demo_stream = [PTake False, PUpdate False, PTake True, PWrite True [1, 2, 3], PTake False, PRead False 2, PRead False 2]"

definition demo_pair :: pair where
  "demo_pair = fold (pair_next initialStreamWindow) demo_stream (pair_start initialStreamWindow 1)"

lemma demo_pair_state:
  "p_present demo_pair True" "p_present demo_pair False" "p_wire demo_pair True = []" "p_wire demo_pair False = []"
  "ys_recvBuf (p_end demo_pair False) = []" "p_sent demo_pair True = [1, 2, 3]"
  "ys_state (p_end demo_pair True) = StreamEstablished" "ys_state (p_end demo_pair False) = StreamEstablished"
  by code_simp+


subsection \<open>Where it breaks\<close>

text \<open>
  A write that times out while its frame is queued leaves the send window as it was. When the frame is written after all and
  the application goes on writing, the other end sees its window exceeded and ends the session.
\<close>

lemma timed_out_write_overruns:
  assumes "ys_state s = StreamEstablished" "ys_sendWindow s = w" "w \<noteq> 0" "length b = unat w"
    and "ys_state r = StreamEstablished" "ys_recvWindow r = w"
  shows "\<exists>f s1 s2 r1. ywrite (SendTimeout True) b s = (WriteErr, [f], s1) \<and> ywrite SendOk b s1 = (Wrote (unat w), [f], s2) \<and>
    stream_frame f r = (None, r1, False, False) \<and> fst (stream_frame f r1) = Some ErrRecvWindowExceeded"
proof -
  let ?f = "\<lparr>fr_type = typeData, fr_flags = 0, fr_id = ys_id s, fr_len = w, fr_body = b\<rparr>"
  have b: "of_nat (length b) = w" "b \<noteq> []" using assms(3,4) by (auto simp: unat_eq_0)
  have sf: "sendFlags s = (0, s)" using assms(1) by (simp add: sendFlags_def)
  have 1: "ywrite (SendTimeout True) b s = (WriteErr, [?f], s)"
    using assms(1-4) b sf by (simp add: ywrite_def Let_def)
  have 2: "ywrite SendOk b s = (Wrote (unat w), [?f], s\<lparr>ys_sendWindow := 0\<rparr>)"
    using assms(1-4) b sf by (simp add: ywrite_def Let_def)
  have pf: "processFlags 0 q = (None, q, False, False)" for q
    by (simp add: processFlags_def flag_ACK_def flag_FIN_def)
  have 3: "stream_frame ?f r = (None, r\<lparr>ys_recvBuf := ys_recvBuf r @ b, ys_recvWindow := 0\<rparr>, False, False)"
    using assms(3,6) b by (simp add: stream_frame_def pf read_data_def)
  have "0 < w" using assms(3) by (simp add: word_neq_0_conv)
  then have 4: "fst (stream_frame ?f (r\<lparr>ys_recvBuf := ys_recvBuf r @ b, ys_recvWindow := 0\<rparr>)) = Some ErrRecvWindowExceeded"
    using assms(3) by (simp add: stream_frame_def pf read_data_def)
  from 1 2 3 4 show ?thesis by blast
qed

text \<open>
  \<open>closeTimeout\<close> closes the stream before the session forgets it. A \<open>FIN\<close> that arrives in between is refused, which
  ends the whole session.
\<close>

lemma fin_during_close_timeout:
  assumes "has_flag (fr_flags f) flagFIN"
  shows "fst (stream_frame f (forceClose s)) = Some ErrUnexpectedFlag"
  using assms by (simp add: stream_frame_def processFlags_def flag_ACK_def flag_FIN_def forceClose_def Let_def)

end
