(* ===== verification/Yamux_Session.thy ===== *)
theory Yamux_Session
  imports Yamux_Stream Step_System
begin

text \<open>
  \<open>third_party/yamux/mux.go\<close> and \<open>session.go\<close>: the configuration and one end of a session. Streams are objects of
  a store (\<open>se_objs\<close>), since a stream that the session has forgotten is still in its user's hands; the maps and the
  accept queue hold their indices. The semaphore \<open>synCh\<close> is the number of its tokens. Every operation is one step and
  returns the frames that it hands to the connection; what becomes of a send is an argument. \<open>Close\<close> is one step,
  so the frames that are still in the read buffer meanwhile come before it or not at all.
\<close>

subsection \<open>The configuration\<close>

record yconfig =
  yc_AcceptBacklog :: int
  yc_EnableKeepAlive :: bool
  yc_KeepAliveInterval :: int
  yc_ConnectionWriteTimeout :: int
  yc_MaxStreamWindowSize :: u32
  yc_StreamOpenTimeout :: int
  yc_StreamCloseTimeout :: int
  yc_LogOutput :: bool   \<comment> \<open>set\<close>
  yc_Logger :: bool

definition time_Second :: int where "time_Second = 1000000000"

definition DefaultConfig :: yconfig where
  "DefaultConfig = \<lparr>yc_AcceptBacklog = 256, yc_EnableKeepAlive = True, yc_KeepAliveInterval = 30 * time_Second,
     yc_ConnectionWriteTimeout = 10 * time_Second, yc_MaxStreamWindowSize = initialStreamWindow,
     yc_StreamOpenTimeout = 75 * time_Second, yc_StreamCloseTimeout = 5 * (60 * time_Second), yc_LogOutput = True, yc_Logger = False\<rparr>"

datatype yconfig_error = BacklogNotPositive | KeepAliveNotPositive | WindowTooSmall | BothLoggers | NoLogger

definition VerifyConfig :: "yconfig \<Rightarrow> yconfig_error option" where
  "VerifyConfig c =
     (if yc_AcceptBacklog c \<le> 0 then Some BacklogNotPositive
      else if yc_KeepAliveInterval c = 0 then Some KeepAliveNotPositive
      else if yc_MaxStreamWindowSize c < initialStreamWindow then Some WindowTooSmall
      else if yc_LogOutput c \<and> yc_Logger c then Some BothLoggers
      else if \<not> yc_LogOutput c \<and> \<not> yc_Logger c then Some NoLogger
      else None)"

text \<open>The device (\<open>client/core/run.go\<close>) and the server (\<open>server/hub/device.go\<close>) set the same two fields.\<close>

definition yamuxConfig :: yconfig where
  "yamuxConfig = DefaultConfig\<lparr>yc_EnableKeepAlive := True, yc_KeepAliveInterval := 30 * time_Second\<rparr>"

definition device_yamux_config :: yconfig where
  "device_yamux_config = DefaultConfig\<lparr>yc_EnableKeepAlive := True, yc_KeepAliveInterval := 30 * time_Second\<rparr>"

text \<open>Both ends pass the check, and their streams have the windows of \<open>yamux_stream_correct\<close>.\<close>

lemma both_configs_verify:
  "VerifyConfig yamuxConfig = None" "VerifyConfig device_yamux_config = None"
  "yc_MaxStreamWindowSize yamuxConfig = initialStreamWindow" "yc_MaxStreamWindowSize device_yamux_config = initialStreamWindow"
  by (simp_all add: VerifyConfig_def yamuxConfig_def device_yamux_config_def DefaultConfig_def time_Second_def)

subsection \<open>The state\<close>

datatype ysession_error =
    ErrSessionShutdown | ErrRemoteGoAway | ErrStreamsExhausted | ErrDuplicateStream | ErrInvalidVersion | ErrInvalidMsgType
  | ErrStream stream_error | ErrSend send_result | ErrGoAwayReceived u32 | ErrReadHeader | ErrKeepAliveTimeout

record ysession =
  se_client :: bool
  se_remoteGoAway :: bool
  se_localGoAway :: bool
  se_nextStreamID :: u32
  se_objs :: "ystream list"
  se_streams :: "u32 \<rightharpoonup> nat"
  se_inflight :: "u32 set"
  se_synCh :: nat
  se_acceptCh :: "nat list"
  se_pings :: "u32 set"
  se_pingID :: u32
  se_shutdown :: bool
  se_shutdownErr :: "ysession_error option"

definition newSession :: "bool \<Rightarrow> ysession" where
  "newSession client = \<lparr>se_client = client, se_remoteGoAway = False, se_localGoAway = False,
     se_nextStreamID = (if client then 1 else 2), se_objs = [], se_streams = Map.empty, se_inflight = {}, se_synCh = 0,
     se_acceptCh = [], se_pings = {}, se_pingID = 0, se_shutdown = False, se_shutdownErr = None\<rparr>"

text \<open>\<open>Server\<close> and \<open>Client\<close>; \<open>None\<close> is a nil configuration.\<close>

definition yamux_new :: "bool \<Rightarrow> yconfig option \<Rightarrow> yconfig_error + yconfig \<times> ysession" where
  "yamux_new client cf =
     (let c = (case cf of None \<Rightarrow> DefaultConfig | Some c \<Rightarrow> c)
      in case VerifyConfig c of Some e \<Rightarrow> Inl e | None \<Rightarrow> Inr (c, newSession client))"

definition backlog :: "yconfig \<Rightarrow> nat" where "backlog cf = nat (yc_AcceptBacklog cf)"

definition control :: "byte \<Rightarrow> 16 word \<Rightarrow> u32 \<Rightarrow> u32 \<Rightarrow> frame" where
  "control ty flags sid len = \<lparr>fr_type = ty, fr_flags = flags, fr_id = sid, fr_len = len, fr_body = []\<rparr>"

definition rst_frame :: "u32 \<Rightarrow> frame" where "rst_frame sid = control typeWindowUpdate flagRST sid 0"

text \<open>\<open>goAway\<close>: the mark that no stream is accepted any more, and the frame.\<close>

definition goAway :: "u32 \<Rightarrow> ysession \<Rightarrow> frame \<times> ysession" where
  "goAway reason s = (control typeGoAway 0 0 reason, s\<lparr>se_localGoAway := True\<rparr>)"

definition send_err :: "send_result \<Rightarrow> ysession_error option" where
  "send_err res = (if res = SendOk then None else Some (ErrSend res))"

text \<open>\<open>Close\<close> and \<open>exitErr\<close>. A stream is closed when it is the one in the map.\<close>

definition session_Close :: "ysession \<Rightarrow> ysession" where
  "session_Close s =
     (if se_shutdown s then s
      else s\<lparr>se_shutdown := True,
        se_shutdownErr := (case se_shutdownErr s of None \<Rightarrow> Some ErrSessionShutdown | Some e \<Rightarrow> Some e),
        se_objs := map (\<lambda>i. if se_streams s (ys_id (se_objs s ! i)) = Some i then forceClose (se_objs s ! i) else se_objs s ! i)
                     [0..<length (se_objs s)]\<rparr>)"

definition exitErr :: "ysession_error \<Rightarrow> ysession \<Rightarrow> ysession" where
  "exitErr e s = session_Close (s\<lparr>se_shutdownErr := (case se_shutdownErr s of None \<Rightarrow> Some e | Some e' \<Rightarrow> Some e')\<rparr>)"

definition closeStream :: "u32 \<Rightarrow> ysession \<Rightarrow> ysession" where
  "closeStream sid s = s\<lparr>se_synCh := (if sid \<in> se_inflight s then se_synCh s - 1 else se_synCh s),
     se_streams := (se_streams s)(sid := None)\<rparr>"

definition establishStream :: "u32 \<Rightarrow> ysession \<Rightarrow> ysession" where
  "establishStream sid s = s\<lparr>se_inflight := se_inflight s - {sid}, se_synCh := se_synCh s - 1\<rparr>"

subsection \<open>Opening and accepting\<close>

datatype open_result = OpenWait | OpenErr ysession_error | Opened nat

text \<open>\<open>OpenStream\<close>; \<open>res\<close> is what becomes of the first window update.\<close>

definition OpenStream :: "yconfig \<Rightarrow> send_result \<Rightarrow> ysession \<Rightarrow> open_result \<times> frame list \<times> ysession" where
  "OpenStream cf res s =
     (if se_shutdown s then (OpenErr ErrSessionShutdown, [], s)
      else if se_remoteGoAway s then (OpenErr ErrRemoteGoAway, [], s)
      else if backlog cf \<le> se_synCh s then (OpenWait, [], s)
      else let s = s\<lparr>se_synCh := se_synCh s + 1\<rparr>; sid = se_nextStreamID s
           in if 0xFFFFFFFF - 1 \<le> sid then (OpenErr ErrStreamsExhausted, [], s)
              else let i = length (se_objs s);
                       (sent, frs, st) = sendWindowUpdate (yc_MaxStreamWindowSize cf) res (newStream sid StreamInit);
                       s = s\<lparr>se_nextStreamID := sid + 2, se_objs := se_objs s @ [st], se_streams := (se_streams s)(sid \<mapsto> i),
                             se_inflight := insert sid (se_inflight s)\<rparr>
                   in if sent = SendOk then (Opened i, frs, s)
                      else (OpenErr (ErrSend sent), frs, s\<lparr>se_synCh := se_synCh s - 1\<rparr>))"

text \<open>\<open>setOpenTimeout\<close> when its timer fires first.\<close>

definition open_timeout :: "ysession \<Rightarrow> ysession" where "open_timeout s = session_Close s"

datatype accept_result = AcceptWait | AcceptErr "ysession_error option" | Accepted nat

text \<open>\<open>AcceptStream\<close>; \<open>stop\<close> is the choice of \<open>select\<close> when the session is shut down and a stream is waiting.\<close>

definition AcceptStream :: "yconfig \<Rightarrow> bool \<Rightarrow> send_result \<Rightarrow> ysession \<Rightarrow> accept_result \<times> frame list \<times> ysession" where
  "AcceptStream cf stop res s =
     (if se_shutdown s \<and> (stop \<or> se_acceptCh s = []) then (AcceptErr (se_shutdownErr s), [], s)
      else case se_acceptCh s of
        [] \<Rightarrow> (AcceptWait, [], s)
      | i # rest \<Rightarrow>
          (case sendWindowUpdate (yc_MaxStreamWindowSize cf) res (se_objs s ! i) of
             (sent, frs, st) \<Rightarrow>
               (if sent = SendOk then Accepted i else AcceptErr (Some (ErrSend sent)), frs,
                s\<lparr>se_acceptCh := rest, se_objs := (se_objs s)[i := st]\<rparr>)))"

text \<open>\<open>incomingStream\<close>: an error ends the session. \<open>nw\<close> is what becomes of the frame of \<open>sendNoWait\<close>.\<close>

definition incomingStream :: "yconfig \<Rightarrow> send_result \<Rightarrow> u32 \<Rightarrow> ysession \<Rightarrow> ysession_error option \<times> frame list \<times> ysession" where
  "incomingStream cf nw sid s =
     (if se_localGoAway s then (send_err nw, handed nw (rst_frame sid), s)
      else if se_streams s sid \<noteq> None then
        (case goAway goAwayProtoErr s of (f, s) \<Rightarrow> (Some ErrDuplicateStream, handed nw f, s))
      else if length (se_acceptCh s) < backlog cf then
        (None, [], s\<lparr>se_objs := se_objs s @ [newStream sid StreamSYNReceived],
                     se_streams := (se_streams s)(sid \<mapsto> length (se_objs s)), se_acceptCh := se_acceptCh s @ [length (se_objs s)]\<rparr>)
      else (send_err nw, handed nw (rst_frame sid), s\<lparr>se_streams := (se_streams s)(sid := None)\<rparr>))"

subsection \<open>Receiving\<close>

text \<open>\<open>handleStreamMessage\<close>; the frames of a stream that is not in the map are dropped.\<close>

definition handleStreamMessage :: "yconfig \<Rightarrow> send_result \<Rightarrow> send_result \<Rightarrow> frame \<Rightarrow> ysession \<Rightarrow> ysession_error option \<times> frame list \<times> ysession" where
  "handleStreamMessage cf nw nw' f s =
     (case (if has_flag (fr_flags f) flagSYN then incomingStream cf nw (fr_id f) s else (None, [], s)) of
        (Some e, frs, s) \<Rightarrow> (Some e, frs, s)
      | (None, frs, s) \<Rightarrow>
          (case se_streams s (fr_id f) of
             None \<Rightarrow> (None, frs, s)
           | Some i \<Rightarrow>
               (case stream_frame f (se_objs s ! i) of
                  (err, st, established, forget) \<Rightarrow>
                    let s = s\<lparr>se_objs := (se_objs s)[i := st]\<rparr>;
                        s = (if established then establishStream (ys_id st) s else s);
                        s = (if forget then closeStream (ys_id st) s else s)
                    in (case err of
                          None \<Rightarrow> (None, frs, s)
                        | Some e \<Rightarrow> (case goAway goAwayProtoErr s of (g, s) \<Rightarrow> (Some (ErrStream e), frs @ handed nw' g, s))))))"

definition handlePing :: "send_result \<Rightarrow> frame \<Rightarrow> ysession \<Rightarrow> ysession_error option \<times> frame list \<times> ysession" where
  "handlePing nw f s =
     (if has_flag (fr_flags f) flagSYN then (None, handed nw (control typePing flagACK 0 (fr_len f)), s)
      else (None, [], s\<lparr>se_pings := se_pings s - {fr_len f}\<rparr>))"

definition handleGoAway :: "frame \<Rightarrow> ysession \<Rightarrow> ysession_error option \<times> frame list \<times> ysession" where
  "handleGoAway f s =
     (if fr_len f = goAwayNormal then (None, [], s\<lparr>se_remoteGoAway := True\<rparr>)
      else (Some (ErrGoAwayReceived (fr_len f)), [], s))"

text \<open>A header as the frame that it announces, with the payload that the connection gives.\<close>

definition frame_of :: "byte list \<Rightarrow> byte list \<Rightarrow> frame" where
  "frame_of hdr body = \<lparr>fr_type = h_MsgType hdr, fr_flags = h_Flags hdr, fr_id = h_StreamID hdr, fr_len = h_Length hdr, fr_body = body\<rparr>"

text \<open>One round of \<open>recvLoop\<close> after the header is read.\<close>

definition recv_frame :: "yconfig \<Rightarrow> send_result \<Rightarrow> send_result \<Rightarrow> byte list \<Rightarrow> byte list \<Rightarrow> ysession \<Rightarrow>
    ysession_error option \<times> frame list \<times> ysession" where
  "recv_frame cf nw nw' hdr body s =
     (let f = frame_of hdr body in
      if h_Version hdr \<noteq> protoVersion then (Some ErrInvalidVersion, [], s)
      else if typeGoAway < fr_type f then (Some ErrInvalidMsgType, [], s)
      else if fr_type f = typeData \<or> fr_type f = typeWindowUpdate then handleStreamMessage cf nw nw' f s
      else if fr_type f = typePing then handlePing nw f s
      else handleGoAway f s)"

text \<open>\<open>recv\<close>: an error of the round ends the session.\<close>

definition recv_step :: "yconfig \<Rightarrow> send_result \<Rightarrow> send_result \<Rightarrow> byte list \<Rightarrow> byte list \<Rightarrow> ysession \<Rightarrow> frame list \<times> ysession" where
  "recv_step cf nw nw' hdr body s =
     (case recv_frame cf nw nw' hdr body s of
        (None, frs, s) \<Rightarrow> (frs, s)
      | (Some e, frs, s) \<Rightarrow> (frs, exitErr e s))"

subsection \<open>Ping and keep-alive\<close>

definition ping_send :: "send_result \<Rightarrow> ysession \<Rightarrow> ysession_error option \<times> frame list \<times> ysession" where
  "ping_send res s =
     (send_err res, handed res (control typePing flagSYN 0 (se_pingID s)),
      s\<lparr>se_pings := insert (se_pingID s) (se_pings s), se_pingID := se_pingID s + 1\<rparr>)"

text \<open>The end of a ping whose answer does not come in time; \<open>keepalive\<close> then ends the session.\<close>

definition ping_expired :: "u32 \<Rightarrow> ysession \<Rightarrow> ysession" where
  "ping_expired pid s = s\<lparr>se_pings := se_pings s - {pid}\<rparr>"

definition keepalive_failed :: "ysession_error \<Rightarrow> ysession \<Rightarrow> ysession" where
  "keepalive_failed e s =
     (if e = ErrSessionShutdown \<or> (\<exists>q. e = ErrSend (SendShutdown q)) then s else exitErr ErrKeepAliveTimeout s)"

subsection \<open>Histories of one end\<close>

text \<open>What the application and the timers do to a stream; the session forgets it when the second component says so.\<close>

datatype stream_call =
    OpRead send_result nat | OpWrite send_result "byte list" | OpClose send_result | OpCloseTimeout bool

fun stream_op :: "yconfig \<Rightarrow> stream_call \<Rightarrow> ystream \<Rightarrow> ystream \<times> bool" where
  "stream_op cf (OpRead res n) st = (case yRead (yc_MaxStreamWindowSize cf) res n st of (_, _, st) \<Rightarrow> (st, False))"
| "stream_op cf (OpWrite res b) st = (case ywrite res b st of (_, _, st) \<Rightarrow> (st, False))"
| "stream_op cf (OpClose res) st =
     (case yClose (0 < yc_StreamCloseTimeout cf) res st of None \<Rightarrow> (st, False) | Some (_, st, forget) \<Rightarrow> (st, forget))"
| "stream_op cf (OpCloseTimeout queued) st =
     (if ys_closeTimer st then (case closeTimeout queued st of (_, st) \<Rightarrow> (st, True)) else (st, False))"

datatype session_event =
    SOpen send_result | SOpenTimeout | SAccept bool send_result | SFrame send_result send_result "byte list" "byte list"
  | SReadError | SPing send_result | SPingExpired u32 | SKeepAlive ysession_error | SGoAway | SClose | SStream nat stream_call

definition use_stream :: "yconfig \<Rightarrow> nat \<Rightarrow> stream_call \<Rightarrow> ysession \<Rightarrow> ysession" where
  "use_stream cf i oper s =
     (if i < length (se_objs s) then
        (case stream_op cf oper (se_objs s ! i) of
           (st, forget) \<Rightarrow>
             let s = s\<lparr>se_objs := (se_objs s)[i := st]\<rparr> in if forget then closeStream (ys_id st) s else s)
      else s)"

fun session_next :: "yconfig \<Rightarrow> session_event \<Rightarrow> ysession \<Rightarrow> ysession" where
  "session_next cf (SOpen res) s = snd (snd (OpenStream cf res s))"
| "session_next cf SOpenTimeout s = open_timeout s"
| "session_next cf (SAccept stop res) s = snd (snd (AcceptStream cf stop res s))"
| "session_next cf (SFrame nw nw' hdr body) s = (if se_shutdown s then s else snd (recv_step cf nw nw' hdr body s))"
| "session_next cf SReadError s = exitErr ErrReadHeader s"
| "session_next cf (SPing res) s = snd (snd (ping_send res s))"
| "session_next cf (SPingExpired pid) s = ping_expired pid s"
| "session_next cf (SKeepAlive e) s = keepalive_failed e s"
| "session_next cf SGoAway s = snd (goAway goAwayNormal s)"
| "session_next cf SClose s = session_Close s"
| "session_next cf (SStream i oper) s = use_stream cf i oper s"

text \<open>A peer that declares streams only with identifiers of its own parity, as \<open>OpenStream\<close> does.\<close>

fun peer_ok :: "bool \<Rightarrow> session_event \<Rightarrow> bool" where
  "peer_ok client (SFrame nw nw' hdr body) \<longleftrightarrow> (has_flag (h_Flags hdr) flagSYN \<longrightarrow> odd (unat (h_StreamID hdr)) \<noteq> client)"
| "peer_ok client _ \<longleftrightarrow> True"

definition session_step :: "yconfig \<Rightarrow> bool \<Rightarrow> ysession \<Rightarrow> session_event \<Rightarrow> ysession \<Rightarrow> bool" where
  "session_step cf client s e s' \<longleftrightarrow> peer_ok client e \<and> s' = session_next cf e s"

subsection \<open>The invariant\<close>

definition own :: "ysession \<Rightarrow> u32 \<Rightarrow> bool" where
  "own s sid \<longleftrightarrow> odd (unat sid) = se_client s"

definition ids_inv :: "ysession \<Rightarrow> bool" where
  "ids_inv s \<longleftrightarrow>
     own s (se_nextStreamID s) \<and>
     (\<forall>st \<in> set (se_objs s). own s (ys_id st) \<longrightarrow> ys_id st < se_nextStreamID s)"

definition refs_inv :: "ysession \<Rightarrow> bool" where
  "refs_inv s \<longleftrightarrow>
     (\<forall>sid i. se_streams s sid = Some i \<longrightarrow> i < length (se_objs s) \<and> ys_id (se_objs s ! i) = sid) \<and>
     (\<forall>i \<in> set (se_acceptCh s). i < length (se_objs s))"

definition room_inv :: "yconfig \<Rightarrow> ysession \<Rightarrow> bool" where
  "room_inv cf s \<longleftrightarrow> length (se_acceptCh s) \<le> backlog cf \<and> se_synCh s \<le> backlog cf"

definition session_inv :: "yconfig \<Rightarrow> bool \<Rightarrow> ysession \<Rightarrow> bool" where
  "session_inv cf client s \<longleftrightarrow> se_client s = client \<and> ids_inv s \<and> refs_inv s \<and> room_inv cf s"

lemmas session_inv_defs = session_inv_def ids_inv_def refs_inv_def room_inv_def own_def

text \<open>The operations of a stream keep its identifier.\<close>

lemma sendFlags_id: "ys_id (snd (sendFlags s)) = ys_id s"
  by (simp add: sendFlags_def split: streamState.split)

lemma sendWindowUpdate_id: "ys_id (snd (snd (sendWindowUpdate maxw res s))) = ys_id s"
  using sendFlags_id[of s] by (auto simp: sendWindowUpdate_def Let_def split: prod.split)

lemma yRead_id: "ys_id (snd (snd (yRead maxw res n s))) = ys_id s"
  using sendWindowUpdate_id[of maxw res "s\<lparr>ys_recvBuf := drop n (ys_recvBuf s)\<rparr>"]
  by (auto simp: yRead_def Let_def split: prod.split)

lemma ywrite_id: "ys_id (snd (snd (ywrite res b s))) = ys_id s"
  using sendFlags_id[of s] by (auto simp: ywrite_def Let_def split: prod.split)

lemma sendClose_id: "ys_id (snd (sendClose res s)) = ys_id s"
  using sendFlags_id[of s] by (auto simp: sendClose_def Let_def split: prod.split)

lemma yClose_id: "yClose timeout res s = Some (frs, s', forget) \<Longrightarrow> ys_id s' = ys_id s"
  using sendClose_id[of res "s\<lparr>ys_state := StreamLocalClose, ys_closeTimer := timeout\<rparr>"]
    sendClose_id[of res "s\<lparr>ys_state := StreamClosed, ys_closeTimer := False\<rparr>"]
  by (auto simp: yClose_def split: if_splits prod.splits)

lemma stream_op_id: "ys_id (fst (stream_op cf oper st)) = ys_id st"
proof (cases oper)
  case (OpRead res n)
  then show ?thesis using yRead_id[of "yc_MaxStreamWindowSize cf" res n st] by (auto split: prod.split)
next
  case (OpWrite res b)
  then show ?thesis using ywrite_id[of res b st] by (auto split: prod.split)
next
  case (OpClose res)
  then show ?thesis by (auto split: option.split prod.split dest: yClose_id)
next
  case (OpCloseTimeout queued)
  then show ?thesis by (simp add: closeTimeout_def forceClose_def)
qed

lemma stream_frame_id:
  assumes "stream_frame f s = (err, s', est, forget)"
  shows "ys_id s' = ys_id s"
proof -
  have "ys_id (fst (snd (processFlags fl q))) = ys_id q" for fl q
    by (simp add: processFlags_def flag_ACK_def flag_FIN_def Let_def)
  then have "ys_id q' = ys_id q" if "processFlags fl q = (e, q', a, b)" for fl q e q' a b
    using that by (metis fst_conv snd_conv)
  then show ?thesis using assms
    by (auto simp: stream_frame_def incr_window_def read_data_def split: prod.splits option.splits if_splits)
qed

text \<open>Fields that the invariant does not read.\<close>

lemma session_inv_upd [simp]:
  "session_inv cf c (s\<lparr>se_remoteGoAway := b\<rparr>) = session_inv cf c s"
  "session_inv cf c (s\<lparr>se_localGoAway := b\<rparr>) = session_inv cf c s"
  "session_inv cf c (s\<lparr>se_pings := ps\<rparr>) = session_inv cf c s"
  "session_inv cf c (s\<lparr>se_pingID := w\<rparr>) = session_inv cf c s"
  "session_inv cf c (s\<lparr>se_shutdown := b\<rparr>) = session_inv cf c s"
  "session_inv cf c (s\<lparr>se_shutdownErr := e\<rparr>) = session_inv cf c s"
  by (simp_all add: session_inv_defs)

lemma ids_inv_update:
  assumes "ids_inv s" "map ys_id objs = map ys_id (se_objs s)"
  shows "ids_inv (s\<lparr>se_objs := objs\<rparr>)"
proof -
  have "ys_id ` set objs = ys_id ` set (se_objs s)" by (metis assms(2) list.set_map)
  then have "\<exists>st' \<in> set (se_objs s). ys_id st' = ys_id st" if "st \<in> set objs" for st
    using that by (metis image_iff)
  then show ?thesis using assms(1) by (fastforce simp: ids_inv_def own_def)
qed

lemma objs_update_inv:
  assumes "session_inv cf c s" "map ys_id objs = map ys_id (se_objs s)"
  shows "session_inv cf c (s\<lparr>se_objs := objs\<rparr>)"
proof -
  have len: "length objs = length (se_objs s)" using assms(2) by (metis length_map)
  have nth: "ys_id (objs ! i) = ys_id (se_objs s ! i)" if "i < length (se_objs s)" for i
    using assms(2) that len by (metis nth_map)
  show ?thesis
    using assms(1) ids_inv_update[OF _ assms(2)] len nth by (auto simp: session_inv_def refs_inv_def room_inv_def)
qed

lemma obj_update_inv:
  assumes "session_inv cf c s" "ys_id st = ys_id (se_objs s ! i)"
  shows "session_inv cf c (s\<lparr>se_objs := (se_objs s)[i := st]\<rparr>)"
  by (rule objs_update_inv[OF assms(1)]) (metis assms(2) list_update_id map_update)

lemma session_Close_inv: "session_inv cf c s \<Longrightarrow> session_inv cf c (session_Close s)"
proof (cases "se_shutdown s")
  case False
  assume inv: "session_inv cf c s"
  let ?objs = "map (\<lambda>i. if se_streams s (ys_id (se_objs s ! i)) = Some i then forceClose (se_objs s ! i) else se_objs s ! i)
    [0..<length (se_objs s)]"
  have "map ys_id ?objs = map ys_id (se_objs s)"
    by (rule nth_equalityI) (auto simp: forceClose_def)
  with inv False show ?thesis by (auto simp: session_Close_def intro!: objs_update_inv)
qed (simp add: session_Close_def)

lemma exitErr_inv: "session_inv cf c s \<Longrightarrow> session_inv cf c (exitErr e s)"
  by (simp add: exitErr_def session_Close_inv)

lemma closeStream_inv: "session_inv cf c s \<Longrightarrow> session_inv cf c (closeStream sid s)"
  by (auto simp: closeStream_def session_inv_defs)

lemma establishStream_inv: "session_inv cf c s \<Longrightarrow> session_inv cf c (establishStream sid s)"
  by (auto simp: establishStream_def session_inv_defs)

lemma goAway_inv: "session_inv cf c s \<Longrightarrow> session_inv cf c (snd (goAway r s))"
  by (simp add: goAway_def)

text \<open>The next identifier does not wrap.\<close>

lemma next_id:
  fixes w :: u32
  assumes "w < 0xFFFFFFFF - 1"
  shows "unat (w + 2) = unat w + 2" "w < w + 2"
proof -
  have "unat w < 4294967294" using assms by (simp add: word_less_nat_alt)
  then show 1: "unat (w + 2) = unat w + 2" by (simp add: unat_word_ariths)
  then show "w < w + 2" by (simp add: word_less_nat_alt)
qed

lemma OpenStream_opened:
  assumes "OpenStream cf res s = (r, frs, s')" "se_nextStreamID s < 0xFFFFFFFF - 1" "\<not> se_shutdown s" "\<not> se_remoteGoAway s"
    "se_synCh s < backlog cf"
  shows "\<exists>st n. ys_id st = se_nextStreamID s \<and> n \<le> se_synCh s + 1 \<and>
    s' = s\<lparr>se_synCh := n, se_nextStreamID := se_nextStreamID s + 2, se_objs := se_objs s @ [st],
           se_streams := (se_streams s)(se_nextStreamID s \<mapsto> length (se_objs s)), se_inflight := insert (se_nextStreamID s) (se_inflight s)\<rparr> \<and>
    (\<forall>i. r = Opened i \<longrightarrow> i = length (se_objs s))"
proof -
  let ?sw = "sendWindowUpdate (yc_MaxStreamWindowSize cf) res (newStream (se_nextStreamID s) StreamInit)"
  obtain sent frs' st where sw: "?sw = (sent, frs', st)" by (metis prod_cases3)
  have "ys_id st = se_nextStreamID s"
    using sendWindowUpdate_id[of "yc_MaxStreamWindowSize cf" res "newStream (se_nextStreamID s) StreamInit"] sw
    by (simp add: newStream_def)
  moreover have "(if sent = SendOk then se_synCh s + 1 else se_synCh s) \<le> se_synCh s + 1" by simp
  ultimately show ?thesis using assms sw
    by (intro exI[of _ st] exI[of _ "if sent = SendOk then se_synCh s + 1 else se_synCh s"])
      (auto simp: OpenStream_def Let_def split: if_splits)
qed

lemma OpenStream_inv:
  assumes inv: "session_inv cf c s"
  shows "session_inv cf c (snd (snd (OpenStream cf res s)))"
proof (cases "se_shutdown s \<or> se_remoteGoAway s \<or> backlog cf \<le> se_synCh s \<or> 0xFFFFFFFF - 1 \<le> se_nextStreamID s")
  case True
  then show ?thesis using inv by (auto simp: OpenStream_def Let_def session_inv_defs)
next
  case False
  obtain r frs s' where os: "OpenStream cf res s = (r, frs, s')" by (metis prod_cases3)
  have lt: "se_nextStreamID s < 0xFFFFFFFF - 1" using False by auto
  obtain st n where st: "ys_id st = se_nextStreamID s" "n \<le> se_synCh s + 1"
    and s': "s' = s\<lparr>se_synCh := n, se_nextStreamID := se_nextStreamID s + 2, se_objs := se_objs s @ [st],
           se_streams := (se_streams s)(se_nextStreamID s \<mapsto> length (se_objs s)), se_inflight := insert (se_nextStreamID s) (se_inflight s)\<rparr>"
    using OpenStream_opened[OF os lt] False by auto
  note nx = next_id[OF lt]
  have "ids_inv s'" using inv st nx unfolding s'
    by (auto simp: session_inv_def ids_inv_def own_def intro: less_trans)
  moreover have "refs_inv s'" using inv st unfolding s'
    by (auto simp: session_inv_def refs_inv_def nth_append less_Suc_eq)
  moreover have "room_inv cf s'" "se_client s' = c" using inv st(2) False unfolding s'
    by (auto simp: session_inv_def room_inv_def)
  ultimately show ?thesis by (simp add: os session_inv_def)
qed

lemma AcceptStream_inv:
  assumes inv: "session_inv cf c s"
  shows "session_inv cf c (snd (snd (AcceptStream cf stop res s)))"
proof (cases "se_acceptCh s")
  case Nil
  then show ?thesis using inv by (simp add: AcceptStream_def)
next
  case (Cons i rest)
  obtain sent frs st where sw: "sendWindowUpdate (yc_MaxStreamWindowSize cf) res (se_objs s ! i) = (sent, frs, st)" by (metis prod_cases3)
  have "ys_id st = ys_id (se_objs s ! i)" using sendWindowUpdate_id[of "yc_MaxStreamWindowSize cf" res "se_objs s ! i"] sw by simp
  from obj_update_inv[OF inv this]
  have "session_inv cf c (s\<lparr>se_acceptCh := rest, se_objs := (se_objs s)[i := st]\<rparr>)" using Cons
    by (simp add: session_inv_defs)
  then show ?thesis using inv Cons sw by (simp add: AcceptStream_def)
qed

lemma incomingStream_inv:
  assumes "session_inv cf c s" "odd (unat sid) \<noteq> c" "incomingStream cf nw sid s = (e, frs, s')"
  shows "session_inv cf c s'"
  using assms
  by (auto simp: incomingStream_def goAway_def session_inv_defs newStream_def nth_append less_Suc_eq split: if_splits)

lemma stream_message_inv:
  assumes inv: "session_inv cf c s" and syn: "has_flag (fr_flags f) flagSYN \<longrightarrow> odd (unat (fr_id f)) \<noteq> c"
  shows "session_inv cf c (snd (snd (handleStreamMessage cf nw nw' f s)))"
proof -
  let ?in = "if has_flag (fr_flags f) flagSYN then incomingStream cf nw (fr_id f) s else (None, [], s)"
  obtain e frs s1 where i: "?in = (e, frs, s1)" by (metis prod_cases3)
  have inv1: "session_inv cf c s1"
  proof (cases "has_flag (fr_flags f) flagSYN")
    case True
    then show ?thesis using incomingStream_inv[OF inv] syn i by (metis (full_types))
  next
    case False
    then show ?thesis using inv i by simp
  qed
  show ?thesis
  proof (cases "e = None \<and> se_streams s1 (fr_id f) \<noteq> None")
    case False
    then show ?thesis using inv1 by (auto simp: handleStreamMessage_def i split: option.split)
  next
    case True
    then obtain k where k: "se_streams s1 (fr_id f) = Some k" by auto
    obtain err st est forget where sf: "stream_frame f (se_objs s1 ! k) = (err, st, est, forget)" by (metis prod_cases4)
    have "session_inv cf c (s1\<lparr>se_objs := (se_objs s1)[k := st]\<rparr>)"
      by (rule obj_update_inv[OF inv1 stream_frame_id[OF sf]])
    then show ?thesis using True k sf
      by (auto simp: handleStreamMessage_def i goAway_def Let_def closeStream_inv establishStream_inv split: option.split)
  qed
qed

lemma recv_step_inv:
  assumes inv: "session_inv cf c s" and peer: "peer_ok c (SFrame nw nw' hdr body)"
  shows "session_inv cf c (snd (recv_step cf nw nw' hdr body s))"
proof -
  have "session_inv cf c (snd (snd (recv_frame cf nw nw' hdr body s)))"
    using inv peer stream_message_inv[OF inv, of "frame_of hdr body"]
    by (simp add: recv_frame_def Let_def handlePing_def handleGoAway_def frame_of_def)
  then show ?thesis by (auto simp: recv_step_def exitErr_inv split: prod.splits option.splits)
qed

lemma use_stream_inv:
  assumes "session_inv cf c s"
  shows "session_inv cf c (use_stream cf i oper s)"
proof (cases "i < length (se_objs s)")
  case True
  obtain st forget where so: "stream_op cf oper (se_objs s ! i) = (st, forget)" by fastforce
  have "ys_id st = ys_id (se_objs s ! i)" using stream_op_id[of cf oper "se_objs s ! i"] so by simp
  from obj_update_inv[OF assms this] True so show ?thesis by (simp add: use_stream_def Let_def closeStream_inv)
next
  case False
  then show ?thesis using assms by (simp add: use_stream_def)
qed

lemma session_next_inv:
  assumes "session_inv cf c s" "peer_ok c e"
  shows "session_inv cf c (session_next cf e s)"
proof (cases e)
  case (SFrame nw nw' hdr body)
  then show ?thesis using assms recv_step_inv[of cf c s nw nw' hdr body] by simp
qed (use assms in \<open>simp_all add: OpenStream_inv AcceptStream_inv exitErr_inv session_Close_inv goAway_inv use_stream_inv
       open_timeout_def ping_send_def ping_expired_def keepalive_failed_def\<close>)

lemma newSession_inv: "session_inv cf c (newSession c)"
  by (simp add: session_inv_defs newSession_def)

interpretation ysession: step_system "\<lambda>s. s = newSession c" "session_step cf c" "session_inv cf c" for cf c
  by unfold_locales (auto simp: session_step_def newSession_inv session_next_inv)

lemma session_run_iff:
  "run (session_step cf c) s evs s' \<longleftrightarrow> list_all (peer_ok c) evs \<and> s' = fold (session_next cf) evs s"
  by (induction evs arbitrary: s) (auto simp: session_step_def)

lemma OpenStream_guards:
  assumes "OpenStream cf res s = (Opened i, frs, s')"
  shows "se_nextStreamID s < 0xFFFFFFFF - 1" "\<not> se_shutdown s" "\<not> se_remoteGoAway s" "se_synCh s < backlog cf"
  using assms by (auto simp: OpenStream_def Let_def split: if_splits)

text \<open>
  C38. After any history of a session whose peer declares streams with identifiers of its own parity only: a stream that is
  opened gets an identifier of this end's parity that no stream of the session ever had, it is announced with that
  identifier, replaces no stream, and the identifiers do not wrap; the accept queue and the semaphore for open requests
  stay within the backlog.
\<close>

theorem stream_ids_unique:
  assumes hist: "run (session_step cf client) (newSession client) evs s"
    and opened: "OpenStream cf res s = (Opened i, frs, s')"
  shows "let sid = se_nextStreamID s in
      ys_id (se_objs s' ! i) = sid \<and> odd (unat sid) = client \<and> sid \<notin> ys_id ` set (se_objs s) \<and>
      se_streams s sid = None \<and> se_streams s' = (se_streams s)(sid \<mapsto> i) \<and> map fr_id frs = [sid] \<and>
      unat (se_nextStreamID s') = unat sid + 2 \<and> length (se_acceptCh s') \<le> backlog cf \<and> se_synCh s' \<le> backlog cf"
proof -
  note g = OpenStream_guards[OF opened]
  obtain st n where st: "ys_id st = se_nextStreamID s"
    and s': "s' = s\<lparr>se_synCh := n, se_nextStreamID := se_nextStreamID s + 2, se_objs := se_objs s @ [st],
           se_streams := (se_streams s)(se_nextStreamID s \<mapsto> length (se_objs s)), se_inflight := insert (se_nextStreamID s) (se_inflight s)\<rparr>"
    and i: "i = length (se_objs s)" using OpenStream_opened[OF opened g] by auto
  have inv: "session_inv cf client s" by (rule ysession.history_inv[OF refl hist])
  have inv': "session_inv cf client s'" using OpenStream_inv[OF inv, of res] opened by simp
  have own: "odd (unat (se_nextStreamID s)) = client" using inv by (simp add: session_inv_def ids_inv_def own_def)
  have fresh: "se_nextStreamID s \<notin> ys_id ` set (se_objs s)"
  proof
    assume "se_nextStreamID s \<in> ys_id ` set (se_objs s)"
    then obtain st' where st': "st' \<in> set (se_objs s)" "ys_id st' = se_nextStreamID s" by auto
    have "se_client s = client" using inv by (simp add: session_inv_def)
    then have "ys_id st' < se_nextStreamID s" using inv own st' unfolding session_inv_def ids_inv_def own_def by metis
    then show False using st'(2) by simp
  qed
  have free: "se_streams s (se_nextStreamID s) = None"
    using inv fresh unfolding session_inv_def refs_inv_def by (metis imageI not_Some_eq nth_mem)
  have "map fr_id frs = [se_nextStreamID s]" using opened g
    by (auto simp: OpenStream_def Let_def sendWindowUpdate_def sendFlags_def newStream_def flagSYN_def split: if_splits)
  then show ?thesis using st i own fresh free next_id(1)[OF g(1)] inv'
    by (simp add: s' Let_def session_inv_def room_inv_def)
qed

text \<open>A stream is opened and the peer declares one; the next stream of this end has the identifier 3.\<close>

definition demo_events :: "session_event list" where
  "demo_events = [SOpen SendOk, SFrame SendOk SendOk (h_encode typeWindowUpdate flagSYN 2 0) [], SAccept False SendOk,
     SFrame SendOk SendOk (h_encode typeWindowUpdate flagACK 1 0) []]"

definition demo_session :: ysession where
  "demo_session = fold (session_next DefaultConfig) demo_events (newSession True)"

lemma demo_session_state:
  "list_all (peer_ok True) demo_events" "se_nextStreamID demo_session = 3" "fst (OpenStream DefaultConfig SendOk demo_session) = Opened 2"
  "map ys_id (se_objs demo_session) = [1, 2]" "map ys_state (se_objs demo_session) = [StreamEstablished, StreamEstablished]"
  by code_simp+

theorem stream_ids_unique_witness:
  "ys_id (se_objs (snd (snd (OpenStream DefaultConfig SendOk demo_session))) ! 2) = 3 \<and> (3 :: u32) \<notin> ys_id ` set (se_objs demo_session)"
proof -
  have hist: "run (session_step DefaultConfig True) (newSession True) demo_events demo_session"
    by (simp only: session_run_iff demo_session_def demo_session_state(1) simp_thms)
  obtain frs s' where os: "OpenStream DefaultConfig SendOk demo_session = (Opened 2, frs, s')"
    using demo_session_state(3) by (metis prod_cases3 fst_conv)
  from stream_ids_unique[OF hist os] show ?thesis
    by (simp add: Let_def os demo_session_state(2))
qed

subsection \<open>Where it breaks\<close>

text \<open>Once the identifiers are used up, each attempt keeps a slot of the backlog; in the end \<open>OpenStream\<close> blocks instead of failing.\<close>

lemma exhausted_open_keeps_slot:
  assumes "\<not> se_shutdown s" "\<not> se_remoteGoAway s" "se_synCh s < backlog cf" "0xFFFFFFFF - 1 \<le> se_nextStreamID s"
  shows "OpenStream cf res s = (OpenErr ErrStreamsExhausted, [], s\<lparr>se_synCh := se_synCh s + 1\<rparr>)"
  using assms by (auto simp: OpenStream_def Let_def)

text \<open>
  The parity of a declared stream is not checked. A peer that declares this end's next identifier has its stream replaced in the
  map by the one that is opened next, so that the first, still in the accept queue, gets no frame any more.
\<close>

lemma peer_parity_unchecked:
  "let s = snd (recv_step DefaultConfig SendOk SendOk (h_encode typeWindowUpdate flagSYN 1 0) [] (newSession True));
       s' = snd (snd (OpenStream DefaultConfig SendOk s))
   in se_streams s 1 = Some 0 \<and> se_acceptCh s' = [0] \<and> se_streams s' 1 = Some 1"
  by code_simp

end
