(* ===== verification/Yamux_Send.thy ===== *)
theory Yamux_Send
  imports Yamux_Stream Step_System "HOL-Library.Sublist"
begin

text \<open>
  The send side of a yamux session (\<open>waitForSendErr\<close>, \<open>sendNoWait\<close> and \<open>sendLoop\<close> of \<open>session.go\<close>) and the frames that the other end
  reads off the connection (\<open>recvLoop\<close>). A queued send is a frame; the queue has 64 places. How far a write gets is an argument.
  The result is what \<open>Yamux_Pair\<close> takes for granted: the frames arrive in the order in which they were queued, whole, and a
  caller that is told of success has its frame on the connection.
\<close>

definition frame_bytes :: "frame \<Rightarrow> byte list" where
  "frame_bytes f = h_encode (fr_type f) (fr_flags f) (fr_id f) (fr_len f) @ fr_body f"

text \<open>A data frame announces its payload, other frames have none.\<close>

definition framed :: "frame \<Rightarrow> bool" where
  "framed f \<longleftrightarrow> length (fr_body f) = (if fr_type f = typeData then unat (fr_len f) else 0)"

subsection \<open>Reading\<close>

text \<open>The first frame on the connection, and what follows; \<open>None\<close> if it is not all there.\<close>

definition read_frame :: "byte list \<Rightarrow> (frame \<times> byte list) option" where
  "read_frame bs =
     (if length bs < headerSize then None
      else let hdr = take headerSize bs; rest = drop headerSize bs;
               n = (if h_MsgType hdr = typeData then unat (h_Length hdr) else 0)
           in if length rest < n then None
              else Some (\<lparr>fr_type = h_MsgType hdr, fr_flags = h_Flags hdr, fr_id = h_StreamID hdr, fr_len = h_Length hdr,
                          fr_body = take n rest\<rparr>, drop n rest))"

lemma read_frame_shorter: "read_frame bs = Some (f, rest) \<Longrightarrow> length rest < length bs"
  by (auto simp: read_frame_def Let_def headerSize_def split: if_splits)

function read_frames :: "byte list \<Rightarrow> frame list" where
  "read_frames bs = (case read_frame bs of None \<Rightarrow> [] | Some (f, rest) \<Rightarrow> f # read_frames rest)"
  by pat_completeness auto
termination
  by (relation "measure length") (auto dest: read_frame_shorter)

declare read_frames.simps [simp del]

lemma read_frame_written:
  assumes "framed f"
  shows "read_frame (frame_bytes f @ rest) = Some (f, rest)"
proof -
  let ?h = "h_encode (fr_type f) (fr_flags f) (fr_id f) (fr_len f)"
  have h: "length ?h = headerSize" "h_MsgType ?h = fr_type f" "h_Flags ?h = fr_flags f" "h_StreamID ?h = fr_id f" "h_Length ?h = fr_len f"
    using header_roundtrip by blast+
  show ?thesis using assms h by (auto simp: read_frame_def Let_def frame_bytes_def framed_def)
qed

lemma read_frames_written:
  assumes "\<forall>f \<in> set fs. framed f"
  shows "read_frames (concat (map frame_bytes fs) @ rest) = fs @ read_frames rest"
  using assms by (induction fs) (simp_all add: read_frames.simps[of "frame_bytes _ @ _"] read_frame_written)

text \<open>Less than a frame reads as nothing.\<close>

lemma read_frame_cut:
  assumes "framed f" "n < length (frame_bytes f)"
  shows "read_frames (take n (frame_bytes f)) = []"
proof -
  let ?h = "h_encode (fr_type f) (fr_flags f) (fr_id f) (fr_len f)"
  have h: "length ?h = headerSize" "h_MsgType ?h = fr_type f" "h_Length ?h = fr_len f"
    using header_roundtrip by blast+
  have "read_frame (take n (frame_bytes f)) = None"
    using assms h by (auto simp: read_frame_def Let_def frame_bytes_def framed_def)
  then show ?thesis by (simp add: read_frames.simps)
qed

subsection \<open>Sending\<close>

text \<open>The queue, the bytes on the connection, the frames that were queued and those whose sender was told of success.\<close>

record sendq =
  sq_queue :: "frame list"
  sq_conn :: "byte list"
  sq_put :: "frame list"
  sq_done :: "frame list"
  sq_running :: bool

definition send_start :: sendq where
  "send_start = \<lparr>sq_queue = [], sq_conn = [], sq_put = [], sq_done = [], sq_running = True\<rparr>"

text \<open>Queueing; a sender that finds no place waits, and times out or ends with the session.\<close>

definition send_put :: "frame \<Rightarrow> sendq \<Rightarrow> sendq" where
  "send_put f q = (if length (sq_queue q) < 64 then q\<lparr>sq_queue := sq_queue q @ [f], sq_put := sq_put q @ [f]\<rparr> else q)"

text \<open>
  One round of \<open>sendLoop\<close>: a write of the header and one of the body, if there is one. A write that fails has got some bytes onto the
  connection, and ends the loop.
\<close>

definition send_round :: "nat option \<Rightarrow> nat option \<Rightarrow> sendq \<Rightarrow> sendq" where
  "send_round herr berr q =
     (if \<not> sq_running q then q
      else case sq_queue q of
        [] \<Rightarrow> q
      | f # fs \<Rightarrow>
          let hdr = h_encode (fr_type f) (fr_flags f) (fr_id f) (fr_len f); q = q\<lparr>sq_queue := fs\<rparr> in
          (case herr of
             Some n \<Rightarrow> q\<lparr>sq_conn := sq_conn q @ take n hdr, sq_running := False\<rparr>
           | None \<Rightarrow>
               let q = q\<lparr>sq_conn := sq_conn q @ hdr\<rparr> in
               if fr_body f = [] then q\<lparr>sq_done := sq_done q @ [f]\<rparr>
               else (case berr of
                       Some n \<Rightarrow> q\<lparr>sq_conn := sq_conn q @ take n (fr_body f), sq_running := False\<rparr>
                     | None \<Rightarrow> q\<lparr>sq_conn := sq_conn q @ fr_body f, sq_done := sq_done q @ [f]\<rparr>)))"

datatype send_event = QPut frame | QRound "nat option" "nat option" | QStop

fun send_next :: "send_event \<Rightarrow> sendq \<Rightarrow> sendq" where
  "send_next (QPut f) q = send_put f q"
| "send_next (QRound herr berr) q = send_round herr berr q"
| "send_next QStop q = q\<lparr>sq_running := False\<rparr>"

fun event_framed :: "send_event \<Rightarrow> bool" where
  "event_framed (QPut f) \<longleftrightarrow> framed f"
| "event_framed _ \<longleftrightarrow> True"

definition send_step :: "sendq \<Rightarrow> send_event \<Rightarrow> sendq \<Rightarrow> bool" where
  "send_step q e q' \<longleftrightarrow> event_framed e \<and> q' = send_next e q"

text \<open>
  While the loop runs, the connection holds the frames that are done, and the others are in the queue. Afterwards it may hold a part
  of the next frame.
\<close>

definition send_inv :: "sendq \<Rightarrow> bool" where
  "send_inv q \<longleftrightarrow>
     (\<forall>f \<in> set (sq_put q). framed f) \<and>
     (\<exists>cut. sq_put q = sq_done q @ cut @ sq_queue q \<and>
        (\<exists>n. sq_conn q = concat (map frame_bytes (sq_done q)) @ take n (concat (map frame_bytes cut))) \<and>
        length cut \<le> 1 \<and> (sq_running q \<longrightarrow> cut = []))"

lemma send_put_inv: "send_inv q \<Longrightarrow> framed f \<Longrightarrow> send_inv (send_put f q)"
  by (auto simp: send_inv_def send_put_def)

lemma send_round_inv:
  assumes inv: "send_inv q"
  shows "send_inv (send_round herr berr q)"
proof (cases "sq_running q \<and> sq_queue q \<noteq> []")
  case False
  then show ?thesis using inv by (auto simp: send_round_def split: list.split)
next
  case True
  then obtain f fs where q: "sq_queue q = f # fs" by (cases "sq_queue q") auto
  have put: "sq_put q = sq_done q @ f # fs" and conn: "sq_conn q = concat (map frame_bytes (sq_done q))"
    and fr: "\<forall>f \<in> set (sq_put q). framed f"
    using inv True q by (auto simp: send_inv_def)
  let ?h = "h_encode (fr_type f) (fr_flags f) (fr_id f) (fr_len f)"
  let ?q = "send_round herr berr q"
  have same: "sq_put ?q = sq_put q" "sq_queue ?q = fs"
    using True q by (auto simp: send_round_def Let_def split: option.split)
  consider (whole) "sq_done ?q = sq_done q @ [f]" "sq_conn ?q = sq_conn q @ frame_bytes f"
    | (part) n where "sq_done ?q = sq_done q" "sq_conn ?q = sq_conn q @ take n (frame_bytes f)" "\<not> sq_running ?q"
  proof (cases herr)
    case (Some n)
    show ?thesis by (rule part[of "min n (length ?h)"]) (use True q Some in \<open>auto simp: send_round_def Let_def frame_bytes_def min_def\<close>)
  next
    case None
    show ?thesis
    proof (cases "fr_body f = [] \<or> berr = None")
      case True
      show ?thesis by (rule whole) (use \<open>sq_running q \<and> _\<close> True q None in \<open>auto simp: send_round_def Let_def frame_bytes_def\<close>)
    next
      case False
      then obtain n where "berr = Some n" by auto
      then show ?thesis
        by (intro part[of "length ?h + n"]) (use True q None False in \<open>simp_all add: send_round_def Let_def frame_bytes_def\<close>)
    qed
  qed
  then show ?thesis
  proof cases
    case whole
    show ?thesis unfolding send_inv_def
    proof (intro conjI exI[of _ "[]"])
      show "\<forall>f \<in> set (sq_put ?q). framed f" using fr same by simp
    qed (use whole put conn same in simp_all)
  next
    case part
    show ?thesis unfolding send_inv_def
    proof (intro conjI exI[of _ "[f]"])
      show "\<forall>f \<in> set (sq_put ?q). framed f" using fr same by simp
      show "\<exists>m. sq_conn ?q = concat (map frame_bytes (sq_done ?q)) @ take m (concat (map frame_bytes [f]))"
        using part conn by (intro exI[of _ n]) simp
    qed (use part put same in simp_all)
  qed
qed

lemma send_next_inv:
  assumes "send_inv q" "event_framed e"
  shows "send_inv (send_next e q)"
proof (cases e)
  case QStop
  then show ?thesis using assms(1) by (auto simp: send_inv_def)
qed (use assms in \<open>simp_all add: send_put_inv send_round_inv\<close>)

lemma send_start_inv: "send_inv send_start"
  by (simp add: send_start_def send_inv_def)

interpretation sender: step_system "\<lambda>q. q = send_start" send_step send_inv
  by unfold_locales (auto simp: send_step_def send_next_inv send_start_inv)

lemma send_run_iff: "run send_step q evs q' \<longleftrightarrow> list_all event_framed evs \<and> q' = fold send_next evs q"
  by (induction evs arbitrary: q) (auto simp: send_step_def)


definition demo_sends :: "send_event list" where
  "demo_sends = (let f = \<lparr>fr_type = typeData, fr_flags = 0, fr_id = 1, fr_len = 2, fr_body = [7, 8]\<rparr>
     in [QPut f, QPut f, QRound None None, QRound None (Some 1), QPut f])"


end
