(* ===== verification/Spec2Isabelle.thy ===== *)
theory Spec2Isabelle
  imports Scheduler Socks_Setup Registry Server_Main Tunnel Mobile Admin_Main Client_Main Proxy Target_Address Socks_Relay Yamux_Pair Yamux_Session Yamux_Send
begin

text \<open>
  Verification of a SOCKS5 proxy whose traffic leaves through phones (Go module \<open>xsocks5\<close>).

  \<^bold>\<open>The program.\<close> Three services and an Android binding:

  \<^item> the server (\<open>server/\<close>) takes SOCKS5 clients on one port and devices on another. A client logs in, an
    allowlist and the credentials are checked, a device is chosen and leased to the account, a stream
    to the device is opened and the device is asked to dial the target;
  \<^item> the client (\<open>client/\<close>) runs on the device: it registers, keeps one session to the server with
    heartbeats and backoff, and dials targets for the server's streams. \<open>mobile/\<close> wraps it for Android;
  \<^item> the admin service (\<open>admin/\<close>) registers devices over HTTP with an encrypted payload, keeps them in
    MongoDB and writes the heartbeats that the server publishes to NSQ into their documents;
  \<^item> \<open>common/\<close> holds the line protocol, the heartbeat event, the encryption and the loggers;
    \<open>third_party/go-socks5\<close> is the fork of the SOCKS5 library that the server runs on, \<open>third_party/yamux\<close> the library
    that carries the streams between server and device.

  \<^bold>\<open>Conventions of the model.\<close> A Go struct is a record, a tagged choice a datatype, an error a value
  on the left of a sum (or an option where there is only the error), a Go map a partial function. Strings
  and byte slices are lists; \<open>string\<close> carries raw bytes. Counters and durations are integers, with the
  wrap-around of \<open>int64\<close> (\<open>wrap64\<close>) written out where the code can reach it; \<open>float64\<close> is the type \<open>f64\<close>
  of \<open>Go_Float\<close>, with rounding to nearest even. The order in which Go walks a map is an argument, constrained only
  to enumerate the map. Shared mutable objects (leases, handles, yamux sessions) are pointers into an explicit
  store. A component behind a mutex is a value with atomic operations; its histories are runs of a
  labelled step relation (\<open>Step_System\<close>), and an operation that gives the lock up in between takes
  what the others do meanwhile as an argument. What the program reads from outside (clock, random
  bytes, files, codecs, drivers, the network) is an argument; where a proof relies on its
  behaviour, the documented behaviour is a named hypothesis (\<open>mongo_ok\<close>, \<open>cipher_ok\<close>, \<open>codec_ok\<close>), and a witness
  instantiates it with a concrete function. There is no fuel: every loop of the code is structural recursion over
  what it consumes (bytes, lines, events, addresses, iterations of the reconnect loop), so a loop
  that runs for ever is one whose event list never ends it, and the claims of return say which events do.

  \<^bold>\<open>The theories, and the code they model.\<close>

  Shared:
  \<^item> \<open>Prelude\<close>, \<open>Step_System\<close>, \<open>Snapshot_Cache\<close>: strings and maps of Go, wrap-around, histories and the locales
    \<open>step_system\<close>, \<open>keeping_system\<close>, \<open>snapshot_cache\<close>;
  \<^item> \<open>Go_Sort\<close>, \<open>Go_Float\<close>, \<open>Go_Rounding\<close>, \<open>Go_Net\<close>, \<open>Go_Addr\<close>, \<open>Go_Encoding\<close>: what the code uses of \<open>sort\<close>, of
    \<open>float64\<close>, of \<open>net\<close> (addresses, CIDR blocks, host and port; \<open>Go_Addr\<close> proves that a printed address is parsed
    again), \<open>encoding/hex\<close> and \<open>encoding/base64\<close>;
  \<^item> \<open>Yamux_Stream\<close>, \<open>Yamux_Pair\<close>, \<open>Yamux_Session\<close>, \<open>Yamux_Send\<close> (\<open>third_party/yamux\<close>): frames and one stream (\<open>const.go\<close>, \<open>stream.go\<close>),
    the two ends of a stream with the connection between them, one end of a session and its send loop (\<open>session.go\<close>), the configuration
    that server and device give it (\<open>mux.go\<close>).

  Server:
  \<^item> \<open>Username\<close> (\<open>server/scheduler/username.go\<close>), \<open>Pool\<close> (\<open>pool.go\<close>), \<open>Selector\<close> (\<open>selector.go\<close>; its interface is the locale
    \<open>selector\<close>), \<open>Lease\<close> (\<open>lease.go\<close>), \<open>Scheduler\<close> (\<open>scheduler.go\<close>: \<open>Pick\<close>, its retry, \<open>WrapConn\<close>, the sweeper);
  \<^item> \<open>Credentials\<close> (\<open>server/hub/credentials.go\<close>, \<open>socksauth.go\<close>, \<open>server/scheduler/auth.go\<close>), \<open>Whitelist\<close>
    (\<open>server/hub/whitelist.go\<close>): the two refreshed caches and the checks on top of them;
  \<^item> \<open>Registry\<close> (\<open>server/hub/registry.go\<close>), \<open>Protocol\<close> (\<open>common/protocol\<close>), \<open>Device_Session\<close> (\<open>server/hub/device.go\<close>),
    \<open>Heartbeat_Sink\<close> (\<open>server/geo/geo.go\<close>, \<open>server/nsqpub/publisher.go\<close> and the sink of \<open>server/main.go\<close>),
    \<open>Dial\<close> (\<open>server/hub/dial.go\<close>), \<open>Dial_Request\<close> (\<open>buildDialAndRequest\<close> of \<open>server/main.go\<close>);
  \<^item> \<open>Socks_Statute\<close>, \<open>Socks_Server\<close> (\<open>third_party/go-socks5\<close>: wire formats; one connection from the method
    negotiation to the end of its command), \<open>Socks_Relay\<close> (the accept loop, the copying of bytes, the buffer pool, and
    \<open>ASSOCIATE\<close> with its UDP relay as a state machine), \<open>Server_Config\<close> (\<open>server/config/server.go\<close>), \<open>Socks_Setup\<close>
    (\<open>server/sockssetup/setup.go\<close>), \<open>Server_Main\<close> (\<open>server/main.go\<close>: boot, loops, shutdown), \<open>Proxy\<close> (the server with
    the dial callback of the scheduler scheme), \<open>Target_Address\<close> (a target's address from the client to the device).

  Client:
  \<^item> \<open>Backoff\<close>, \<open>Heartbeat_Stats\<close>, \<open>Client_Dial\<close>, \<open>Client_Session\<close> (\<open>client/core\<close>), \<open>Client_Config\<close>
    (\<open>client/config/client.go\<close>), \<open>Register_Client\<close> (\<open>client/register\<close>), \<open>Client_Main\<close> (\<open>client/main.go\<close>), \<open>Mobile\<close>
    (\<open>mobile/mobile.go\<close>), \<open>Tunnel\<close> (the server's dial and the device's answer together).

  Admin service:
  \<^item> \<open>Aes_Cbc\<close> (\<open>common/crypto/aescbc\<close>), \<open>Logger\<close> (\<open>common/logger\<close>), \<open>Admin_Config\<close> (\<open>admin/config/admin.go\<close>), \<open>Admin_Store\<close>
    (\<open>admin/store\<close>; its interface is the locale \<open>device_store\<close> with the extension \<open>network_store\<close>),
    \<open>Register_Handler\<close> (\<open>admin/handler/register.go\<close>), \<open>Nsq_Consumer\<close> (\<open>admin/nsqcons/consumer.go\<close>), \<open>Admin_Main\<close>
    (\<open>admin/main.go\<close>: boot, routes, shutdown, histories of requests and messages).

  \<^bold>\<open>What is shown.\<close>

  \<^item> Choosing a device: the parser accepts exactly the documented usernames; a snapshot lists each online
    device once; the selector picks the least score among the admissible devices; in every history of
    calls the lease table is consistent, no device is bound to two users and every reference count is the
    number of open handles; \<open>Acquire\<close> and \<open>HeldDeviceIDs\<close> refine a specification on bindings; leases are
    sticky; \<open>Pick\<close> under any interference returns an online device bound to the user, and without
    interference succeeds exactly when there is one.
  \<^item> Letting a client in: the wire parsers accept exactly the encodings; nothing is dialed before
    authentication and rules; with an allowlist and credentials configured only allowed addresses with a valid
    account get through, and the connection they get runs through a device leased to that account
    (\<open>Proxy\<close>). Names are resolved by the server, so a device gets literals (\<open>Target_Address\<close>). The rules allow
    \<open>CONNECT\<close> only, so the UDP relay of the library is never reached (\<open>associate_unused\<close>); what it promises by itself is in
    \<open>Socks_Relay\<close>: datagrams go only between a client and the targets it addressed, and all sockets are closed at the end.
  \<^item> Devices: a device is bound to its last registered session; a session that ends cleans up after itself and
    touches no other; every heartbeat is answered and handed on once; the watchdog fires exactly on time; a dial and
    the device's answer agree; a failed dial releases its lease handle, a successful one hands it over.
  \<^item> The streams between them: whatever the order of calls and frames, no end of a stream refuses a frame of the other, what is
    read is a prefix of what was written, the flow-control windows bound the buffers and do not stall a writer whose data is all
    read; the streams that a session opens have identifiers of their own; the frames arrive whole and in order.
  \<^item> The client: its reconnect loop returns exactly on a cancellation and waits within the bounds of
    the backoff; its statistics refine a specification that keeps the whole history; in the Android
    binding at most one client runs, and it treats settings like the command-line client.
  \<^item> The admin service: what reaches the store; the round trip of a registration from the device's
    encryption to the handler's answer; documents stay typed, ids and fingerprints unique; a device keeps its
    id; a heartbeat of a registered device is written to its document and to no other; messages are
    delivered again exactly when the driver failed.
  \<^item> Processes: the server serves only what was configured successfully, and which goroutines its
    shutdown waits for; the admin service closes its store last.

  The theorems that are no positive statement describe behaviour that the code does not mean:
  \<open>Username.clamp_duration_wraps\<close>, \<open>Scheduler.Pick_can_share_device\<close>, \<open>Dial.early_bytes_lost\<close>,
  \<open>Client_Session.heartbeat_failure_stops_client\<close>, \<open>Client_Session.target_eof_not_forwarded\<close>,
  \<open>Socks_Relay.ipv6_reply_misaddressed\<close>, \<open>Socks_Relay.reply_failure_leaks_socket\<close>, \<open>Socks_Relay.ipv6_bind_address_fails\<close>,
  \<open>Socks_Relay.refused_target_ends_relay\<close>, \<open>Client_Main.cancelled_handshake_fails\<close>, \<open>Register_Handler.skew_bypass\<close>, \<open>Nsq_Consumer.late_event_turns_back\<close>,
  \<open>Yamux_Pair.timed_out_write_overruns\<close>, \<open>Yamux_Pair.fin_during_close_timeout\<close>, \<open>Yamux_Session.exhausted_open_keeps_slot\<close>,
  \<open>Yamux_Session.peer_parity_unchecked\<close> and
  the second half of \<open>Server_Main.shutdown_waits_for_late_device\<close>.

  \<^bold>\<open>Bounds.\<close> The backoff's bounds hold for delays below \<open>2 ^ 53\<close> nanoseconds (104 days), where \<open>float64\<close> holds
  the configured values exactly; the statistics for histories shorter than \<open>2 ^ 63\<close> and round-trip times whose
  product with the window fits \<open>int64\<close>; padding
  for block sizes below 256, as AES has.

  \<^bold>\<open>Not modelled.\<close> Of the vendored yamux deadlines, the round-trip time of a ping and the steps
  between the locks of one call (what becomes of a send is an argument of a call); the theories of server and device do not build on it but take
  sessions and streams as references, events and arguments, with the documented behaviour of a stream. Of the vendored
  go-socks5 the standard logger and the functions that open a listener; within \<open>ServeConn\<close> the end of
  the two copies is an argument (one copy is \<open>sf_Proxy\<close>), and a relay's steps are atomic: a datagram and the write that
  follows it are one event, and the exit of a target's goroutine is two; TLS, the AES block
  cipher, SHA-256, HTTP, MongoDB, NSQ, GeoLite2, JSON and YAML codecs (arguments); flags, signals and log
  lines of the \<open>main\<close> functions. Deadlines
  and tickers are events that come or do not; real time appears only as clock readings.
\<close>

end
